(* ===== verification/Prelude.thy ===== *)
theory Prelude
  imports
    Complex_Main
    "HOL-Library.AList"
    "HOL-Library.Multiset"
    "HOL-Library.List_Lexorder"
    "HOL-Library.Char_ord"
begin

text \<open>
  Shared vocabulary of the development: the fragment of the Go language and of its standard
  library (strings, maps, sorting, decimal conversion) that the components use, with the
  generic lemmas that carry the component proofs.

  Go strings are byte sequences and are modelled as \<^typ>\<open>string\<close>; Go's built-in order on strings
  (bytewise lexicographic) is the order of \<open>List_Lexorder\<close> over \<open>Char_ord\<close>. The character classes
  below are those of the ASCII range: the development covers ASCII texts.

  A Go map is an association list with distinct keys. The order of the list is the order in
  which one \<open>range\<close> loop visits the map; Go leaves that order unspecified, so the components prove
  their observable results independent of it.
\<close>

section \<open>Collections of rewrite rules\<close>

named_theorems abs_simps \<open>how an operation acts on the abstract view of its component\<close>
named_theorems wf_intros \<open>preservation of the well-formedness predicates\<close>

section \<open>Go strings\<close>

definition isUpperAscii :: "char \<Rightarrow> bool" where
  "isUpperAscii c \<longleftrightarrow> CHR ''A'' \<le> c \<and> c \<le> CHR ''Z''"

definition isLowerAscii :: "char \<Rightarrow> bool" where
  "isLowerAscii c \<longleftrightarrow> CHR ''a'' \<le> c \<and> c \<le> CHR ''z''"

text \<open>\<open>unicode.IsLetter\<close>, \<open>unicode.IsDigit\<close> and \<open>unicode.IsSpace\<close> on ASCII.\<close>

definition IsLetter :: "char \<Rightarrow> bool" where
  "IsLetter c \<longleftrightarrow> isUpperAscii c \<or> isLowerAscii c"

definition IsDigit :: "char \<Rightarrow> bool" where
  "IsDigit c \<longleftrightarrow> CHR ''0'' \<le> c \<and> c \<le> CHR ''9''"

definition IsSpace :: "char \<Rightarrow> bool" where
  "IsSpace c \<longleftrightarrow> c = CHR '' '' \<or> (CHR 0x09 \<le> c \<and> c \<le> CHR 0x0D)"

definition lowerChar :: "char \<Rightarrow> char" where
  "lowerChar c = (if isUpperAscii c then char_of (of_char c + 32 :: nat) else c)"

definition upperChar :: "char \<Rightarrow> char" where
  "upperChar c = (if isLowerAscii c then char_of (of_char c - 32 :: nat) else c)"

text \<open>\<open>strings.ToLower\<close> and \<open>strings.ToUpper\<close>.\<close>

definition ToLower :: "string \<Rightarrow> string" where
  "ToLower = map lowerChar"

definition ToUpper :: "string \<Rightarrow> string" where
  "ToUpper = map upperChar"

text \<open>\<open>strings.HasPrefix\<close>, \<open>strings.HasSuffix\<close> and \<open>strings.TrimSpace\<close>.\<close>

definition HasPrefix :: "string \<Rightarrow> string \<Rightarrow> bool" where
  "HasPrefix s pre \<longleftrightarrow> length pre \<le> length s \<and> take (length pre) s = pre"

definition HasSuffix :: "string \<Rightarrow> string \<Rightarrow> bool" where
  "HasSuffix s suf \<longleftrightarrow> length suf \<le> length s \<and> drop (length s - length suf) s = suf"

definition TrimSpace :: "string \<Rightarrow> string" where
  "TrimSpace s = rev (dropWhile IsSpace (rev (dropWhile IsSpace s)))"

text \<open>
  The loop of \<open>strings.FieldsFunc\<close>: \<open>cur\<close> is the field being read (reversed), empty between
  fields.
\<close>

fun fieldsLoop :: "(char \<Rightarrow> bool) \<Rightarrow> string \<Rightarrow> string \<Rightarrow> string list" where
  "fieldsLoop p cur [] = (if cur = [] then [] else [rev cur])"
| "fieldsLoop p cur (c # cs) =
     (if p c then (if cur = [] then fieldsLoop p [] cs else rev cur # fieldsLoop p [] cs)
      else fieldsLoop p (c # cur) cs)"

definition FieldsFunc :: "string \<Rightarrow> (char \<Rightarrow> bool) \<Rightarrow> string list" where
  "FieldsFunc s p = fieldsLoop p [] s"

definition Fields :: "string \<Rightarrow> string list" where
  "Fields s = FieldsFunc s IsSpace"

text \<open>\<open>strings.Join\<close>.\<close>

fun Join :: "string list \<Rightarrow> string \<Rightarrow> string" where
  "Join [] sep = []"
| "Join [x] sep = x"
| "Join (x # y # ys) sep = x @ sep @ Join (y # ys) sep"

lemma fieldsLoop_app:
  "p c \<Longrightarrow> fieldsLoop p cur (a @ c # b) = fieldsLoop p cur a @ fieldsLoop p [] b"
  by (induction a arbitrary: cur) auto

lemma FieldsFunc_app: "p c \<Longrightarrow> FieldsFunc (a @ c # b) p = FieldsFunc a p @ FieldsFunc b p"
  by (simp add: FieldsFunc_def fieldsLoop_app)

lemma fieldsLoop_fields:
  assumes "w \<in> set (fieldsLoop p cur s)" and "\<forall>c \<in> set cur. \<not> p c"
  shows "w \<noteq> [] \<and> (\<forall>c \<in> set w. \<not> p c \<and> c \<in> set cur \<union> set s)"
  using assms
proof (induction s arbitrary: cur)
  case Nil
  then show ?case by (auto split: if_splits)
next
  case (Cons a s)
  show ?case
  proof (cases "p a")
    case True
    with Cons.prems have "(w = rev cur \<and> cur \<noteq> []) \<or> w \<in> set (fieldsLoop p [] s)"
      by (auto split: if_splits)
    with Cons.IH [of "[]"] Cons.prems(2) show ?thesis by auto
  next
    case False
    with Cons.prems have "w \<in> set (fieldsLoop p (a # cur) s)" and "\<forall>c \<in> set (a # cur). \<not> p c"
      by auto
    from Cons.IH [OF this] show ?thesis by auto
  qed
qed

lemma FieldsFunc_fields:
  "w \<in> set (FieldsFunc s p) \<Longrightarrow> w \<noteq> [] \<and> (\<forall>c \<in> set w. \<not> p c \<and> c \<in> set s)"
  using fieldsLoop_fields [of w p "[]" s] by (simp add: FieldsFunc_def)

lemma fieldsLoop_map:
  "(\<And>c. p (f c) = p c) \<Longrightarrow>
   fieldsLoop p (map f cur) (map f s) = map (map f) (fieldsLoop p cur s)"
proof (induction s arbitrary: cur)
  case Nil
  then show ?case by (simp add: rev_map)
next
  case (Cons a s)
  from Cons.IH [OF Cons.prems, of "a # cur"] Cons.IH [OF Cons.prems, of "[]"]
  show ?case by (simp add: Cons.prems rev_map)
qed

text \<open>A word without separators is one field.\<close>

lemma fieldsLoop_word:
  "\<forall>c \<in> set s. \<not> p c \<Longrightarrow> fieldsLoop p cur s = (if s = [] \<and> cur = [] then [] else [rev cur @ s])"
  by (induction s arbitrary: cur) auto

lemma FieldsFunc_word:
  "\<forall>c \<in> set s. \<not> p c \<Longrightarrow> s \<noteq> [] \<Longrightarrow> FieldsFunc s p = [s]"
  by (simp add: FieldsFunc_def fieldsLoop_word)

subsection \<open>Case conversion\<close>

text \<open>Characters as numbers: the order facts below are linear arithmetic.\<close>

lemma less_char_nat: "c < d \<longleftrightarrow> (of_char c :: nat) < of_char d"
  by (simp add: less_char_def)

lemma char_le_nat: "c \<le> d \<longleftrightarrow> (of_char c :: nat) \<le> of_char d"
  by (simp add: less_eq_char_def)

lemma lowerChar_nat:
  "of_char (lowerChar c) = (if 65 \<le> (of_char c :: nat) \<and> of_char c \<le> (90 :: nat)
    then of_char c + 32 else (of_char c :: nat))"
  by (auto simp: lowerChar_def isUpperAscii_def char_le_nat)

lemma isUpper_lowerChar [simp]: "\<not> isUpperAscii (lowerChar c)"
  by (simp add: isUpperAscii_def char_le_nat lowerChar_nat)

lemma lowerChar_id: "\<not> isUpperAscii c \<Longrightarrow> lowerChar c = c"
  by (simp add: lowerChar_def)

lemma lowerChar_idem [simp]: "lowerChar (lowerChar c) = lowerChar c"
  by (simp add: lowerChar_id)

lemma IsLetter_lowerChar [simp]: "IsLetter (lowerChar c) = IsLetter c"
  by (auto simp: IsLetter_def isUpperAscii_def isLowerAscii_def char_le_nat lowerChar_nat)

lemma IsDigit_lowerChar [simp]: "IsDigit (lowerChar c) = IsDigit c"
  by (auto simp: IsDigit_def char_le_nat lowerChar_nat)

lemma ToLower_idem [simp]: "ToLower (ToLower s) = ToLower s"
  by (simp add: ToLower_def)

lemma length_ToLower [simp]: "length (ToLower s) = length s"
  by (simp add: ToLower_def)

lemma ToLower_append: "ToLower (a @ b) = ToLower a @ ToLower b"
  by (simp add: ToLower_def)

lemma ToLower_id: "\<forall>c \<in> set s. \<not> isUpperAscii c \<Longrightarrow> ToLower s = s"
  unfolding ToLower_def by (rule map_idI) (simp add: lowerChar_id)

section \<open>Decimal numbers\<close>

text \<open>\<open>strconv.Itoa\<close> and the \<open>%d\<close> verb.\<close>

fun show_nat :: "nat \<Rightarrow> string" where
  "show_nat n = (if n < 10 then [char_of (48 + n)] else show_nat (n div 10) @ [char_of (48 + n mod 10)])"

declare show_nat.simps [simp del]

definition show_int :: "int \<Rightarrow> string" where
  "show_int i = (if i < 0 then CHR ''-'' # show_nat (nat (- i)) else show_nat (nat i))"

section \<open>Sorting with distinct keys\<close>

text \<open>
  \<open>sort.Slice\<close> and \<open>sort.Strings\<close> are modelled by \<^const>\<open>sort_key\<close>. Where the keys are distinct
  the sorted permutation is unique, so neither the order of the input nor the (unspecified)
  stability of \<open>sort.Slice\<close> matters.
\<close>

lemma sort_key_unique:
  "mset xs = mset ys \<Longrightarrow> distinct (map f xs) \<Longrightarrow> sort_key f xs = sort_key f ys"
proof -
  assume m: "mset xs = mset ys" and d: "distinct (map f xs)"
  have "mset (sort_key f ys) = mset xs" using m by simp
  moreover have "inj_on f (set xs)" using d by (simp add: distinct_map)
  ultimately show ?thesis
    by (intro sort_key_inj_key_eq) auto
qed

lemma sort_mset_eq: "mset xs = mset ys \<Longrightarrow> sort xs = sort (ys :: 'a :: linorder list)"
  by (rule properties_for_sort) simp_all

lemma sum_list_mset_eq:
  fixes f :: "'a \<Rightarrow> 'b :: comm_monoid_add"
  assumes "mset xs = mset ys"
  shows "sum_list (map f xs) = sum_list (map f ys)"
proof -
  have "mset (map f xs) = mset (map f ys)" using assms by simp
  then have "sum_mset (mset (map f xs)) = sum_mset (mset (map f ys))" by (rule arg_cong)
  then show ?thesis by (simp only: sum_mset_sum_list)
qed

lemma distinct_map_sort_key [simp]: "distinct (map f (sort_key g xs)) = distinct (map f xs)"
  by (metis mset_eq_imp_distinct_iff mset_map mset_sort)

lemma sorted_map_strict:
  "sorted (map f xs) \<Longrightarrow> distinct (map f xs) \<Longrightarrow> sorted_wrt (<) (map f xs)"
  by (simp add: strict_sorted_iff)

section \<open>Association lists\<close>

lemma mset_map_alist_unique:
  "distinct (map fst al) \<Longrightarrow> distinct (map fst bl) \<Longrightarrow> map_of al = map_of bl \<Longrightarrow>
   mset al = mset bl"
  by (metis distinct_map map_of_inject_set set_eq_iff_mset_eq_distinct)

lemma map_of_mset_eq:
  assumes "mset al = mset bl" and "distinct (map fst al)"
  shows "map_of al = map_of bl"
proof -
  have "distinct (map fst bl)"
    using assms mset_eq_imp_distinct_iff [of "map fst al" "map fst bl"] by simp
  with assms show ?thesis
    using map_of_inject_set mset_eq_setD by blast
qed

lemma in_set_update: "x \<in> set (AList.update k v al) \<Longrightarrow> x = (k, v) \<or> x \<in> set al"
  by (induction al) (auto split: if_splits)

lemma keys_update: "fst ` set (AList.update k v al) = insert k (fst ` set al)"
  by (induction al) auto

lemma update_not_Nil [simp]: "AList.update k v al \<noteq> []"
  by (cases al) auto

lemma map_of_filter_val:
  "distinct (map fst xs) \<Longrightarrow> map_of (filter (\<lambda>(_, v). P v) xs) k =
     (case map_of xs k of None \<Rightarrow> None | Some v \<Rightarrow> if P v then Some v else None)"
proof (induction xs)
  case (Cons x xs)
  obtain a v where x: "x = (a, v)" by fastforce
  have "map_of xs a = None" using Cons.prems x by (simp add: map_of_eq_None_iff)
  with Cons x show ?case by (auto split: option.splits)
qed simp

lemma map_of_map_snd: "map_of (map (\<lambda>(k, v). (k, f v)) al) k = map_option f (map_of al k)"
  by (induction al) auto

end
