(* ===== verification/Posting.thy ===== *)
theory Posting
  imports Prelude
begin

text \<open>
  The data of \<open>internal/indexer/index/posting.go\<close> and the contract every searchable store of
  postings fulfils. The engine reads two kinds of stores, the memory index and the on-disk
  segment readers; both are instances of the locale \<open>posting_source\<close>.
\<close>

record posting =
  DocID :: string
  Frequency :: int
  Positions :: "int list"

type_synonym PostingList = "posting list"

record TermEntry =
  entryTerm :: string
  Postings :: PostingList

text \<open>
  A posting produced by indexing: its frequency counts its positions, which are at least one and
  strictly increase from 0 on.
\<close>

definition wf_posting :: "posting \<Rightarrow> bool" where
  "wf_posting p \<longleftrightarrow> Frequency p = int (length (Positions p)) \<and> Positions p \<noteq> [] \<and>
     sorted_wrt (<) (Positions p) \<and> (\<forall>i \<in> set (Positions p). 0 \<le> i)"

lemma wf_posting_Frequency_pos: "wf_posting p \<Longrightarrow> 0 < Frequency p"
  by (simp add: wf_posting_def)

text \<open>
  A store of postings: \<open>search s t\<close> is what it returns for term \<open>t\<close>, \<open>view s t d\<close> is the posting it
  holds for document \<open>d\<close>. A search returns exactly the held postings, by increasing document ID.
\<close>

locale posting_source =
  fixes invar :: "'s \<Rightarrow> bool"
    and search :: "'s \<Rightarrow> string \<Rightarrow> PostingList"
    and view :: "'s \<Rightarrow> string \<Rightarrow> string \<Rightarrow> posting option"
  assumes search_sorted: "invar s \<Longrightarrow> sorted_wrt (<) (map DocID (search s t))"
    and search_view: "invar s \<Longrightarrow> p \<in> set (search s t) \<longleftrightarrow> view s t (DocID p) = Some p"
    and view_DocID: "invar s \<Longrightarrow> view s t d = Some p \<Longrightarrow> DocID p = d"
begin

lemma search_distinct: "invar s \<Longrightarrow> distinct (map DocID (search s t))"
  using search_sorted strict_sorted_iff by blast

lemma search_docs: "invar s \<Longrightarrow> DocID ` set (search s t) = dom (view s t)"
  by (force simp: search_view dest: view_DocID)

text \<open>The result is determined by the view: two stores with the same postings answer alike.\<close>

lemma search_unique:
  assumes "invar s" and "invar s'" and "view s t = view s' t"
  shows "search s t = search s' t"
proof -
  have set_eq: "set (search s t) = set (search s' t)"
    using assms by (auto simp: search_view)
  have "distinct (search s t)" "distinct (search s' t)"
    using search_distinct assms(1,2) by (auto simp: distinct_map)
  with set_eq have "mset (search s t) = mset (search s' t)"
    by (simp add: set_eq_iff_mset_eq_distinct)
  then have "sort_key DocID (search s t) = sort_key DocID (search s' t)"
    using search_distinct [OF assms(1)] by (rule sort_key_unique)
  moreover have "sort_key DocID (search s t) = search s t" if "invar s" for s
    using search_sorted [OF that, of t] by (simp add: sort_key_id_if_sorted strict_sorted_iff)
  ultimately show ?thesis using assms by simp
qed

end

end
