(* ===== verification/Ranker.thy ===== *)
theory Ranker
  imports Posting
begin

text \<open>
  \<open>internal/searcher/ranker/ranker.go\<close>: BM25 scoring. \<open>float64\<close> values are real numbers, so rounding
  errors of the arithmetic are not modelled; the explicit rounding to four decimals is. The order
  of results, by decreasing score and then increasing document ID, is the reverse of the linear
  order on \<open>ScoredDoc\<close>, which is also the order of the merger's heap.
\<close>

datatype ScoredDoc = ScoredDoc (sdDocID: string) (Score: real)

record RankParams =
  prTotalDocs :: int
  AvgDocLength :: real

definition bm25_k1 :: real where "bm25_k1 = 1.2"
definition bm25_b :: real where "bm25_b = 0.75"

text \<open>\<open>math.Round\<close>: half away from zero.\<close>

definition Round :: "real \<Rightarrow> real" where
  "Round x = (if 0 \<le> x then real_of_int \<lfloor>x + 1 / 2\<rfloor> else - real_of_int \<lfloor>- x + 1 / 2\<rfloor>)"

definition computeIDF :: "int \<Rightarrow> int \<Rightarrow> real" where
  "computeIDF totalDocs docFreq =
     (let numerator = real_of_int totalDocs - real_of_int docFreq;
          denominator = real_of_int docFreq + 0.5
      in ln (numerator / denominator + 1))"

definition computeTFNorm :: "real \<Rightarrow> real \<Rightarrow> real \<Rightarrow> real" where
  "computeTFNorm termFreq docLength avgDocLength =
     (if avgDocLength = 0 then 0
      else
        (let lengthRatio = docLength / avgDocLength;
             denominator = termFreq + bm25_k1 * (1 - bm25_b + bm25_b * lengthRatio)
         in termFreq * (bm25_k1 + 1) / denominator))"

section \<open>The order of results\<close>

instantiation ScoredDoc :: linorder
begin

definition less_ScoredDoc :: "ScoredDoc \<Rightarrow> ScoredDoc \<Rightarrow> bool" where
  "less_ScoredDoc x y \<longleftrightarrow>
     (if Score x \<noteq> Score y then Score x < Score y else sdDocID y < sdDocID x)"

definition less_eq_ScoredDoc :: "ScoredDoc \<Rightarrow> ScoredDoc \<Rightarrow> bool" where
  "less_eq_ScoredDoc x y \<longleftrightarrow> x = y \<or> x < y"

instance
proof
  fix x y z :: ScoredDoc
  show "x < y \<longleftrightarrow> x \<le> y \<and> \<not> y \<le> x"
    by (auto simp: less_ScoredDoc_def less_eq_ScoredDoc_def split: if_splits)
  show "x \<le> x" by (simp add: less_eq_ScoredDoc_def)
  show "x \<le> y \<Longrightarrow> y \<le> z \<Longrightarrow> x \<le> z"
    by (auto simp: less_ScoredDoc_def less_eq_ScoredDoc_def split: if_splits)
  show "x \<le> y \<Longrightarrow> y \<le> x \<Longrightarrow> x = y"
    by (auto simp: less_ScoredDoc_def less_eq_ScoredDoc_def split: if_splits)
  show "x \<le> y \<or> y \<le> x"
    by (cases x; cases y) (auto simp: less_ScoredDoc_def less_eq_ScoredDoc_def)
qed

end

section \<open>Ranking\<close>

type_synonym postings_map = "(string \<times> PostingList) list"

fun scorePostings ::
  "real \<Rightarrow> RankParams \<Rightarrow> (string \<Rightarrow> int) \<Rightarrow> (string \<times> real) list \<Rightarrow> PostingList \<Rightarrow> (string \<times> real) list"
where
  "scorePostings idf params getDocInfo scores [] = scores"
| "scorePostings idf params getDocInfo scores (posting # postings) =
     (let docLength = getDocInfo (DocID posting);
          tfNorm = computeTFNorm (real_of_int (Frequency posting)) (real_of_int docLength) (AvgDocLength params);
          old = (case map_of scores (DocID posting) of None \<Rightarrow> 0 | Some s \<Rightarrow> s)
      in scorePostings idf params getDocInfo (AList.update (DocID posting) (old + idf * tfNorm) scores) postings)"

fun scoreTerms ::
  "RankParams \<Rightarrow> (string \<Rightarrow> int) \<Rightarrow> (string \<times> real) list \<Rightarrow> postings_map \<Rightarrow> (string \<times> real) list"
where
  "scoreTerms params getDocInfo scores [] = scores"
| "scoreTerms params getDocInfo scores ((term, postings) # rest) =
     (let docFreq = int (length postings);
          idf = computeIDF (prTotalDocs params) docFreq
      in scoreTerms params getDocInfo (scorePostings idf params getDocInfo scores postings) rest)"

definition Rank :: "postings_map \<Rightarrow> RankParams \<Rightarrow> (string \<Rightarrow> int) \<Rightarrow> int \<Rightarrow> ScoredDoc list" where
  "Rank postingsPerTerm params getDocInfo limit =
     (let scores = scoreTerms params getDocInfo [] postingsPerTerm;
          result = map (\<lambda>(docID, score). ScoredDoc docID (Round (score * 10000) / 10000)) scores;
          sorted = rev (sort result)
      in if 0 < limit \<and> limit < int (length sorted) then take (nat limit) sorted else sorted)"

section \<open>Scores as sums\<close>

text \<open>The contribution of one posting, and the BM25 score of a document: the sum over all postings.\<close>

definition weight :: "RankParams \<Rightarrow> (string \<Rightarrow> int) \<Rightarrow> PostingList \<Rightarrow> posting \<Rightarrow> real" where
  "weight params info ps p =
     computeIDF (prTotalDocs params) (int (length ps)) *
     computeTFNorm (real_of_int (Frequency p)) (real_of_int (info (DocID p))) (AvgDocLength params)"

definition bm25 :: "RankParams \<Rightarrow> (string \<Rightarrow> int) \<Rightarrow> postings_map \<Rightarrow> string \<Rightarrow> real" where
  "bm25 params info ppt d =
     (\<Sum>(t, ps) \<leftarrow> ppt. \<Sum>p \<leftarrow> filter (\<lambda>p. DocID p = d) ps. weight params info ps p)"

definition docsOf :: "postings_map \<Rightarrow> string set" where
  "docsOf ppt = (\<Union>(t, ps) \<in> set ppt. DocID ` set ps)"

definition orZero :: "real option \<Rightarrow> real" where
  "orZero v = (case v of None \<Rightarrow> 0 | Some s \<Rightarrow> s)"

lemma scorePostings_spec:
  "distinct (map fst sc) \<Longrightarrow>
   distinct (map fst (scorePostings idf params info sc ps)) \<and>
   fst ` set (scorePostings idf params info sc ps) = fst ` set sc \<union> DocID ` set ps \<and>
   orZero (map_of (scorePostings idf params info sc ps) d) =
     orZero (map_of sc d) + (\<Sum>p \<leftarrow> filter (\<lambda>p. DocID p = d) ps.
       idf * computeTFNorm (real_of_int (Frequency p)) (real_of_int (info (DocID p))) (AvgDocLength params))"
proof (induction ps arbitrary: sc)
  case (Cons p ps)
  let ?s = "AList.update (DocID p) (orZero (map_of sc (DocID p)) +
    idf * computeTFNorm (real_of_int (Frequency p)) (real_of_int (info (DocID p))) (AvgDocLength params)) sc"
  have "distinct (map fst ?s)" using Cons.prems by (rule distinct_update)
  note IH = Cons.IH [OF this]
  have "scorePostings idf params info sc (p # ps) = scorePostings idf params info ?s ps"
    by (simp add: Let_def orZero_def)
  moreover have "fst ` set ?s = insert (DocID p) (fst ` set sc)"
    by (rule keys_update)
  ultimately show ?case
    using IH by (auto simp: update_conv' orZero_def)
qed simp

lemma scoreTerms_spec:
  "distinct (map fst sc) \<Longrightarrow>
   distinct (map fst (scoreTerms params info sc ppt)) \<and>
   fst ` set (scoreTerms params info sc ppt) = fst ` set sc \<union> docsOf ppt \<and>
   orZero (map_of (scoreTerms params info sc ppt) d) = orZero (map_of sc d) + bm25 params info ppt d"
proof (induction params info sc ppt rule: scoreTerms.induct)
  case (1 params info sc)
  then show ?case by (simp add: docsOf_def bm25_def)
next
  case (2 params info sc t ps rest)
  let ?s = "scorePostings (computeIDF (prTotalDocs params) (int (length ps))) params info sc ps"
  note S = scorePostings_spec [OF 2(2), of "computeIDF (prTotalDocs params) (int (length ps))" params info ps]
  have "scoreTerms params info sc ((t, ps) # rest) = scoreTerms params info ?s rest" by (simp add: Let_def)
  moreover have "docsOf ((t, ps) # rest) = DocID ` set ps \<union> docsOf rest" by (auto simp: docsOf_def)
  moreover have "bm25 params info ((t, ps) # rest) d =
      (\<Sum>p \<leftarrow> filter (\<lambda>p. DocID p = d) ps. weight params info ps p) + bm25 params info rest d"
    by (simp add: bm25_def)
  ultimately show ?case
    using 2(1) [OF refl refl] S by (auto simp: weight_def)
qed

lemma scoreTerms_alt:
  "set (scoreTerms params info [] ppt) = (\<lambda>d. (d, bm25 params info ppt d)) ` docsOf ppt"
  "distinct (map fst (scoreTerms params info [] ppt))"
proof -
  let ?s = "scoreTerms params info [] ppt"
  have S: "distinct (map fst ?s)" "fst ` set ?s = docsOf ppt" "orZero (map_of ?s d) = bm25 params info ppt d" for d
    using scoreTerms_spec [of "[]" params info ppt] by (simp_all add: orZero_def)
  have "snd x = bm25 params info ppt (fst x)" if "x \<in> set ?s" for x
    using S(3) [of "fst x"] map_of_is_SomeI [OF S(1), of "fst x" "snd x"] that by (simp add: orZero_def)
  then have "set ?s = (\<lambda>d. (d, bm25 params info ppt d)) ` fst ` set ?s" by (force simp: image_iff)
  then show "set ?s = (\<lambda>d. (d, bm25 params info ppt d)) ` docsOf ppt" by (simp add: S(2))
  show "distinct (map fst ?s)" by (rule S(1))
qed

lemma Rank_alt:
  "Rank ppt params info limit =
     (let full = rev (sort (map (\<lambda>d. ScoredDoc d (Round (bm25 params info ppt d * 10000) / 10000))
        (sorted_list_of_set (docsOf ppt))))
      in if 0 < limit then take (nat limit) full else full)"
proof -
  let ?sc = "scoreTerms params info [] ppt"
  let ?f = "\<lambda>(d, s). ScoredDoc d (Round (s * 10000) / 10000)"
  let ?g = "\<lambda>d. ScoredDoc d (Round (bm25 params info ppt d * 10000) / 10000)"
  have fin: "finite (docsOf ppt)" by (auto simp: docsOf_def)
  have eq: "map ?f ?sc = map ?g (map fst ?sc)"
    using scoreTerms_alt(1) [of params info ppt] by force
  have ms: "mset (map fst ?sc) = mset (sorted_list_of_set (docsOf ppt))"
  proof -
    have "set (map fst ?sc) = docsOf ppt" using scoreTerms_alt(1) [of params info ppt] by force
    then have "set (map fst ?sc) = set (sorted_list_of_set (docsOf ppt))" using fin by simp
    then show ?thesis
      using scoreTerms_alt(2) [of params info ppt] set_eq_iff_mset_eq_distinct distinct_sorted_list_of_set
      by blast
  qed
  have "mset (map ?f ?sc) = mset (map ?g (sorted_list_of_set (docsOf ppt)))"
    unfolding eq mset_map [of ?g] by (rule arg_cong [OF ms])
  then have "sort (map ?f ?sc) = sort (map ?g (sorted_list_of_set (docsOf ppt)))"
    by (rule sort_mset_eq)
  then have r: "rev (sort (map ?f ?sc)) = rev (sort (map ?g (sorted_list_of_set (docsOf ppt))))" by (rule arg_cong)
  have "(if 0 < n \<and> n < int (length xs) then take (nat n) xs else xs) = (if 0 < n then take (nat n) xs else xs)"
    for n and xs :: "ScoredDoc list" by auto
  then show ?thesis unfolding Rank_def Let_def r .
qed

lemma finite_docsOf [simp]: "finite (docsOf ppt)"
  by (auto simp: docsOf_def)

lemma Rank_set:
  "set (Rank ppt params info 0) =
     (\<lambda>d. ScoredDoc d (Round (bm25 params info ppt d * 10000) / 10000)) ` docsOf ppt"
  by (simp add: Rank_alt)

lemma Rank_sorted: "sorted_wrt (\<ge>) (Rank ppt params info limit)"
proof -
  have "sorted_wrt (\<ge>) (rev (sort xs))" for xs :: "ScoredDoc list"
    by (simp add: sorted_wrt_rev)
  then show ?thesis by (simp add: Rank_alt Let_def sorted_wrt_take)
qed

lemma distinct_Rank: "distinct (map sdDocID (Rank ppt params info limit))"
proof -
  let ?xs = "map (\<lambda>d. ScoredDoc d (Round (bm25 params info ppt d * 10000) / 10000)) (sorted_list_of_set (docsOf ppt))"
  have "map sdDocID ?xs = sorted_list_of_set (docsOf ppt)" by (simp add: comp_def)
  then have "distinct (map sdDocID ?xs)" by (simp only: distinct_sorted_list_of_set)
  then have "distinct (rev (map sdDocID (sort ?xs)))" by (simp only: distinct_map_sort_key distinct_rev)
  then have "distinct (map sdDocID (rev (sort ?xs)))" by (simp only: rev_map)
  then have "distinct (map sdDocID (take n (rev (sort ?xs))))" for n by (simp only: take_map [symmetric] distinct_take)
  with \<open>distinct (map sdDocID (rev (sort ?xs)))\<close> show ?thesis
    unfolding Rank_alt Let_def by (simp only: split: if_splits) simp
qed

lemma Rank_strict: "sorted_wrt (>) (Rank ppt params info limit)"
proof -
  let ?r = "Rank ppt params info limit"
  have "sorted (rev ?r)" using Rank_sorted [of ppt params info limit] by (simp add: sorted_wrt_rev)
  moreover have "distinct (rev ?r)" using distinct_Rank [of ppt params info limit] by (simp add: distinct_map)
  ultimately have "sorted_wrt (<) (rev ?r)" by (simp only: strict_sorted_iff)
  then show ?thesis by (simp add: sorted_wrt_rev)
qed

lemma Rank_perm:
  assumes "mset ppt' = mset ppt"
  shows "Rank ppt' params info limit = Rank ppt params info limit"
proof -
  have "docsOf ppt' = docsOf ppt" unfolding docsOf_def using assms by (metis mset_eq_setD)
  moreover have "bm25 params info ppt' d = bm25 params info ppt d" for d
    unfolding bm25_def using assms by (rule sum_list_mset_eq)
  ultimately show ?thesis by (simp add: Rank_alt)
qed

text \<open>
  The order of the postings within a term does not matter either, and document lengths matter
  for the documents that occur only.
\<close>

lemma bm25_map_cong:
  assumes "\<And>t ps. (t, ps) \<in> set ppt \<Longrightarrow> mset (h t) = mset ps"
    and "\<And>d. d \<in> docsOf ppt \<Longrightarrow> info' d = info d"
  shows "bm25 params info' (map (\<lambda>(t, ps). (t, h t)) ppt) d = bm25 params info ppt d"
proof -
  have "(\<Sum>p \<leftarrow> filter (\<lambda>p. DocID p = d) (h t). weight params info' (h t) p) =
      (\<Sum>p \<leftarrow> filter (\<lambda>p. DocID p = d) ps. weight params info ps p)" if "(t, ps) \<in> set ppt" for t ps
  proof -
    have m: "mset (h t) = mset ps" using assms(1) that by blast
    then have "length (h t) = length ps" by (metis size_mset)
    moreover have "info' (DocID p) = info (DocID p)" if "p \<in> set (h t)" for p
      using that \<open>(t, ps) \<in> set ppt\<close> mset_eq_setD [OF m] by (intro assms(2)) (auto simp: docsOf_def)
    ultimately have "map (weight params info' (h t)) (filter (\<lambda>p. DocID p = d) (h t)) =
        map (weight params info ps) (filter (\<lambda>p. DocID p = d) (h t))"
      by (auto simp: weight_def)
    moreover have "mset (filter (\<lambda>p. DocID p = d) (h t)) = mset (filter (\<lambda>p. DocID p = d) ps)"
      using m by simp
    ultimately show ?thesis by (simp only:) (rule sum_list_mset_eq)
  qed
  then show ?thesis
    unfolding bm25_def by (intro arg_cong [where f = sum_list]) auto
qed

lemma map_of_map_keys: "map_of (map (\<lambda>(t, ps). (t, h t)) ppt) t = map_option (\<lambda>_. h t) (map_of ppt t)"
  by (induction ppt) auto

lemma Rank_cong:
  assumes "distinct (map fst ppt)" and "distinct (map fst ppt')"
    and "dom (map_of ppt') = dom (map_of ppt)"
    and "\<And>t ps ps'. map_of ppt t = Some ps \<Longrightarrow> map_of ppt' t = Some ps' \<Longrightarrow> mset ps' = mset ps"
    and "\<And>d. d \<in> docsOf ppt \<Longrightarrow> info' d = info d"
  shows "Rank ppt' params info' limit = Rank ppt params info limit"
proof -
  let ?h = "\<lambda>t. the (map_of ppt' t)"
  let ?m = "map (\<lambda>(t, ps). (t, ?h t)) ppt"
  have h: "map_of ppt' t = Some (?h t) \<and> mset (?h t) = mset ps" if "(t, ps) \<in> set ppt" for t ps
  proof -
    have "map_of ppt t = Some ps" using that assms(1) by simp
    then obtain ps' where "map_of ppt' t = Some ps'" using assms(3) by blast
    with assms(4) [OF \<open>map_of ppt t = Some ps\<close> this] show ?thesis by simp
  qed
  have fst_m: "map fst ?m = map fst ppt" by auto
  have "map_of ?m t = map_of ppt' t" for t
  proof (cases "map_of ppt t")
    case None
    then have "map_of ppt' t = None" using assms(3) by blast
    with None show ?thesis by (simp add: map_of_map_keys)
  next
    case (Some ps)
    then have "(t, ps) \<in> set ppt" by (rule map_of_SomeD)
    then show ?thesis using h Some by (simp add: map_of_map_keys)
  qed
  then have "mset ppt' = mset ?m"
    using assms(1,2) by (intro mset_map_alist_unique) (simp_all only: fst_m, auto)
  then have "Rank ppt' params info' limit = Rank ?m params info' limit" by (rule Rank_perm)
  moreover have "docsOf ?m = docsOf ppt"
  proof -
    have "docsOf ?m = (\<Union>x \<in> set ppt. DocID ` set (?h (fst x)))" by (simp add: docsOf_def case_prod_beta)
    also have "\<dots> = (\<Union>x \<in> set ppt. DocID ` set (snd x))"
    proof (rule SUP_cong [OF refl])
      fix x assume "x \<in> set ppt"
      then have "mset (?h (fst x)) = mset (snd x)" using h [of "fst x" "snd x"] by simp
      then show "DocID ` set (?h (fst x)) = DocID ` set (snd x)" by (metis mset_eq_setD)
    qed
    finally show ?thesis by (simp add: docsOf_def case_prod_beta)
  qed
  moreover have "bm25 params info' ?m d = bm25 params info ppt d" for d
    by (rule bm25_map_cong) (use h assms(5) in auto)
  ultimately show ?thesis by (simp add: Rank_alt)
qed

lemma sdDocID_Rank: "sdDocID ` set (Rank ppt params info 0) = docsOf ppt"
  by (simp add: Rank_set image_image)

lemma length_Rank:
  "length (Rank ppt params info limit) = (if 0 < limit then min (nat limit) (card (docsOf ppt)) else card (docsOf ppt))"
  by (simp add: Rank_alt Let_def min.commute)

lemma Rank_limit:
  "Rank ppt params info limit =
     (if 0 < limit then take (nat limit) (Rank ppt params info 0) else Rank ppt params info 0)"
  by (simp add: Rank_alt Let_def)

section \<open>Properties\<close>

text \<open>
  C14. Ranking: the result lists the documents that occur in the postings, each once, with its BM25
  score (the sum over all its postings, rounded to four decimals), by decreasing score and, for
  equal scores, increasing document ID; a positive limit keeps the first \<open>limit\<close> of them; and the
  order in which the map of terms is traversed does not matter.
\<close>

theorem Rank_correct:
  "sorted_wrt (\<lambda>x y. Score y < Score x \<or> Score x = Score y \<and> sdDocID x < sdDocID y) (Rank ppt params info limit) \<and>
   set (Rank ppt params info 0) =
     (\<lambda>d. ScoredDoc d (Round ((\<Sum>(t, ps) \<leftarrow> ppt. \<Sum>p \<leftarrow> filter (\<lambda>p. DocID p = d) ps.
        computeIDF (prTotalDocs params) (int (length ps)) *
        computeTFNorm (real_of_int (Frequency p)) (real_of_int (info (DocID p))) (AvgDocLength params)) * 10000) / 10000)) `
     (\<Union>(t, ps) \<in> set ppt. DocID ` set ps) \<and>
   Rank ppt params info limit =
     (if 0 < limit then take (nat limit) (Rank ppt params info 0) else Rank ppt params info 0) \<and>
   (mset ppt' = mset ppt \<longrightarrow> Rank ppt' params info limit = Rank ppt params info limit)"
proof (intro conjI impI)
  show "sorted_wrt (\<lambda>x y. Score y < Score x \<or> Score x = Score y \<and> sdDocID x < sdDocID y) (Rank ppt params info limit)"
    by (rule sorted_wrt_mono_rel [OF _ Rank_strict]) (auto simp: less_ScoredDoc_def split: if_splits)
  show "Rank ppt params info limit =
     (if 0 < limit then take (nat limit) (Rank ppt params info 0) else Rank ppt params info 0)"
    by (rule Rank_limit)
  show "Rank ppt' params info limit = Rank ppt params info limit" if "mset ppt' = mset ppt"
    using that by (rule Rank_perm)
qed (rule Rank_set [of ppt params info, unfolded docsOf_def bm25_def weight_def])

theorem Rank_correct_witness:
  "let p = \<lparr>DocID = ''d1'', Frequency = 1, Positions = [0]\<rparr>; q = \<lparr>DocID = ''d2'', Frequency = 2, Positions = [0, 1]\<rparr>
   in Rank [(''go'', [p]), (''index'', [q])] \<lparr>prTotalDocs = 2, AvgDocLength = 3\<rparr> (\<lambda>_. 3) 5 =
     Rank [(''index'', [q]), (''go'', [p])] \<lparr>prTotalDocs = 2, AvgDocLength = 3\<rparr> (\<lambda>_. 3) 5"
proof -
  let ?p = "\<lparr>DocID = ''d1'', Frequency = 1, Positions = [0]\<rparr>"
    and ?q = "\<lparr>DocID = ''d2'', Frequency = 2, Positions = [0, 1]\<rparr>"
  have "mset [(''go'', [?p]), (''index'', [?q])] = mset [(''index'', [?q]), (''go'', [?p])]" by simp
  then show ?thesis
    using Rank_correct [of "[(''index'', [?q]), (''go'', [?p])]" "\<lparr>prTotalDocs = 2, AvgDocLength = 3\<rparr>" "\<lambda>_. 3" 5
      "[(''go'', [?p]), (''index'', [?q])]"]
    unfolding Let_def by blast
qed

lemma tf_denominator:
  assumes "0 \<le> l" and "0 < avg"
  shows "0 < bm25_k1 * (1 - bm25_b + bm25_b * (l / avg))"
  using assms by (simp add: bm25_k1_def bm25_b_def add_pos_nonneg)

lemma computeTFNorm_pos:
  assumes "0 < f" and "0 \<le> l" and "0 < avg"
  shows "computeTFNorm f l avg = f * (bm25_k1 + 1) / (f + bm25_k1 * (1 - bm25_b + bm25_b * (l / avg)))"
  using assms by (simp add: computeTFNorm_def Let_def)

lemma fraction_mono:
  fixes c :: real
  assumes "0 < f" and "f < g" and "0 < c"
  shows "f * 2.2 / (f + c) < g * 2.2 / (g + c)"
  using assms by (simp add: divide_simps algebra_simps)

lemma fraction_less: "0 < f \<Longrightarrow> 0 < c \<Longrightarrow> f * 2.2 / (f + c) < (2.2 :: real)"
  by (simp add: divide_simps)

lemma computeIDF_alt:
  assumes "0 \<le> n" and "0 \<le> df"
  shows "computeIDF n df = ln ((real_of_int n + 0.5) / (real_of_int df + 0.5))"
  using assms by (simp add: computeIDF_def Let_def field_simps)

text \<open>
  C15. BM25: for a term of a positive frequency in a document of a non-negative length, with a
  positive average length, the term-frequency factor lies strictly between 0 and \<open>k1 + 1 = 2.2\<close>,
  grows with the frequency and falls with the document's length; the inverse document frequency
  is positive when fewer than all documents contain the term, zero when all do, and negative
  when the corpus size is smaller than the posting list.
\<close>

theorem BM25_bounds:
  assumes "0 < f" and "f < g" and "0 \<le> l" and "l < m" and "0 < avg" and "0 \<le> n" and "0 \<le> df"
  shows "0 < computeTFNorm f l avg \<and> computeTFNorm f l avg < 2.2 \<and>
    computeTFNorm f l avg < computeTFNorm g l avg \<and> computeTFNorm f m avg < computeTFNorm f l avg \<and>
    (0 < computeIDF n df \<longleftrightarrow> df < n) \<and> (computeIDF n df = 0 \<longleftrightarrow> df = n)"
proof (intro conjI)
  let ?c = "\<lambda>x. bm25_k1 * (1 - bm25_b + bm25_b * (x / avg))"
  have c: "0 < ?c l" "0 < ?c m" using tf_denominator assms by auto
  have k: "bm25_k1 + 1 = 2.2" by (simp add: bm25_k1_def)
  have t: "computeTFNorm x y avg = x * 2.2 / (x + ?c y)" if "0 < x" "0 \<le> y" for x y
    using computeTFNorm_pos [OF that assms(5)] by (simp only: k)
  have cl: "?c l < ?c m" using assms by (simp add: bm25_k1_def bm25_b_def divide_strict_right_mono)
  show "0 < computeTFNorm f l avg" using assms c by (simp add: t)
  show "computeTFNorm f l avg < 2.2" using assms fraction_less [OF assms(1) c(1)] by (simp only: t)
  show "computeTFNorm f l avg < computeTFNorm g l avg"
    using assms fraction_mono [OF assms(1,2) c(1)] by (simp only: t)
  show "computeTFNorm f m avg < computeTFNorm f l avg"
    using assms c cl by (simp only: t) (auto intro!: divide_strict_left_mono)
  show "0 < computeIDF n df \<longleftrightarrow> df < n" "computeIDF n df = 0 \<longleftrightarrow> df = n"
    using assms by (auto simp: computeIDF_alt ln_eq_zero_iff field_simps)
qed

theorem BM25_bounds_witness:
  "0 < computeTFNorm 1 10 20 \<and> computeTFNorm 1 10 20 < computeTFNorm 2 10 20 \<and> 0 < computeIDF 5 2"
  using BM25_bounds [of 1 2 10 11 20 5 2] by simp

text \<open>
  Without corpus statistics (an average length of 0, as after a restart) ranking degrades to
  the order of document IDs: every score is 0.
\<close>

theorem Rank_no_statistics:
  assumes "AvgDocLength params = 0"
  shows "Rank ppt params info 0 = map (\<lambda>d. ScoredDoc d 0) (sorted_list_of_set (docsOf ppt))"
proof -
  have tf: "computeTFNorm f l (AvgDocLength params) = 0" for f l using assms by (simp add: computeTFNorm_def)
  have "bm25 params info ppt d = 0" for d
    by (induction ppt) (auto simp: bm25_def weight_def tf)
  then have "Rank ppt params info 0 = rev (sort (map (\<lambda>d. ScoredDoc d 0) (sorted_list_of_set (docsOf ppt))))"
    by (simp add: Rank_alt Round_def)
  also have "sort (map (\<lambda>d. ScoredDoc d 0) (sorted_list_of_set (docsOf ppt))) =
      rev (map (\<lambda>d. ScoredDoc d 0) (sorted_list_of_set (docsOf ppt)))"
  proof (rule properties_for_sort)
    show "sorted (rev (map (\<lambda>d. ScoredDoc d 0) (sorted_list_of_set (docsOf ppt))))"
      by (simp add: sorted_wrt_rev sorted_wrt_map)
        (rule sorted_wrt_mono_rel [OF _ strict_sorted_list_of_set],
         simp add: less_eq_ScoredDoc_def less_ScoredDoc_def)
  qed simp
  finally show ?thesis by simp
qed

theorem Rank_no_statistics_witness:
  "Rank [(''go'', [\<lparr>DocID = ''d2'', Frequency = 9, Positions = []\<rparr>, \<lparr>DocID = ''d1'', Frequency = 1, Positions = []\<rparr>])]
     \<lparr>prTotalDocs = 0, AvgDocLength = 0\<rparr> (\<lambda>_. 0) 0 = [ScoredDoc ''d1'' 0, ScoredDoc ''d2'' 0]"
proof -
  have "docsOf [(''go'', [\<lparr>DocID = ''d2'', Frequency = 9, Positions = []\<rparr>, \<lparr>DocID = ''d1'', Frequency = 1, Positions = []\<rparr>])] =
      {''d1'', ''d2''}" by (auto simp: docsOf_def)
  moreover have "sorted_list_of_set {''d1'', ''d2''} = [''d1'', ''d2'']" by (simp add: less_char_nat)
  ultimately show ?thesis by (subst Rank_no_statistics) simp_all
qed

end
