(* ===== verification/Heap_Merger.thy ===== *)
theory Heap_Merger
  imports Ranker
begin

text \<open>
  \<open>internal/searcher/merger/merger.go\<close>: the top-K merge of shard results over a binary min-heap in a
  slice. The heap operations are those of Go's \<open>container/heap\<close>; \<open>Less\<close> is the order of \<open>ScoredDoc\<close>.
  What the merge needs of the heap is the locale \<open>priority_queue\<close>; the slice heap is its instance.
\<close>

section \<open>The slice heap\<close>

definition Swap :: "nat \<Rightarrow> nat \<Rightarrow> 'a list \<Rightarrow> 'a list" where
  "Swap i j h = h[i := h ! j, j := h ! i]"

function heapUp :: "nat \<Rightarrow> ('a :: linorder) list \<Rightarrow> 'a list" where
  "heapUp j h =
     (let i = (j - 1) div 2
      in if i = j \<or> \<not> h ! j < h ! i then h else heapUp i (Swap i j h))"
  by pat_completeness auto
termination
  by (relation "measure fst") auto

function heapDown :: "nat \<Rightarrow> nat \<Rightarrow> ('a :: linorder) list \<Rightarrow> 'a list" where
  "heapDown i n h =
     (let j1 = 2 * i + 1
      in if n \<le> j1 then h
         else
           (let j2 = j1 + 1;
                j = (if j2 < n \<and> h ! j2 < h ! j1 then j2 else j1)
            in if \<not> h ! j < h ! i then h else heapDown j n (Swap i j h)))"
  by pat_completeness auto
termination
  by (relation "measure (\<lambda>(i, n, h). n - i)") (auto simp: Let_def split: if_splits)

declare heapUp.simps [simp del] heapDown.simps [simp del]

fun initLoop :: "nat \<Rightarrow> ('a :: linorder) list \<Rightarrow> 'a list" where
  "initLoop 0 h = h"
| "initLoop (Suc i) h = initLoop i (heapDown i (length h) h)"

definition heapInit :: "('a :: linorder) list \<Rightarrow> 'a list" where
  "heapInit h = initLoop (length h div 2) h"

definition heapPush :: "'a :: linorder \<Rightarrow> 'a list \<Rightarrow> 'a list" where
  "heapPush x h = heapUp (length h) (h @ [x])"

text \<open>\<open>heap.Pop\<close>; on an empty heap Go's slice expression panics.\<close>

definition heapPop :: "('a :: linorder) list \<Rightarrow> ('a \<times> 'a list) option" where
  "heapPop h =
     (if h = [] then None
      else
        (let n = length h - 1;
             old = heapDown 0 n (Swap 0 n h)
         in Some (old ! n, take n old)))"

section \<open>The merge\<close>

fun pushLoop :: "nat \<Rightarrow> ('a :: linorder) list \<Rightarrow> 'a list \<Rightarrow> 'a list option" where
  "pushLoop limit h [] = Some h"
| "pushLoop limit h (doc # results) =
     (let h' = heapPush doc h
      in if limit < length h' then
           (case heapPop h' of
              None \<Rightarrow> None
            | Some (_, h'') \<Rightarrow> pushLoop limit h'' results)
         else pushLoop limit h' results)"

fun shardLoop :: "nat \<Rightarrow> ('a :: linorder) list \<Rightarrow> 'a list list \<Rightarrow> 'a list option" where
  "shardLoop limit h [] = Some h"
| "shardLoop limit h (results # rest) =
     Option.bind (pushLoop limit h results) (\<lambda>h'. shardLoop limit h' rest)"

text \<open>The last loop fills the result from its end; \<open>i\<close> counts the cells still to fill.\<close>

fun drainLoop :: "nat \<Rightarrow> ('a :: linorder) list \<Rightarrow> 'a list \<Rightarrow> 'a list option" where
  "drainLoop 0 h result = Some result"
| "drainLoop (Suc i) h result =
     (case heapPop h of
        None \<Rightarrow> None
      | Some (x, h') \<Rightarrow> drainLoop i h' (x # result))"

definition Merge :: "ScoredDoc list list \<Rightarrow> int \<Rightarrow> ScoredDoc list option" where
  "Merge shardResults limit =
     (let limit' = (if limit \<le> 0 then 10 else limit)
      in Option.bind (shardLoop (nat limit') (heapInit []) shardResults)
           (\<lambda>h. drainLoop (length h) h []))"

section \<open>Priority queues\<close>

text \<open>The \<open>k\<close> greatest elements of a multiset.\<close>

definition topk :: "nat \<Rightarrow> ('a :: linorder) multiset \<Rightarrow> 'a multiset" where
  "topk k M = mset (take k (rev (sorted_list_of_multiset M)))"

lemma insort_append_left: "B = [] \<or> x \<le> hd B \<Longrightarrow> insort x (A @ B) = insort x A @ B"
  by (induction A) (cases B; auto)+

lemma insort_append_right: "\<forall>a \<in> set A. a < x \<Longrightarrow> insort x (A @ B) = A @ insort x B"
  by (induction A) auto

lemma topk_drop:
  "topk k M = mset (drop (size M - k) (sorted_list_of_multiset M))"
proof -
  have "length (sorted_list_of_multiset M) = size M" by (metis mset_sorted_list_of_multiset size_mset)
  then show ?thesis by (simp add: topk_def take_rev)
qed

lemma topk_add:
  assumes "0 < k"
  shows "topk k (add_mset x M) =
    (let N = add_mset x (topk k M) in if k < size N then N - {#Min_mset N#} else N)"
proof -
  let ?L = "sorted_list_of_multiset M"
  define A where "A = take (size M - k) ?L"
  define B where "B = drop (size M - k) ?L"
  have L: "?L = A @ B" by (simp add: A_def B_def)
  have len: "length ?L = size M" by (metis mset_sorted_list_of_multiset size_mset)
  have lA: "length A = size M - k" and lB: "length B = min k (size M)" by (auto simp: A_def B_def len)
  have srt: "sorted (A @ B)" using L by (metis sorted_sorted_list_of_multiset)
  have new: "topk k (add_mset x M) = mset (drop (Suc (size M) - k) (insort x (A @ B)))"
    by (simp add: topk_drop L [symmetric])
  have old: "topk k M = mset B" by (simp add: topk_drop B_def)
  show ?thesis
  proof (cases "size M < k")
    case True
    then have "A = []" "length B = size M" using lA lB by auto
    with True show ?thesis by (simp add: new old Let_def)
  next
    case False
    then have lB': "length B = k" using lB by simp
    with assms have B: "B = hd B # tl B" by (cases B) auto
    have least: "\<forall>y \<in> set B. hd B \<le> y" using srt B by (metis list.set_intros(1) set_ConsD sorted_append sorted_simps(2) order_refl)
    have d: "Suc (size M) - k = Suc (length A)" using lA False by simp
    show ?thesis
    proof (cases "x \<le> hd B")
      case True
      have "insort x (A @ B) = insort x A @ B" using True by (intro insort_append_left) simp
      then have "topk k (add_mset x M) = mset B" by (simp add: new d)
      moreover have "Min_mset (add_mset x (mset B)) = x"
        using least True by (intro Min_eqI) auto
      ultimately show ?thesis using lB' by (simp add: old Let_def)
    next
      case False
      have "\<forall>a \<in> set A. a < x"
      proof
        fix a assume "a \<in> set A"
        then have "a \<le> hd B" using srt B by (metis list.set_intros(1) sorted_append)
        with False show "a < x" by simp
      qed
      then have "insort x (A @ B) = A @ insort x B" by (rule insort_append_right)
      moreover have "insort x B = hd B # insort x (tl B)" using False B by (metis insort_key.simps(2))
      ultimately have "topk k (add_mset x M) = add_mset x (mset (tl B))" by (simp add: new d)
      moreover have "Min_mset (add_mset x (mset B)) = hd B"
        using least False B by (intro Min_eqI) (auto, metis list.set_intros(1))
      moreover have "mset B = add_mset (hd B) (mset (tl B))" using B by (metis mset.simps(2))
      ultimately show ?thesis using lB' by (simp add: old Let_def)
    qed
  qed
qed

locale priority_queue =
  fixes empty :: "'q"
    and push :: "'a :: linorder \<Rightarrow> 'q \<Rightarrow> 'q"
    and pop :: "'q \<Rightarrow> ('a \<times> 'q) option"
    and invar :: "'q \<Rightarrow> bool"
    and elems :: "'q \<Rightarrow> 'a multiset"
  assumes invar_empty: "invar empty" and elems_empty: "elems empty = {#}"
    and invar_push: "invar q \<Longrightarrow> invar (push x q)"
    and elems_push: "invar q \<Longrightarrow> elems (push x q) = add_mset x (elems q)"
    and pop_min: "invar q \<Longrightarrow> elems q \<noteq> {#} \<Longrightarrow>
      \<exists>q'. pop q = Some (Min_mset (elems q), q') \<and> invar q' \<and> elems q' = elems q - {#Min_mset (elems q)#}"
begin

text \<open>Pushing and, when the queue is over its limit, popping keeps the \<open>k\<close> greatest elements.\<close>

lemma push_bounded:
  assumes "invar q" and "elems q = topk k M" and "0 < k"
  shows "if k < size (elems (push x q))
    then \<exists>y q'. pop (push x q) = Some (y, q') \<and> invar q' \<and> elems q' = topk k (add_mset x M)
    else invar (push x q) \<and> elems (push x q) = topk k (add_mset x M)"
proof -
  let ?N = "elems (push x q)"
  have N: "?N = add_mset x (topk k M)" using elems_push [OF assms(1)] assms(2) by simp
  have t: "topk k (add_mset x M) = (if k < size ?N then ?N - {#Min_mset ?N#} else ?N)"
    using topk_add [OF assms(3), of x M] by (simp add: N Let_def)
  show ?thesis
    using t pop_min [OF invar_push [OF assms(1)], of x] invar_push [OF assms(1), of x] by (auto simp: N)
qed

text \<open>Popping yields the least element of what is left, so draining is a sort.\<close>

lemma pop_sorted:
  assumes "invar q" and "elems q \<noteq> {#}"
  obtains q' where "pop q = Some (hd (sorted_list_of_multiset (elems q)), q')" "invar q'"
    "sorted_list_of_multiset (elems q') = tl (sorted_list_of_multiset (elems q))"
    "size (elems q) = Suc (size (elems q'))"
proof -
  let ?m = "Min_mset (elems q)"
  obtain q' where q': "pop q = Some (?m, q')" "invar q'" "elems q' = elems q - {#?m#}"
    using pop_min [OF assms] by blast
  have mem: "?m \<in># elems q" using assms(2) by simp
  then have e: "elems q = add_mset ?m (elems q')" using q'(3) by simp
  have "sorted_list_of_multiset (elems q) = insort ?m (sorted_list_of_multiset (elems q'))"
    by (subst e) simp
  moreover have "insort ?m (sorted_list_of_multiset (elems q')) = ?m # sorted_list_of_multiset (elems q')"
  proof (rule insort_is_Cons)
    show "\<forall>y \<in> set (sorted_list_of_multiset (elems q')). ?m \<le> y"
      using q'(3) by (auto dest: in_diffD)
  qed
  ultimately show ?thesis
    using q' e that by (metis list.sel(1,3) size_add_mset)
qed

end

section \<open>The slice heap is a priority queue\<close>

abbreviation parent :: "nat \<Rightarrow> nat" where
  "parent i \<equiv> (i - 1) div 2"

definition heapAt :: "nat \<Rightarrow> ('a :: linorder) list \<Rightarrow> nat \<Rightarrow> bool" where
  "heapAt n h i \<longleftrightarrow> (0 < i \<and> i < n \<longrightarrow> h ! parent i \<le> h ! i)"

definition is_heap :: "('a :: linorder) list \<Rightarrow> bool" where
  "is_heap h \<longleftrightarrow> (\<forall>i. heapAt (length h) h i)"

lemma length_Swap [simp]: "length (Swap i j h) = length h"
  by (simp add: Swap_def)

lemma nth_Swap:
  "i < length h \<Longrightarrow> j < length h \<Longrightarrow>
   Swap i j h ! k = (if k = j then h ! i else if k = i then h ! j else h ! k)"
  by (simp add: Swap_def nth_list_update)

lemma mset_Swap: "i < length h \<Longrightarrow> j < length h \<Longrightarrow> mset (Swap i j h) = mset h"
  unfolding Swap_def by (rule mset_swap)

lemma parent_less: "0 < i \<Longrightarrow> parent i < i"
  by auto

text \<open>\<open>up\<close> repairs a heap whose only violation is at \<open>j\<close> against its parent.\<close>

lemma heapUp_spec:
  "j < length h \<Longrightarrow> (\<And>i. i \<noteq> j \<Longrightarrow> heapAt (length h) h i) \<Longrightarrow>
   (\<And>i. 0 < i \<Longrightarrow> i < length h \<Longrightarrow> parent i = j \<Longrightarrow> 0 < j \<Longrightarrow> h ! parent j \<le> h ! i) \<Longrightarrow>
   is_heap (heapUp j h) \<and> mset (heapUp j h) = mset h"
proof (induction j h rule: heapUp.induct)
  case (1 j h)
  show ?case
  proof (cases "parent j = j \<or> \<not> h ! j < h ! parent j")
    case True
    then have "heapUp j h = h" by (simp add: heapUp.simps [of j h] Let_def)
    moreover have "heapAt (length h) h j" using True parent_less [of j] by (auto simp: heapAt_def)
    then have "heapAt (length h) h i" for i using 1(3) [of i] by (cases "i = j") auto
    ultimately show ?thesis by (simp add: is_heap_def)
  next
    case False
    then have j: "0 < j" and lt: "h ! j < h ! parent j" by auto
    let ?p = "parent j" and ?h = "Swap (parent j) j h"
    have p: "?p < j" "?p < length h" using parent_less [OF j] 1(2) by auto
    note nth = nth_Swap [OF p(2) 1(2), unfolded One_nat_def]
    have old: "h ! parent i \<le> h ! i" if "i \<noteq> j" "0 < i" "i < length h" for i
      using 1(3) [OF that(1)] that by (simp add: heapAt_def)
    have "is_heap (heapUp ?p ?h) \<and> mset (heapUp ?p ?h) = mset ?h"
    proof (rule 1(1) [OF refl])
      show "heapAt (length ?h) ?h i" if "i \<noteq> ?p" for i
        unfolding heapAt_def length_Swap
      proof
        assume i: "0 < i \<and> i < length h"
        show "?h ! parent i \<le> ?h ! i"
        proof (cases "i = j")
          case True
          then show ?thesis using lt p(1) by (simp add: nth)
        next
          case False
          consider "parent i = ?p" | "parent i = j" | "parent i \<noteq> ?p" "parent i \<noteq> j" by blast
          then show ?thesis
            using old [OF False] 1(4) [of i] lt p(1) i j False that by cases (auto simp: nth)
        qed
      qed
      show "?h ! parent ?p \<le> ?h ! i" if "0 < i" "i < length ?h" "parent i = ?p" "0 < ?p" for i
      proof -
        have up: "h ! parent ?p \<le> h ! ?p" using old [of ?p] p that by simp
        have "parent ?p \<noteq> ?p" "parent ?p \<noteq> j" using parent_less [OF that(4)] p(1) by auto
        moreover have "i \<noteq> ?p" using parent_less [OF that(1)] that(3) by auto
        moreover have "h ! ?p \<le> h ! i" if "i \<noteq> j" using old [OF that] \<open>0 < i\<close> \<open>i < length ?h\<close> \<open>parent i = ?p\<close> by simp
        ultimately show ?thesis using up by (cases "i = j") (auto simp: nth)
      qed
    qed (use False p in auto)
    moreover have "heapUp j h = heapUp ?p ?h" using False by (simp add: heapUp.simps [of j h] Let_def)
    ultimately show ?thesis using mset_Swap [OF p(2) 1(2)] by simp
  qed
qed

lemma children: "0 < k \<Longrightarrow> parent k = i \<longleftrightarrow> k = 2 * i + 1 \<or> k = 2 * i + 2"
  by arith

text \<open>\<open>down\<close> repairs the first \<open>n\<close> cells when the only violations are at the children of \<open>i\<close>.\<close>

lemma heapDown_spec:
  "n \<le> length h \<Longrightarrow> (\<And>k. 0 < k \<Longrightarrow> parent k \<noteq> i \<Longrightarrow> heapAt n h k) \<Longrightarrow>
   (\<And>k. 0 < k \<Longrightarrow> k < n \<Longrightarrow> parent k = i \<Longrightarrow> 0 < i \<Longrightarrow> h ! parent i \<le> h ! k) \<Longrightarrow>
   (\<forall>k. heapAt n (heapDown i n h) k) \<and> mset (heapDown i n h) = mset h \<and>
   (\<forall>k \<ge> n. heapDown i n h ! k = h ! k)"
proof (induction i n h rule: heapDown.induct)
  case (1 i n h)
  define j where "j = (if 2 * i + 2 < n \<and> h ! (2 * i + 2) < h ! (2 * i + 1) then 2 * i + 2 else 2 * i + 1)"
  have unf: "heapDown i n h =
      (if n \<le> 2 * i + 1 then h else if \<not> h ! j < h ! i then h else heapDown j n (Swap i j h))"
    by (simp add: heapDown.simps [of i n h] Let_def j_def)
  note above = 1(4)
  have jmin: "h ! j \<le> h ! k" if "0 < k" "k < n" "parent k = i" for k
    using that children [OF that(1), of i] by (auto simp: j_def)
  show ?case
  proof (cases "n \<le> 2 * i + 1 \<or> \<not> h ! j < h ! i")
    case True
    then have "heapDown i n h = h" unfolding unf by auto
    moreover have "heapAt n h k" for k
    proof (cases "0 < k \<and> k < n \<and> parent k = i")
      case c: True
      then have "\<not> n \<le> 2 * i + 1" using children [of k i] by auto
      with True have "h ! i \<le> h ! j" by simp
      with jmin [of k] c show ?thesis by (auto simp: heapAt_def)
    next
      case False
      then show ?thesis using 1(3) [of k] by (auto simp: heapAt_def)
    qed
    ultimately show ?thesis by simp
  next
    case False
    then have lt: "h ! j < h ! i" and n: "2 * i + 1 < n" by auto
    have j: "j < n" "i < j" "parent j = i" "0 < j" using n by (auto simp: j_def)
    have len: "i < length h" "j < length h" using j 1(2) by auto
    let ?h = "Swap i j h"
    note nth = nth_Swap [OF len]
    have old: "h ! parent k \<le> h ! k" if "0 < k" "parent k \<noteq> i" "k < n" for k
      using 1(3) [OF that(1,2)] that by (simp add: heapAt_def)
    have "(\<forall>k. heapAt n (heapDown j n ?h) k) \<and> mset (heapDown j n ?h) = mset ?h \<and>
      (\<forall>k \<ge> n. heapDown j n ?h ! k = ?h ! k)"
    proof (rule 1(1) [OF refl _ refl, folded j_def])
      show "heapAt n ?h k" if "0 < k" "parent k \<noteq> j" for k
        unfolding heapAt_def
      proof
        assume k: "0 < k \<and> k < n"
        consider "k = i" | "k = j" | "k \<noteq> i" "k \<noteq> j" "parent k = i" | "k \<noteq> i" "k \<noteq> j" "parent k \<noteq> i" by blast
        then show "?h ! parent k \<le> ?h ! k"
        proof cases
          case 1
          then show ?thesis using above [of j] j k parent_less [of i] by (auto simp: nth)
        next
          case 2
          then show ?thesis using lt j by (simp add: nth)
        next
          case 3
          then show ?thesis using jmin [of k] k by (simp add: nth)
        next
          case 4
          then show ?thesis using old [of k] k that by (simp add: nth)
        qed
      qed
      show "?h ! parent j \<le> ?h ! k" if "0 < k" "k < n" "parent k = j" "0 < j" for k
        using old [of k] that j parent_less [OF that(1)] by (simp add: nth)
    qed (use n lt 1(2) in \<open>auto simp: j_def\<close>)
    moreover have "heapDown i n h = heapDown j n ?h" using False unfolding unf by auto
    moreover have "?h ! k = h ! k" if "n \<le> k" for k using that j by (simp add: nth)
    ultimately show ?thesis using mset_Swap [OF len] by simp
  qed
qed

lemma is_heap_root:
  assumes "is_heap h" and "i < length h"
  shows "h ! 0 \<le> h ! i"
  using assms(2)
proof (induction i rule: less_induct)
  case (less i)
  show ?case
  proof (cases "i = 0")
    case False
    then have p: "parent i < i" using parent_less by simp
    with less have "h ! 0 \<le> h ! parent i" by simp
    also have "\<dots> \<le> h ! i" using assms(1) False less.prems by (auto simp: is_heap_def heapAt_def)
    finally show ?thesis .
  qed simp
qed

lemma is_heap_Min:
  assumes "is_heap h" and "h \<noteq> []"
  shows "h ! 0 = Min_mset (mset h)"
  using assms is_heap_root [OF assms(1)]
  by (intro Min_eqI [symmetric]) (auto simp: in_set_conv_nth)

lemma heapPush_spec:
  assumes "is_heap h"
  shows "is_heap (heapPush x h) \<and> mset (heapPush x h) = add_mset x (mset h)"
proof -
  have old: "heapAt (length (h @ [x])) (h @ [x]) i" if "i \<noteq> length h" for i
    using assms that parent_less [of i] by (auto simp: is_heap_def heapAt_def nth_append)
  have "is_heap (heapUp (length h) (h @ [x])) \<and> mset (heapUp (length h) (h @ [x])) = mset (h @ [x])"
    by (rule heapUp_spec) (use old parent_less in auto)
  then show ?thesis by (simp add: heapPush_def)
qed

lemma heapPop_spec:
  assumes "is_heap h" and "h \<noteq> []"
  shows "\<exists>h'. heapPop h = Some (Min_mset (mset h), h') \<and> is_heap h' \<and> mset h' = mset h - {#Min_mset (mset h)#}"
proof -
  let ?n = "length h - 1" and ?s = "Swap 0 (length h - 1) h"
  let ?d = "heapDown 0 ?n ?s"
  have len: "0 < length h" "?n < length h" using assms(2) by auto
  note nth = nth_Swap [OF len, unfolded One_nat_def]
  have "heapAt ?n ?s k" if "0 < k" "parent k \<noteq> 0" for k
    using assms(1) that parent_less [of k] by (auto simp: heapAt_def is_heap_def nth)
  then have D: "\<forall>k. heapAt ?n ?d k" "mset ?d = mset ?s" "\<forall>k \<ge> ?n. ?d ! k = ?s ! k"
    using heapDown_spec [of ?n ?s 0] by auto
  have ld: "length ?d = length h" using arg_cong [OF D(2), of size] by simp
  have last: "?d ! ?n = Min_mset (mset h)" using D(3) is_heap_Min [OF assms] by (simp add: nth)
  have "is_heap (take ?n ?d)"
    using D(1) parent_less by (auto simp: is_heap_def heapAt_def ld)
  moreover have "?d = take ?n ?d @ [?d ! ?n]"
    using ld len by (metis Suc_pred' lessI take_Suc_conv_app_nth take_all order_refl)
  then have "mset ?d = add_mset (Min_mset (mset h)) (mset (take ?n ?d))"
    by (metis last mset_append mset_single_iff_right union_mset_add_mset_right add.right_neutral mset.simps)
  then have "mset (take ?n ?d) = mset h - {#Min_mset (mset h)#}"
    using D(2) mset_Swap [OF len] by (metis add_mset_remove_trivial)
  ultimately show ?thesis
    using assms(2) by (intro exI [of _ "take ?n ?d"]) (use last in \<open>simp add: heapPop_def Let_def\<close>)
qed

interpretation pq: priority_queue "[]" heapPush heapPop is_heap mset
proof
  show "is_heap []" by (simp add: is_heap_def heapAt_def)
qed (use heapPush_spec heapPop_spec in auto)

section \<open>The merge loops\<close>

lemma pushLoop_spec:
  assumes "0 < k"
  shows "is_heap h \<Longrightarrow> mset h = topk k M \<Longrightarrow>
    \<exists>h'. pushLoop k h xs = Some h' \<and> is_heap h' \<and> mset h' = topk k (mset xs + M)"
proof (induction xs arbitrary: h M)
  case (Cons x xs)
  have sz: "size (mset (heapPush x h)) = length (heapPush x h)" by simp
  from pq.push_bounded [OF Cons.prems assms, of x] consider
    y h1 where "k < length (heapPush x h)" "heapPop (heapPush x h) = Some (y, h1)" "is_heap h1"
      "mset h1 = topk k (add_mset x M)"
  | "\<not> k < length (heapPush x h)" "is_heap (heapPush x h)" "mset (heapPush x h) = topk k (add_mset x M)"
    unfolding sz by (cases "k < length (heapPush x h)") auto
  then show ?case using Cons.IH [of _ "add_mset x M"] by cases (auto simp: Let_def)
qed simp

lemma shardLoop_spec:
  assumes "0 < k"
  shows "is_heap h \<Longrightarrow> mset h = topk k M \<Longrightarrow>
    \<exists>h'. shardLoop k h xss = Some h' \<and> is_heap h' \<and> mset h' = topk k (mset (concat xss) + M)"
proof (induction xss arbitrary: h M)
  case (Cons xs xss)
  obtain h1 where h1: "pushLoop k h xs = Some h1" "is_heap h1" "mset h1 = topk k (mset xs + M)"
    using pushLoop_spec [OF assms Cons.prems] by blast
  from Cons.IH [OF h1(2,3)] h1(1) show ?case by (simp add: ac_simps)
qed simp

lemma drainLoop_spec:
  "is_heap h \<Longrightarrow> drainLoop (length h) h acc = Some (rev (sorted_list_of_multiset (mset h)) @ acc)"
proof (induction "length h" arbitrary: h acc)
  case (Suc n)
  then have ne: "mset h \<noteq> {#}" by auto
  obtain h' where h': "heapPop h = Some (hd (sorted_list_of_multiset (mset h)), h')" "is_heap h'"
    "sorted_list_of_multiset (mset h') = tl (sorted_list_of_multiset (mset h))" "size (mset h) = Suc (size (mset h'))"
    by (rule pq.pop_sorted [OF Suc.prems ne])
  have "sorted_list_of_multiset (mset h) \<noteq> []" using ne by (metis mset.simps(1) mset_sorted_list_of_multiset)
  then have "rev (sorted_list_of_multiset (mset h)) = rev (tl (sorted_list_of_multiset (mset h))) @ [hd (sorted_list_of_multiset (mset h))]"
    by (metis list.collapse rev.simps(2))
  moreover have "length h = Suc (length h')" using h'(4) by simp
  ultimately show ?case
    using Suc.hyps(1) [of h'] Suc.hyps(2) h' by simp
qed simp

section \<open>Properties\<close>

text \<open>
  C17. The heap merge is a sort: for any shard results and any limit, the merge returns (it never
  pops an empty heap) the \<open>limit\<close> best documents of all shards (10 for a limit that is not
  positive), by decreasing score and, for equal scores, increasing document ID.
\<close>

theorem Merge_correct:
  "Merge rss limit = Some (take (if limit \<le> 0 then 10 else nat limit) (rev (sort (concat rss))))"
proof -
  define k where "k = nat (if limit \<le> 0 then 10 else limit)"
  have k: "0 < k" by (simp add: k_def)
  have "is_heap (heapInit ([] :: ScoredDoc list))" "mset (heapInit ([] :: ScoredDoc list)) = topk k {#}"
    by (simp_all add: heapInit_def pq.invar_empty topk_def)
  from shardLoop_spec [OF k this, of rss] obtain h where
    h: "shardLoop k (heapInit []) rss = Some h" "is_heap h" "mset h = topk k (mset (concat rss))" by auto
  have "sort (take k (rev (sort (concat rss)))) = rev (take k (rev (sort (concat rss))))"
    by (rule properties_for_sort) (simp_all add: take_rev)
  then have "sorted_list_of_multiset (mset h) = rev (take k (rev (sort (concat rss))))"
    by (simp add: h(3) topk_def)
  with drainLoop_spec [OF h(2), of "[]"] h(1) show ?thesis
    by (simp add: Merge_def k_def Let_def)
qed

end
