(* ===== verification/Circuit_Breaker.thy ===== *)
theory Circuit_Breaker
  imports Prelude
begin

text \<open>
  \<open>pkg/resilience/circuitbreaker.go\<close>. Times are nanoseconds and arguments of the operations. The
  mutex makes \<open>beforeRequest\<close> and \<open>afterRequest\<close> atomic, but requests overlap between them: the step
  relation \<open>cb_step\<close> interleaves the two halves of any number of requests.
\<close>

datatype cb_state = StateClosed | StateOpen | StateHalfOpen

definition stateString :: "cb_state \<Rightarrow> string" where
  "stateString s = (case s of StateClosed \<Rightarrow> ''closed'' | StateOpen \<Rightarrow> ''open'' | StateHalfOpen \<Rightarrow> ''half-open'')"

record CircuitBreakerConfig =
  FailureThreshold :: int
  ResetTimeout :: int
  HalfOpenMaxRequests :: int

definition defaultCBConfig :: CircuitBreakerConfig where
  "defaultCBConfig = \<lparr>FailureThreshold = 5, ResetTimeout = 30 * 1000000000, HalfOpenMaxRequests = 1\<rparr>"

record CircuitBreaker =
  cbName :: string
  cbCfg :: CircuitBreakerConfig
  cbState :: cb_state
  consecutiveFailures :: int
  lastFailureTime :: int
  halfOpenRequests :: int

datatype cb_error = CircuitOpenRetryAfter string int | CircuitOpenProbeLimit string

definition NewCircuitBreaker :: "string \<Rightarrow> CircuitBreakerConfig \<Rightarrow> CircuitBreaker" where
  "NewCircuitBreaker name cfg =
     (let defaults = defaultCBConfig;
          cfg1 = (if FailureThreshold cfg \<le> 0 then cfg\<lparr>FailureThreshold := FailureThreshold defaults\<rparr> else cfg);
          cfg2 = (if ResetTimeout cfg1 \<le> 0 then cfg1\<lparr>ResetTimeout := ResetTimeout defaults\<rparr> else cfg1);
          cfg3 = (if HalfOpenMaxRequests cfg2 \<le> 0 then cfg2\<lparr>HalfOpenMaxRequests := HalfOpenMaxRequests defaults\<rparr> else cfg2)
      in \<lparr>cbName = name, cbCfg = cfg3, cbState = StateClosed, consecutiveFailures = 0,
          lastFailureTime = 0, halfOpenRequests = 0\<rparr>)"

definition GetState :: "CircuitBreaker \<Rightarrow> cb_state" where
  "GetState cb = cbState cb"

definition beforeRequest :: "int \<Rightarrow> CircuitBreaker \<Rightarrow> cb_error option \<times> CircuitBreaker" where
  "beforeRequest now cb =
     (case cbState cb of
        StateClosed \<Rightarrow> (None, cb)
      | StateOpen \<Rightarrow>
          (if ResetTimeout (cbCfg cb) \<le> now - lastFailureTime cb
           then (None, cb\<lparr>cbState := StateHalfOpen, halfOpenRequests := 0\<rparr>)
           else (Some (CircuitOpenRetryAfter (cbName cb) (ResetTimeout (cbCfg cb) - (now - lastFailureTime cb))), cb))
      | StateHalfOpen \<Rightarrow>
          (if HalfOpenMaxRequests (cbCfg cb) \<le> halfOpenRequests cb
           then (Some (CircuitOpenProbeLimit (cbName cb)), cb)
           else (None, cb\<lparr>halfOpenRequests := halfOpenRequests cb + 1\<rparr>)))"

definition onSuccess :: "CircuitBreaker \<Rightarrow> CircuitBreaker" where
  "onSuccess cb =
     (case cbState cb of
        StateClosed \<Rightarrow> cb\<lparr>consecutiveFailures := 0\<rparr>
      | StateOpen \<Rightarrow> cb
      | StateHalfOpen \<Rightarrow> cb\<lparr>cbState := StateClosed, consecutiveFailures := 0, halfOpenRequests := 0\<rparr>)"

definition onFailure :: "int \<Rightarrow> CircuitBreaker \<Rightarrow> CircuitBreaker" where
  "onFailure now cb =
     (let cb1 = cb\<lparr>lastFailureTime := now, consecutiveFailures := consecutiveFailures cb + 1\<rparr>
      in case cbState cb1 of
           StateClosed \<Rightarrow>
             (if FailureThreshold (cbCfg cb1) \<le> consecutiveFailures cb1 then cb1\<lparr>cbState := StateOpen\<rparr> else cb1)
         | StateOpen \<Rightarrow> cb1
         | StateHalfOpen \<Rightarrow> cb1\<lparr>cbState := StateOpen\<rparr>)"

definition afterRequest :: "int \<Rightarrow> 'err option \<Rightarrow> CircuitBreaker \<Rightarrow> CircuitBreaker" where
  "afterRequest now err cb = (if err = None then onSuccess cb else onFailure now cb)"

definition cbReset :: "CircuitBreaker \<Rightarrow> CircuitBreaker" where
  "cbReset cb = cb\<lparr>cbState := StateClosed, consecutiveFailures := 0, halfOpenRequests := 0\<rparr>"

text \<open>
  \<open>Execute\<close>: the result is the breaker's own error or the error result of \<open>fn\<close>, which is called
  only when the breaker admits the request. \<open>fn\<close> returns its error and the time when it returns.
\<close>

datatype 'err exec_result = Rejected cb_error | Called "'err option"

definition cbExecute ::
  "int \<Rightarrow> (unit \<Rightarrow> 'err option \<times> int) \<Rightarrow> CircuitBreaker \<Rightarrow> 'err exec_result \<times> CircuitBreaker" where
  "cbExecute now fn cb =
     (case beforeRequest now cb of
        (Some e, cb') \<Rightarrow> (Rejected e, cb')
      | (None, cb') \<Rightarrow> (case fn () of (err, now') \<Rightarrow> (Called err, afterRequest now' err cb')))"

section \<open>Interleaved requests\<close>

text \<open>
  A breaker in use: its clock, the number of admitted requests that have not returned, and the
  number of requests admitted since it last became half-open.
\<close>

record cb_sys =
  breaker :: CircuitBreaker
  clock :: int
  pending :: nat
  probes :: nat

definition admitProbes :: "CircuitBreaker \<Rightarrow> nat \<Rightarrow> nat" where
  "admitProbes cb n = (case cbState cb of StateClosed \<Rightarrow> n | StateOpen \<Rightarrow> 1 | StateHalfOpen \<Rightarrow> n + 1)"

inductive cb_step :: "cb_sys \<Rightarrow> cb_sys \<Rightarrow> bool" where
  admit: "beforeRequest (clock s) (breaker s) = (None, cb') \<Longrightarrow>
    cb_step s (s\<lparr>breaker := cb', pending := pending s + 1, probes := admitProbes (breaker s) (probes s)\<rparr>)"
| reject: "beforeRequest (clock s) (breaker s) = (Some e, cb') \<Longrightarrow> cb_step s (s\<lparr>breaker := cb'\<rparr>)"
| succeed: "0 < pending s \<Longrightarrow>
    cb_step s (s\<lparr>breaker := afterRequest (clock s) (None :: unit option) (breaker s), pending := pending s - 1\<rparr>)"
| fail: "0 < pending s \<Longrightarrow>
    cb_step s (s\<lparr>breaker := afterRequest (clock s) (Some ()) (breaker s), pending := pending s - 1\<rparr>)"
| reset: "cb_step s (s\<lparr>breaker := cbReset (breaker s)\<rparr>)"
| tick: "clock s \<le> t \<Longrightarrow> cb_step s (s\<lparr>clock := t\<rparr>)"

inductive cb_reach :: "CircuitBreaker \<Rightarrow> cb_sys \<Rightarrow> bool" for cb0 where
  start: "cb_reach cb0 \<lparr>breaker = cb0, clock = 0, pending = 0, probes = 0\<rparr>"
| step: "cb_reach cb0 s \<Longrightarrow> cb_step s s' \<Longrightarrow> cb_reach cb0 s'"

inductive_cases cb_stepE: "cb_step s s'"

definition wf_cfg :: "CircuitBreakerConfig \<Rightarrow> bool" where
  "wf_cfg cfg \<longleftrightarrow> 0 < FailureThreshold cfg \<and> 0 < ResetTimeout cfg \<and> 0 < HalfOpenMaxRequests cfg"

text \<open>
  The invariant: closed means fewer failures in a row than the threshold, not closed means at least
  one; the probe counter never exceeds its limit and runs one behind the admitted probes.
\<close>

definition cb_inv :: "CircuitBreaker \<Rightarrow> cb_sys \<Rightarrow> bool" where
  "cb_inv cb0 s \<longleftrightarrow>
     cbCfg (breaker s) = cbCfg cb0 \<and> 0 \<le> consecutiveFailures (breaker s) \<and>
     0 \<le> halfOpenRequests (breaker s) \<and>
     halfOpenRequests (breaker s) \<le> HalfOpenMaxRequests (cbCfg cb0) \<and>
     (cbState (breaker s) = StateClosed \<longrightarrow> consecutiveFailures (breaker s) < FailureThreshold (cbCfg cb0)) \<and>
     (cbState (breaker s) \<noteq> StateClosed \<longrightarrow> 0 < consecutiveFailures (breaker s) \<and> lastFailureTime (breaker s) \<le> clock s) \<and>
     (cbState (breaker s) = StateHalfOpen \<longrightarrow> int (probes s) = halfOpenRequests (breaker s) + 1)"

lemma wf_NewCircuitBreaker: "wf_cfg (cbCfg (NewCircuitBreaker name cfg))"
  by (simp add: wf_cfg_def NewCircuitBreaker_def defaultCBConfig_def Let_def)

lemma cb_inv_start:
  "cb_inv (NewCircuitBreaker name cfg) \<lparr>breaker = NewCircuitBreaker name cfg, clock = 0, pending = 0, probes = 0\<rparr>"
  using wf_NewCircuitBreaker [of name cfg]
  by (simp add: cb_inv_def wf_cfg_def) (simp add: NewCircuitBreaker_def Let_def)

lemmas cb_defs = beforeRequest_def afterRequest_def onSuccess_def onFailure_def cbReset_def admitProbes_def

lemma cb_inv_step:
  assumes "cb_step s s'" and "cb_inv cb0 s" and "wf_cfg (cbCfg cb0)"
  shows "cb_inv cb0 s'"
  using assms(1)
proof cases
  case (admit cb')
  with assms(2,3) show ?thesis
    by (auto simp: cb_inv_def wf_cfg_def cb_defs split: cb_state.splits if_splits)
next
  case (reject e cb')
  with assms(2) show ?thesis by (auto simp: cb_inv_def cb_defs split: cb_state.splits if_splits)
next
  case succeed
  with assms(2,3) show ?thesis by (auto simp: cb_inv_def wf_cfg_def cb_defs split: cb_state.splits)
next
  case fail
  with assms(2) show ?thesis by (auto simp: cb_inv_def cb_defs Let_def split: cb_state.splits)
next
  case reset
  with assms(2,3) show ?thesis by (auto simp: cb_inv_def wf_cfg_def cb_defs)
next
  case (tick t)
  with assms(2) show ?thesis by (auto simp: cb_inv_def)
qed

lemma cb_inv_reach:
  assumes "cb_reach cb0 s" and "cb0 = NewCircuitBreaker name cfg"
  shows "cb_inv cb0 s"
  using assms(1)
proof induction
  case start
  then show ?case using assms(2) cb_inv_start by simp
next
  case (step s s')
  then show ?case using cb_inv_step [OF step(2)] wf_NewCircuitBreaker assms(2) by blast
qed

section \<open>Properties\<close>

text \<open>
  C20. Whatever the interleaving of requests, results, manual resets and time: the breaker is closed
  only while fewer than \<open>FailureThreshold\<close> failures in a row were recorded; while it is open and
  \<open>ResetTimeout\<close> has not passed since the last failure every request is rejected and nothing
  changes; and while it is half-open at most \<open>HalfOpenMaxRequests + 1\<close> requests have been admitted.
\<close>

theorem cb_safe:
  assumes "cb_reach (NewCircuitBreaker name cfg) s"
  shows "(cbState (breaker s) = StateClosed \<longrightarrow>
      consecutiveFailures (breaker s) < FailureThreshold (cbCfg (NewCircuitBreaker name cfg))) \<and>
    (cbState (breaker s) = StateOpen \<and> clock s - lastFailureTime (breaker s) < ResetTimeout (cbCfg (NewCircuitBreaker name cfg)) \<longrightarrow>
      (\<exists>e. beforeRequest (clock s) (breaker s) = (Some e, breaker s))) \<and>
    (cbState (breaker s) = StateHalfOpen \<longrightarrow>
      int (probes s) \<le> HalfOpenMaxRequests (cbCfg (NewCircuitBreaker name cfg)) + 1)"
  using cb_inv_reach [OF assms refl] by (auto simp: cb_inv_def beforeRequest_def)

text \<open>One trip: a failure opens the breaker; after the timeout, two probes are in flight.\<close>

definition tripCfg :: CircuitBreakerConfig where
  "tripCfg = \<lparr>FailureThreshold = 1, ResetTimeout = 10, HalfOpenMaxRequests = 1\<rparr>"

lemma trip_reach:
  "cb_reach (NewCircuitBreaker ''db'' tripCfg)
     \<lparr>breaker = \<lparr>cbName = ''db'', cbCfg = tripCfg, cbState = StateHalfOpen, consecutiveFailures = 1,
        lastFailureTime = 0, halfOpenRequests = 1\<rparr>, clock = 10, pending = 2, probes = 2\<rparr>"
proof -
  let ?cb = "\<lambda>st f h. \<lparr>cbName = ''db'', cbCfg = tripCfg, cbState = st, consecutiveFailures = f,
    lastFailureTime = 0, halfOpenRequests = h\<rparr>"
  have new: "NewCircuitBreaker ''db'' tripCfg = ?cb StateClosed 0 0"
    by (simp add: NewCircuitBreaker_def tripCfg_def Let_def)
  have 0: "cb_reach (?cb StateClosed 0 0) \<lparr>breaker = ?cb StateClosed 0 0, clock = 0, pending = 0, probes = 0\<rparr>"
    by (rule cb_reach.start)
  have 1: "cb_reach (?cb StateClosed 0 0) \<lparr>breaker = ?cb StateClosed 0 0, clock = 0, pending = 1, probes = 0\<rparr>"
    by (rule cb_reach.step [OF 0]) (use cb_step.admit [of "\<lparr>breaker = ?cb StateClosed 0 0, clock = 0, pending = 0, probes = 0\<rparr>"] in \<open>simp add: cb_defs\<close>)
  have 2: "cb_reach (?cb StateClosed 0 0) \<lparr>breaker = ?cb StateOpen 1 0, clock = 0, pending = 0, probes = 0\<rparr>"
    by (rule cb_reach.step [OF 1]) (use cb_step.fail [of "\<lparr>breaker = ?cb StateClosed 0 0, clock = 0, pending = 1, probes = 0\<rparr>"] in \<open>simp add: cb_defs tripCfg_def Let_def\<close>)
  have 3: "cb_reach (?cb StateClosed 0 0) \<lparr>breaker = ?cb StateOpen 1 0, clock = 10, pending = 0, probes = 0\<rparr>"
    by (rule cb_reach.step [OF 2]) (use cb_step.tick [of "\<lparr>breaker = ?cb StateOpen 1 0, clock = 0, pending = 0, probes = 0\<rparr>" 10] in simp)
  have 4: "cb_reach (?cb StateClosed 0 0) \<lparr>breaker = ?cb StateHalfOpen 1 0, clock = 10, pending = 1, probes = 1\<rparr>"
    by (rule cb_reach.step [OF 3]) (use cb_step.admit [of "\<lparr>breaker = ?cb StateOpen 1 0, clock = 10, pending = 0, probes = 0\<rparr>"] in \<open>simp add: cb_defs tripCfg_def\<close>)
  have "cb_reach (?cb StateClosed 0 0) \<lparr>breaker = ?cb StateHalfOpen 1 1, clock = 10, pending = 2, probes = 2\<rparr>"
    by (rule cb_reach.step [OF 4]) (use cb_step.admit [of "\<lparr>breaker = ?cb StateHalfOpen 1 0, clock = 10, pending = 1, probes = 1\<rparr>"] in \<open>simp add: cb_defs tripCfg_def numeral_2_eq_2\<close>)
  then show ?thesis by (simp add: new)
qed

text \<open>The bound is reached: with \<open>HalfOpenMaxRequests = 1\<close> two probes are admitted.\<close>

theorem cb_safe_witness:
  "\<exists>s. cb_reach (NewCircuitBreaker ''db'' tripCfg) s \<and> cbState (breaker s) = StateHalfOpen \<and> probes s = 2 \<and>
     int (probes s) \<le> HalfOpenMaxRequests (cbCfg (NewCircuitBreaker ''db'' tripCfg)) + 1"
  by (intro exI conjI, rule trip_reach) (use cb_safe [OF trip_reach] in simp_all)

text \<open>A sequence of requests that all fail: \<open>(a, b)\<close> is the time of a request and of its failure.\<close>

fun failRun :: "(int \<times> int) list \<Rightarrow> CircuitBreaker \<Rightarrow> unit exec_result list \<times> CircuitBreaker" where
  "failRun [] cb = ([], cb)"
| "failRun ((a, b) # ts) cb =
     (case cbExecute a (\<lambda>_. (Some (), b)) cb of (r, cb') \<Rightarrow>
        (case failRun ts cb' of (rs, cb'') \<Rightarrow> (r # rs, cb'')))"

fun called :: "'err exec_result \<Rightarrow> bool" where
  "called (Rejected e) = False"
| "called (Called err) = True"

lemma failRun_open:
  assumes "cbState cb = StateOpen" and "\<forall>(a, b) \<in> set ts. a - lastFailureTime cb < ResetTimeout (cbCfg cb)"
  shows "map called (fst (failRun ts cb)) = replicate (length ts) False \<and> snd (failRun ts cb) = cb"
  using assms(2)
proof (induction ts)
  case (Cons x ts)
  obtain a b where x: "x = (a, b)" by fastforce
  have "\<exists>e. cbExecute a (\<lambda>_. (Some (), b)) cb = (Rejected e, cb)"
    using assms(1) Cons.prems x by (auto simp: cbExecute_def beforeRequest_def)
  then obtain e where "cbExecute a (\<lambda>_. (Some (), b)) cb = (Rejected e, cb)" by blast
  with Cons x show ?case by (auto split: prod.splits)
qed simp

lemma failRun_closed:
  assumes "cbState cb = StateClosed" and "consecutiveFailures cb = FailureThreshold (cbCfg cb) - int k" and "0 < k"
    and "\<forall>(a, b) \<in> set ts. t0 \<le> a \<and> a < t0 + ResetTimeout (cbCfg cb) \<and> t0 \<le> b"
  shows "map called (fst (failRun ts cb)) = replicate (min (length ts) k) True @ replicate (length ts - k) False \<and>
    cbState (snd (failRun ts cb)) = (if length ts < k then StateClosed else StateOpen)"
  using assms
proof (induction ts arbitrary: cb k)
  case (Cons x ts)
  obtain a b where x: "x = (a, b)" by fastforce
  define cb' where "cb' = onFailure b cb"
  have ex: "cbExecute a (\<lambda>_. (Some (), b)) cb = (Called (Some ()), cb')"
    using Cons.prems(1) by (simp add: cbExecute_def beforeRequest_def afterRequest_def cb'_def)
  have run: "failRun (x # ts) cb = (Called (Some ()) # fst (failRun ts cb'), snd (failRun ts cb'))"
    by (simp add: x ex case_prod_beta)
  have cfg: "cbCfg cb' = cbCfg cb" "lastFailureTime cb' = b"
    using Cons.prems(1) by (simp_all add: cb'_def onFailure_def Let_def)
  show ?case
  proof (cases "k = 1")
    case True
    then have "cbState cb' = StateOpen" using Cons.prems(1,2) by (simp add: cb'_def onFailure_def Let_def)
    moreover have "\<forall>(a, b) \<in> set ts. a - lastFailureTime cb' < ResetTimeout (cbCfg cb')"
      using Cons.prems(4) x by (auto simp: cfg)
    ultimately have "map called (fst (failRun ts cb')) = replicate (length ts) False \<and> snd (failRun ts cb') = cb'"
      by (rule failRun_open)
    with True \<open>cbState cb' = StateOpen\<close> show ?thesis by (simp add: run)
  next
    case False
    obtain j where j: "k = Suc j" "0 < j" using False Cons.prems(3) by (cases k) auto
    have c: "cbState cb' = StateClosed" "consecutiveFailures cb' = FailureThreshold (cbCfg cb') - int j"
      using Cons.prems(1,2) j by (simp_all add: cb'_def onFailure_def Let_def)
    have "\<forall>(a, b) \<in> set ts. t0 \<le> a \<and> a < t0 + ResetTimeout (cbCfg cb') \<and> t0 \<le> b"
      using Cons.prems(4) by (simp add: cfg)
    from Cons.IH [OF c j(2) this] show ?thesis using j(1) by (simp add: run)
  qed
qed simp

text \<open>
  C21. Tripping and recovery: of a series of failing requests within one reset timeout exactly the
  first \<open>FailureThreshold\<close> reach the protected function and the breaker is open from then on; once
  the timeout has passed a successful request closes it again with no failures counted.
\<close>

theorem cb_trips_and_recovers:
  assumes "\<forall>(a, b) \<in> set ts. t0 \<le> a \<and> a < t0 + ResetTimeout (cbCfg (NewCircuitBreaker name cfg)) \<and> t0 \<le> b"
  shows "let cb0 = NewCircuitBreaker name cfg; n = nat (FailureThreshold (cbCfg cb0)); cb = snd (failRun ts cb0) in
    map called (fst (failRun ts cb0)) = replicate (min (length ts) n) True @ replicate (length ts - n) False \<and>
    (cbState cb = StateOpen \<longleftrightarrow> n \<le> length ts) \<and>
    (cbState cb = StateOpen \<and> ResetTimeout (cbCfg cb) \<le> now - lastFailureTime cb \<longrightarrow>
      (\<exists>cb'. cbExecute now (\<lambda>_. (None :: unit option, now')) cb = (Called None, cb') \<and>
        cbState cb' = StateClosed \<and> consecutiveFailures cb' = 0))"
proof -
  let ?cb0 = "NewCircuitBreaker name cfg"
  have st: "cbState ?cb0 = StateClosed" "consecutiveFailures ?cb0 = 0"
    by (simp_all add: NewCircuitBreaker_def Let_def)
  have "0 < FailureThreshold (cbCfg ?cb0)" using wf_NewCircuitBreaker by (simp add: wf_cfg_def)
  then have "map called (fst (failRun ts ?cb0)) =
      replicate (min (length ts) (nat (FailureThreshold (cbCfg ?cb0)))) True @
      replicate (length ts - nat (FailureThreshold (cbCfg ?cb0))) False \<and>
    cbState (snd (failRun ts ?cb0)) = (if length ts < nat (FailureThreshold (cbCfg ?cb0)) then StateClosed else StateOpen)"
    using st by (intro failRun_closed [OF _ _ _ assms]) auto
  then show ?thesis
    by (auto simp: Let_def cbExecute_def cb_defs)
qed

theorem cb_trips_and_recovers_witness:
  "map called (fst (failRun [(0, 1), (2, 3)] (NewCircuitBreaker ''db'' tripCfg))) = [True, False]"
proof -
  have "cbCfg (NewCircuitBreaker ''db'' tripCfg) = tripCfg"
    by (simp add: NewCircuitBreaker_def tripCfg_def Let_def)
  then show ?thesis
    using cb_trips_and_recovers [of "[(0, 1), (2, 3)]" 0 "''db''" tripCfg] by (simp add: tripCfg_def Let_def)
qed

end
