(* ===== verification/Retry.thy ===== *)
theory Retry
  imports Prelude Complex_Main
begin

text \<open>
  \<open>pkg/resilience/retry.go\<close> and \<open>timeout.go\<close>: retries with exponential backoff, and a deadline around a
  call. The called function is a state transformer \<open>fn\<close> with an error result. What the run-time
  contributes is an environment: \<open>ctxErr a\<close> is the context's error when it is tested after attempt \<open>a\<close>,
  \<open>ctxDone a\<close> the error if the context is done before the timer of that attempt fires, \<open>rnd a\<close> the random
  number drawn for it. Durations are in nanoseconds; floating-point numbers are reals.
\<close>

record RetryConfig =
  MaxAttempts :: int
  InitialDelay :: int
  MaxDelay :: int
  Multiplier :: real
  JitterFraction :: real

definition defaultRetryConfig :: RetryConfig where
  "defaultRetryConfig = \<lparr>MaxAttempts = 3, InitialDelay = 100000000, MaxDelay = 10000000000, Multiplier = 2, JitterFraction = 1 / 10\<rparr>"

record 'c retry_env =
  ctxErr :: "int \<Rightarrow> 'c option"
  ctxDone :: "int \<Rightarrow> 'c option"
  rnd :: "int \<Rightarrow> real"

datatype ('e, 'c) retry_error = RetryAborted 'c | AbortedDuringBackoff 'c | AllAttemptsFailed int string "'e option"

text \<open>\<open>time.Duration(backoff)\<close> truncates; \<open>backoff\<close> is not negative there.\<close>

definition computeDelay :: "real \<Rightarrow> int \<Rightarrow> RetryConfig \<Rightarrow> int" where
  "computeDelay rand attempt cfg =
     (let backoff = real_of_int (InitialDelay cfg) * Multiplier cfg ^ nat (attempt - 1);
          jitter = backoff * JitterFraction cfg * (2 * rand - 1);
          backoff = backoff + jitter;
          backoff = (if backoff > real_of_int (MaxDelay cfg) then real_of_int (MaxDelay cfg) else backoff);
          backoff = (if backoff < 0 then real_of_int (InitialDelay cfg) else backoff)
      in \<lfloor>backoff\<rfloor>)"

text \<open>The result lists the delays waited for, with the error and the state.\<close>

function retryLoop ::
  "'c retry_env \<Rightarrow> string \<Rightarrow> RetryConfig \<Rightarrow> ('s \<Rightarrow> 'e option \<times> 's) \<Rightarrow> int \<Rightarrow> 'e option \<Rightarrow> 's \<Rightarrow>
   ('e, 'c) retry_error option \<times> 's \<times> int list" where
  "retryLoop env name cfg fn attempt lastErr s =
     (if attempt \<le> MaxAttempts cfg then
        (case fn s of
           (None, s') \<Rightarrow> (None, s', [])
         | (Some e, s') \<Rightarrow>
             (if attempt = MaxAttempts cfg then (Some (AllAttemptsFailed (MaxAttempts cfg) name (Some e)), s', [])
              else
                (case ctxErr env attempt of
                   Some c \<Rightarrow> (Some (RetryAborted c), s', [])
                 | None \<Rightarrow>
                     (let delay = computeDelay (rnd env attempt) attempt cfg
                      in case ctxDone env attempt of
                           Some c \<Rightarrow> (Some (AbortedDuringBackoff c), s', [delay])
                         | None \<Rightarrow>
                             (case retryLoop env name cfg fn (attempt + 1) (Some e) s' of
                                (r, s'', ds) \<Rightarrow> (r, s'', delay # ds))))))
      else (Some (AllAttemptsFailed (MaxAttempts cfg) name lastErr), s, []))"
  by pat_completeness auto

termination retryLoop
  by (relation "measure (\<lambda>(env, name, cfg, fn, attempt, lastErr, s). nat (MaxAttempts cfg + 1 - attempt))") auto

declare retryLoop.simps [simp del]

definition withDefaults :: "RetryConfig \<Rightarrow> RetryConfig" where
  "withDefaults cfg =
     \<lparr>MaxAttempts = (if MaxAttempts cfg \<le> 0 then MaxAttempts defaultRetryConfig else MaxAttempts cfg),
      InitialDelay = (if InitialDelay cfg \<le> 0 then InitialDelay defaultRetryConfig else InitialDelay cfg),
      MaxDelay = (if MaxDelay cfg \<le> 0 then MaxDelay defaultRetryConfig else MaxDelay cfg),
      Multiplier = (if Multiplier cfg \<le> 0 then Multiplier defaultRetryConfig else Multiplier cfg),
      JitterFraction = (if JitterFraction cfg \<le> 0 then JitterFraction defaultRetryConfig else JitterFraction cfg)\<rparr>"

definition Retry ::
  "'c retry_env \<Rightarrow> string \<Rightarrow> RetryConfig \<Rightarrow> ('s \<Rightarrow> 'e option \<times> 's) \<Rightarrow> 's \<Rightarrow>
   ('e, 'c) retry_error option \<times> 's \<times> int list" where
  "Retry env name cfg fn s = retryLoop env name (withDefaults cfg) fn 1 None s"

section \<open>Timeouts\<close>

text \<open>
  \<open>WithTimeout\<close> without a positive timeout is the call itself; otherwise the outcome is that of a race
  between the call and the deadline or the cancellation of the parent context, given by \<open>parentErr\<close>.
\<close>

datatype ('e, 'c) race = CallFirst "'e option" | ContextFirst (parentErr: "'c option")

datatype ('e, 'c) timeout_error = CallError 'e | ParentCancelled string 'c | DeadlineExceeded string int

definition WithTimeout :: "int \<Rightarrow> string \<Rightarrow> 'e option \<Rightarrow> ('e, 'c) race \<Rightarrow> ('e, 'c) timeout_error option" where
  "WithTimeout timeout name direct race =
     (if timeout \<le> 0 then map_option CallError direct
      else
        (case race of
           CallFirst err \<Rightarrow> map_option CallError err
         | ContextFirst (Some c) \<Rightarrow> Some (ParentCancelled name c)
         | ContextFirst None \<Rightarrow> Some (DeadlineExceeded name timeout)))"

section \<open>Backoff\<close>

text \<open>The nominal delay of an attempt, before jitter and capping.\<close>

definition nominal :: "RetryConfig \<Rightarrow> int \<Rightarrow> real" where
  "nominal cfg attempt = real_of_int (InitialDelay cfg) * Multiplier cfg ^ nat (attempt - 1)"

lemma jitter_bounds:
  fixes b f x :: real
  assumes "0 \<le> b" and "0 \<le> f" and "f \<le> 1" and "0 \<le> x" and "x \<le> 1"
  shows "(1 - f) * b \<le> b + b * f * (2 * x - 1)" and "0 \<le> b + b * f * (2 * x - 1)"
    and "b + b * f * (2 * x - 1) \<le> (1 + f) * b"
proof -
  have bf: "0 \<le> b * f" using assms(1,2) by simp
  have "b * f * (- 1) \<le> b * f * (2 * x - 1)" using assms(4) by (intro mult_left_mono bf) simp
  then show l: "(1 - f) * b \<le> b + b * f * (2 * x - 1)" by (simp add: algebra_simps)
  moreover have "0 \<le> (1 - f) * b" using assms(1,3) by simp
  ultimately show "0 \<le> b + b * f * (2 * x - 1)" by linarith
  have "b * f * (2 * x - 1) \<le> b * f * 1" using assms(5) by (intro mult_left_mono bf) simp
  then show "b + b * f * (2 * x - 1) \<le> (1 + f) * b" by (simp add: algebra_simps)
qed

lemma computeDelay_bounds:
  assumes "0 \<le> InitialDelay cfg" and "0 \<le> MaxDelay cfg" and "0 \<le> Multiplier cfg"
    and "0 \<le> JitterFraction cfg" and "JitterFraction cfg \<le> 1" and "0 \<le> x" and "x \<le> 1"
  shows "0 \<le> computeDelay x attempt cfg \<and> computeDelay x attempt cfg \<le> MaxDelay cfg \<and>
    computeDelay x attempt cfg \<le> (1 + JitterFraction cfg) * nominal cfg attempt \<and>
    min (MaxDelay cfg) \<lfloor>(1 - JitterFraction cfg) * nominal cfg attempt\<rfloor> \<le> computeDelay x attempt cfg"
proof -
  let ?n = "nominal cfg attempt"
  have n: "0 \<le> ?n" using assms(1,3) by (simp add: nominal_def)
  define y where "y = ?n + ?n * JitterFraction cfg * (2 * x - 1)"
  note y = jitter_bounds [OF n assms(4-7), folded y_def]
  have "computeDelay x attempt cfg = \<lfloor>if y > real_of_int (MaxDelay cfg) then real_of_int (MaxDelay cfg) else y\<rfloor>"
    using y(2) assms(2) by (auto simp: computeDelay_def Let_def nominal_def [symmetric] y_def [symmetric])
  also have "\<dots> = min \<lfloor>y\<rfloor> (MaxDelay cfg)"
  proof (cases "real_of_int (MaxDelay cfg) < y")
    case True
    then have "MaxDelay cfg \<le> \<lfloor>y\<rfloor>" by (simp add: le_floor_iff)
    with True show ?thesis by simp
  next
    case False
    then have "\<lfloor>y\<rfloor> \<le> MaxDelay cfg" by linarith
    with False show ?thesis by simp
  qed
  finally have d: "computeDelay x attempt cfg = min \<lfloor>y\<rfloor> (MaxDelay cfg)" .
  have "\<lfloor>(1 - JitterFraction cfg) * ?n\<rfloor> \<le> \<lfloor>y\<rfloor>" using y(1) by (rule floor_mono)
  moreover have "real_of_int (min \<lfloor>y\<rfloor> (MaxDelay cfg)) \<le> (1 + JitterFraction cfg) * ?n"
    using y(3) of_int_floor_le [of y] by linarith
  ultimately show ?thesis unfolding d using y(2) assms(2) by simp
qed

section \<open>Attempts\<close>

text \<open>The state after \<open>k\<close> calls, and the error of call \<open>k\<close> (counted from 0).\<close>

fun afterCalls :: "('s \<Rightarrow> 'e option \<times> 's) \<Rightarrow> nat \<Rightarrow> 's \<Rightarrow> 's" where
  "afterCalls fn 0 s = s"
| "afterCalls fn (Suc k) s = afterCalls fn k (snd (fn s))"

definition callErr :: "('s \<Rightarrow> 'e option \<times> 's) \<Rightarrow> 's \<Rightarrow> nat \<Rightarrow> 'e option" where
  "callErr fn s k = fst (fn (afterCalls fn k s))"

lemma callErr_simps [simp]: "callErr fn s 0 = fst (fn s)" "callErr fn s (Suc k) = callErr fn (snd (fn s)) k"
  by (simp_all add: callErr_def)

text \<open>
  A run from some attempt on: it makes \<open>k + 1\<close> calls within the allowed attempts, all but the last of
  which failed; without a cancellation it gives up only after the last attempt.
\<close>

definition retry_run ::
  "'c retry_env \<Rightarrow> RetryConfig \<Rightarrow> ('s \<Rightarrow> 'e option \<times> 's) \<Rightarrow> int \<Rightarrow> 's \<Rightarrow>
   ('e, 'c) retry_error option \<Rightarrow> 's \<Rightarrow> int list \<Rightarrow> nat \<Rightarrow> bool" where
  "retry_run env cfg fn attempt s r s' ds k \<longleftrightarrow>
     attempt + int k \<le> MaxAttempts cfg \<and> s' = afterCalls fn (Suc k) s \<and>
     (\<forall>j < k. callErr fn s j \<noteq> None) \<and> (r = None \<longleftrightarrow> callErr fn s k = None) \<and>
     k \<le> length ds \<and> length ds \<le> Suc k \<and>
     (\<forall>i < length ds. ds ! i = computeDelay (rnd env (attempt + int i)) (attempt + int i) cfg) \<and>
     ((\<forall>a. ctxErr env a = None \<and> ctxDone env a = None) \<and> r \<noteq> None \<longrightarrow>
        attempt + int k = MaxAttempts cfg \<and> length ds = k)"

lemma retry_run_step:
  assumes "fst (fn s) \<noteq> None" and "retry_run env cfg fn (attempt + 1) (snd (fn s)) r s' ds k"
  shows "retry_run env cfg fn attempt s r s' (computeDelay (rnd env attempt) attempt cfg # ds) (Suc k)"
  using assms unfolding retry_run_def
  by (auto simp: less_Suc_eq_0_disj nth_Cons ac_simps split: nat.splits)

lemma retryLoop_spec:
  assumes "attempt \<le> MaxAttempts cfg" and "retryLoop env name cfg fn attempt le s = (r, s', ds)"
  shows "\<exists>k. retry_run env cfg fn attempt s r s' ds k"
  using assms
proof (induction "nat (MaxAttempts cfg - attempt)" arbitrary: attempt le s ds rule: less_induct)
  case less
  obtain err s1 where f: "fn s = (err, s1)" by fastforce
  note L = less.prems(2) [unfolded retryLoop.simps [of env name cfg fn attempt le s]]
  consider (ok) "err = None" | (last) e where "err = Some e" "attempt = MaxAttempts cfg"
    | (aborted) e where "err = Some e" "attempt < MaxAttempts cfg" "\<not> (ctxErr env attempt = None \<and> ctxDone env attempt = None)"
    | (again) e where "err = Some e" "attempt < MaxAttempts cfg" "ctxErr env attempt = None" "ctxDone env attempt = None"
    using less.prems(1) by (cases err) fastforce+
  then show ?case
  proof cases
    case again
    obtain ds1 where l: "retryLoop env name cfg fn (attempt + 1) (Some e) s1 = (r, s', ds1)"
      and ds: "ds = computeDelay (rnd env attempt) attempt cfg # ds1"
      using L f again by (auto simp: Let_def split: prod.splits)
    have "\<exists>k. retry_run env cfg fn (attempt + 1) s1 r s' ds1 k"
      using again(2) l by (intro less.hyps) auto
    with retry_run_step [of fn s env cfg attempt r s' ds1] f again(1) show ?thesis unfolding ds by auto
  next
    case aborted
    then have "retry_run env cfg fn attempt s r s' ds 0"
      using L f less.prems(1) by (auto simp: retry_run_def Let_def split: option.splits)
    then show ?thesis ..
  qed (use L f less.prems(1) in \<open>auto simp: retry_run_def intro!: exI [of _ 0]\<close>)
qed

section \<open>Properties\<close>

text \<open>
  C29. \<open>Retry\<close> terminates after at least one and at most the configured number of attempts (3 by default);
  every attempt but the last one failed, and it reports success exactly when the last one
  succeeded; unless the context is cancelled it gives up only after all attempts. Between attempts
  it waits for the backoff delays: with a jitter fraction of at most 1 each lies between 0 and the
  maximal delay, and within the jitter fraction of the exponential backoff below the maximum.
\<close>

theorem Retry_correct:
  assumes "Retry env name cfg fn s = (r, s', ds)" and "JitterFraction (withDefaults cfg) \<le> 1"
    and "\<forall>a. 0 \<le> rnd env a \<and> rnd env a \<le> 1"
  shows "\<exists>k. 1 + int k \<le> MaxAttempts (withDefaults cfg) \<and> s' = afterCalls fn (Suc k) s \<and>
    (\<forall>j < k. callErr fn s j \<noteq> None) \<and> (r = None \<longleftrightarrow> callErr fn s k = None) \<and>
    ((\<forall>a. ctxErr env a = None \<and> ctxDone env a = None) \<and> r \<noteq> None \<longrightarrow> 1 + int k = MaxAttempts (withDefaults cfg)) \<and>
    (length ds = k \<or> length ds = Suc k) \<and>
    (\<forall>i < length ds. 0 \<le> ds ! i \<and> ds ! i \<le> MaxDelay (withDefaults cfg) \<and>
       real_of_int (ds ! i) \<le> (1 + JitterFraction (withDefaults cfg)) * nominal (withDefaults cfg) (1 + int i) \<and>
       min (MaxDelay (withDefaults cfg)) \<lfloor>(1 - JitterFraction (withDefaults cfg)) * nominal (withDefaults cfg) (1 + int i)\<rfloor> \<le> ds ! i)"
proof -
  let ?c = "withDefaults cfg"
  have c: "1 \<le> MaxAttempts ?c" "0 \<le> InitialDelay ?c" "0 \<le> MaxDelay ?c" "0 \<le> Multiplier ?c" "0 \<le> JitterFraction ?c"
    by (simp_all add: withDefaults_def defaultRetryConfig_def)
  obtain k where k: "retry_run env ?c fn 1 s r s' ds k"
    using retryLoop_spec [OF c(1) assms(1) [unfolded Retry_def]] by blast
  have d: "\<forall>i < length ds. 0 \<le> ds ! i \<and> ds ! i \<le> MaxDelay ?c \<and>
      real_of_int (ds ! i) \<le> (1 + JitterFraction ?c) * nominal ?c (1 + int i) \<and>
      min (MaxDelay ?c) \<lfloor>(1 - JitterFraction ?c) * nominal ?c (1 + int i)\<rfloor> \<le> ds ! i"
    using k computeDelay_bounds [OF c(2-5) assms(2)] assms(3) by (simp add: retry_run_def)
  note K = k [unfolded retry_run_def]
  then have l: "length ds = k \<or> length ds = Suc k" by linarith
  show ?thesis by (intro exI [of _ k] conjI l d) (use K in \<open>elim conjE; blast\<close>)+
qed

definition flaky :: "nat \<Rightarrow> string option \<times> nat" where
  "flaky n = (if n < 2 then Some ''unavailable'' else None, n + 1)"

definition calmEnv :: "unit retry_env" where
  "calmEnv = \<lparr>ctxErr = \<lambda>_. None, ctxDone = \<lambda>_. None, rnd = \<lambda>_. 1 / 2\<rparr>"

theorem Retry_correct_witness:
  "\<exists>ds. Retry calmEnv ''op'' defaultRetryConfig flaky 0 = (None, 3, ds) \<and>
     (\<forall>i < length ds. 0 \<le> ds ! i \<and> ds ! i \<le> MaxDelay defaultRetryConfig)"
proof -
  obtain r s' ds where r: "Retry calmEnv ''op'' defaultRetryConfig flaky 0 = (r, s', ds)" by (metis prod_cases3)
  have c: "withDefaults defaultRetryConfig = defaultRetryConfig" "JitterFraction defaultRetryConfig \<le> 1"
    by (simp_all add: withDefaults_def defaultRetryConfig_def)
  have e: "\<forall>a. 0 \<le> rnd calmEnv a \<and> rnd calmEnv a \<le> 1" by (simp add: calmEnv_def)
  have n: "\<forall>a. ctxErr calmEnv a = None \<and> ctxDone calmEnv a = None" by (simp add: calmEnv_def)
  from Retry_correct [OF r _ e, unfolded c, OF c(2)] n obtain k where
    k: "1 + int k \<le> MaxAttempts defaultRetryConfig" "s' = afterCalls flaky (Suc k) 0"
      "\<forall>j < k. callErr flaky 0 j \<noteq> None" "r = None \<longleftrightarrow> callErr flaky 0 k = None"
      "r \<noteq> None \<longrightarrow> 1 + int k = MaxAttempts defaultRetryConfig"
      "\<forall>i < length ds. 0 \<le> ds ! i \<and> ds ! i \<le> MaxDelay defaultRetryConfig" by auto
  have err: "callErr flaky 0 0 \<noteq> None" "callErr flaky 0 1 \<noteq> None" "callErr flaky 0 2 = None"
    by (simp_all add: flaky_def numeral_2_eq_2)
  have "k \<le> 2" using k(1) by (simp add: defaultRetryConfig_def)
  then consider "k = 0" | "k = 1" | "k = 2" by linarith
  then have "k = 2" using k(4,5) err by cases (auto simp: defaultRetryConfig_def)
  with k err have "r = None" "s' = 3" by (simp_all add: flaky_def numeral_2_eq_2)
  with r k(6) show ?thesis by blast
qed

end
