(* ===== verification/Hashing.thy ===== *)
theory Hashing
  imports Prelude "HOL-Library.Word"
begin

text \<open>
  The hash functions of Go's standard library the program uses: \<open>sha256.Sum256\<close> on byte strings and
  the \<open>%x\<close> verb. The publisher derives shards and the query cache derives keys from it.
\<close>

unbundle bit_operations_syntax

section \<open>SHA-256\<close>

text \<open>
  The constants are the first 32 bits of the fractional parts of the cube roots of the first 64
  primes, and of the square roots of the first eight. \<open>nthRoot n k x 0\<close> is the integer \<open>n\<close>-th root of \<open>x\<close>,
  found bit by bit below \<open>2 ^ k\<close>; all the roots here are below 8.
\<close>

fun nthRoot :: "nat \<Rightarrow> nat \<Rightarrow> int \<Rightarrow> int \<Rightarrow> int" where
  "nthRoot n 0 x r = r"
| "nthRoot n (Suc k) x r = nthRoot n k x (if (r + 2 ^ k) ^ n \<le> x then r + 2 ^ k else r)"

definition firstPrimes :: "nat \<Rightarrow> nat list" where
  "firstPrimes m = filter (\<lambda>p. \<forall>d \<in> set [2..<p]. \<not> d dvd p) [2..<m]"

definition sha256_K :: "32 word list" where
  "sha256_K = map (\<lambda>p. word_of_int (nthRoot 3 35 (int p * 2 ^ 96) 0)) (firstPrimes 312)"

definition sha256_H0 :: "32 word list" where
  "sha256_H0 = map (\<lambda>p. word_of_int (nthRoot 2 35 (int p * 2 ^ 64) 0)) (firstPrimes 20)"

definition rotr :: "nat \<Rightarrow> 32 word \<Rightarrow> 32 word" where
  "rotr n x = drop_bit n x OR push_bit (32 - n) x"

text \<open>Big-endian fields.\<close>

definition beBytes :: "nat \<Rightarrow> nat \<Rightarrow> string" where
  "beBytes n v = map (\<lambda>i. char_of (v div 256 ^ (n - 1 - i) mod 256)) [0..<n]"

definition beWord :: "string \<Rightarrow> 32 word" where
  "beWord bs = foldl (\<lambda>a c. push_bit 8 a OR word_of_nat (of_char c)) 0 bs"

definition sha256_pad :: "string \<Rightarrow> string" where
  "sha256_pad msg =
     msg @ [CHR 0x80] @ replicate ((119 - length msg mod 64) mod 64) (CHR 0x00) @ beBytes 8 (8 * length msg)"

fun chunks :: "nat \<Rightarrow> nat \<Rightarrow> 'a list \<Rightarrow> 'a list list" where
  "chunks 0 n xs = []"
| "chunks (Suc k) n xs = take n xs # chunks k n (drop n xs)"

text \<open>The message schedule, most recent word first.\<close>

fun schedule :: "nat \<Rightarrow> 32 word list \<Rightarrow> 32 word list" where
  "schedule 0 ws = ws"
| "schedule (Suc k) ws =
     (let w15 = ws ! 14; w2 = ws ! 1;
          s0 = rotr 7 w15 XOR rotr 18 w15 XOR drop_bit 3 w15;
          s1 = rotr 17 w2 XOR rotr 19 w2 XOR drop_bit 10 w2
      in schedule k ((ws ! 15 + s0 + ws ! 6 + s1) # ws))"

fun sha256_round :: "32 word list \<Rightarrow> 32 word \<times> 32 word \<Rightarrow> 32 word list" where
  "sha256_round [a, b, c, d, e, f, g, h] (k, w) =
     (let s1 = rotr 6 e XOR rotr 11 e XOR rotr 25 e;
          ch = (e AND f) XOR (NOT e AND g);
          t1 = h + s1 + ch + k + w;
          s0 = rotr 2 a XOR rotr 13 a XOR rotr 22 a;
          maj = (a AND b) XOR (a AND c) XOR (b AND c);
          t2 = s0 + maj
      in [t1 + t2, a, b, c, d + t1, e, f, g])"
| "sha256_round hs kw = hs"

definition sha256_block :: "32 word list \<Rightarrow> string \<Rightarrow> 32 word list" where
  "sha256_block hs block =
     (let ws = rev (schedule 48 (rev (map beWord (chunks 16 4 block))))
      in map2 (+) hs (foldl sha256_round hs (zip sha256_K ws)))"

definition Sum256 :: "string \<Rightarrow> string" where
  "Sum256 msg =
     (let padded = sha256_pad msg
      in concat (map (\<lambda>w. beBytes 4 (unat w))
           (foldl sha256_block sha256_H0 (chunks (length padded div 64) 64 padded))))"

section \<open>Hexadecimal\<close>

definition nibbleDigit :: "nat \<Rightarrow> char" where
  "nibbleDigit d = (if d < 10 then char_of (48 + d) else char_of (87 + d))"

definition hexString :: "string \<Rightarrow> string" where
  "hexString bs = concat (map (\<lambda>c. [nibbleDigit (of_char c div 16), nibbleDigit (of_char c mod 16)]) bs)"

definition isHexDigit :: "char \<Rightarrow> bool" where
  "isHexDigit c \<longleftrightarrow> (CHR ''0'' \<le> c \<and> c \<le> CHR ''9'') \<or> (CHR ''a'' \<le> c \<and> c \<le> CHR ''f'')"

section \<open>Facts\<close>

lemma length_beBytes [simp]: "length (beBytes n v) = n"
  by (simp add: beBytes_def)

lemma length_sha256_round [simp]: "length hs = 8 \<Longrightarrow> length (sha256_round hs kw) = 8"
  by (cases "(hs, kw)" rule: sha256_round.cases) (auto simp: Let_def)

lemma length_foldl_round: "length hs = 8 \<Longrightarrow> length (foldl sha256_round hs kws) = 8"
  by (induction kws arbitrary: hs) auto

lemma length_sha256_block [simp]: "length hs = 8 \<Longrightarrow> length (sha256_block hs blk) = 8"
  by (simp add: sha256_block_def Let_def length_foldl_round)

lemma length_firstPrimes: "length (firstPrimes 20) = 8"
  by code_simp

lemma length_Sum256 [simp]: "length (Sum256 msg) = 32"
proof -
  have "length (foldl sha256_block hs bs) = 8" if "length hs = 8" for hs bs
    using that by (induction bs arbitrary: hs) auto
  then have "length (foldl sha256_block sha256_H0 bs) = 8" for bs
    by (simp add: sha256_H0_def length_firstPrimes)
  moreover have "length (concat (map (\<lambda>w :: 32 word. beBytes 4 (unat w)) ws)) = 4 * length ws" for ws
    by (induction ws) auto
  ultimately show ?thesis by (simp add: Sum256_def Let_def)
qed

lemma length_hexString [simp]: "length (hexString bs) = 2 * length bs"
  by (induction bs) (auto simp: hexString_def)

lemma nibbleDigit_ok: "d < 16 \<Longrightarrow> isHexDigit (nibbleDigit d)"
  by (auto simp: nibbleDigit_def isHexDigit_def char_le_nat of_char_of)

lemma hexString_digits: "\<forall>c \<in> set (hexString bs). isHexDigit c"
proof -
  have "isHexDigit (nibbleDigit (of_char c div 16)) \<and> isHexDigit (nibbleDigit (of_char c mod 16))" for c
  proof -
    have "(of_char c :: nat) < 256" by (metis mod_less_divisor of_char_mod_256 zero_less_numeral)
    then have "(of_char c :: nat) div 16 < 16" by linarith
    then show ?thesis by (auto intro!: nibbleDigit_ok)
  qed
  then show ?thesis by (auto simp: hexString_def)
qed

end
