(* ===== verification/Api_Keys.thy ===== *)
theory Api_Keys
  imports Hashing
begin

text \<open>
  \<open>internal/auth/apikey/apikey.go\<close>: API keys. The \<open>api_keys\<close> table is a parameter with the statements the code
  issues on it: \<open>findKey\<close> (the SELECT of an active key by its hash), \<open>insertKey\<close>, \<open>revokeKey\<close> (with the number of rows
  it affects) and \<open>selectKeys\<close>; the locale \<open>api_keys_db\<close> has their laws. Times are nanoseconds; the random bytes
  of a new key are an argument.
\<close>

record KeyInfo =
  kiID :: string
  kiName :: string
  kiRateLimit :: int
  kiActive :: bool
  kiCreatedAt :: int
  kiExpiresAt :: "int option"

datatype key_error = ErrInvalidKey | ErrExpiredKey | KeyDbError string

datatype key_find = KeyRow KeyInfo | KeyNoRows | KeyFindError string

definition HashKey :: "string \<Rightarrow> string" where
  "HashKey raw = hexString (Sum256 raw)"

definition generateRawKey :: "string \<Rightarrow> string" where
  "generateRawKey randomBytes = hexString randomBytes"

definition Validate :: "('d \<Rightarrow> string \<Rightarrow> key_find) \<Rightarrow> int \<Rightarrow> 'd \<Rightarrow> string \<Rightarrow> key_error + KeyInfo" where
  "Validate findKey now d raw =
     (case findKey d (HashKey raw) of
        KeyNoRows \<Rightarrow> Inl ErrInvalidKey
      | KeyFindError m \<Rightarrow> Inl (KeyDbError m)
      | KeyRow info \<Rightarrow>
          (case kiExpiresAt info of
             Some expiresAt \<Rightarrow> if expiresAt < now then Inl ErrExpiredKey else Inr info
           | None \<Rightarrow> Inr info))"

definition CreateKey ::
  "('d \<Rightarrow> string \<Rightarrow> string \<Rightarrow> int \<Rightarrow> int option \<Rightarrow> string option \<times> 'd) \<Rightarrow> string \<Rightarrow> string \<Rightarrow> int \<Rightarrow> int option \<Rightarrow> 'd \<Rightarrow>
   (key_error + string) \<times> 'd" where
  "CreateKey insertKey randomBytes name rateLimit expiresAt d =
     (let rawKey = generateRawKey randomBytes
      in case insertKey d (HashKey rawKey) name rateLimit expiresAt of
           (Some m, d') \<Rightarrow> (Inl (KeyDbError m), d')
         | (None, d') \<Rightarrow> (Inr rawKey, d'))"

definition RevokeKey :: "('d \<Rightarrow> string \<Rightarrow> (string + int) \<times> 'd) \<Rightarrow> 'd \<Rightarrow> string \<Rightarrow> key_error option \<times> 'd" where
  "RevokeKey revokeKey d raw =
     (case revokeKey d (HashKey raw) of
        (Inl m, d') \<Rightarrow> (Some (KeyDbError m), d')
      | (Inr n, d') \<Rightarrow> if n = 0 then (Some ErrInvalidKey, d') else (None, d'))"

text \<open>The rows of the listing: \<open>None\<close> is a row that cannot be scanned; \<open>rowsErr\<close> is \<open>rows.Err()\<close>.\<close>

fun scanKeys :: "KeyInfo option list \<Rightarrow> KeyInfo list \<Rightarrow> key_error + KeyInfo list" where
  "scanKeys [] keys = Inr keys"
| "scanKeys (None # rows) keys = Inl (KeyDbError ''scanning api key row'')"
| "scanKeys (Some k # rows) keys = scanKeys rows (keys @ [k])"

definition ListKeys :: "('d \<Rightarrow> string + KeyInfo option list \<times> string option) \<Rightarrow> 'd \<Rightarrow> key_error + KeyInfo list" where
  "ListKeys selectKeys d =
     (case selectKeys d of
        Inl m \<Rightarrow> Inl (KeyDbError m)
      | Inr (rows, rowsErr) \<Rightarrow>
          (case scanKeys rows [] of
             Inl err \<Rightarrow> Inl err
           | Inr keys \<Rightarrow> (case rowsErr of Some m \<Rightarrow> Inl (KeyDbError m) | None \<Rightarrow> Inr keys)))"

section \<open>The table\<close>

locale api_keys_db =
  fixes findKey :: "'d \<Rightarrow> string \<Rightarrow> key_find"
    and insertKey :: "'d \<Rightarrow> string \<Rightarrow> string \<Rightarrow> int \<Rightarrow> int option \<Rightarrow> string option \<times> 'd"
    and revokeKey :: "'d \<Rightarrow> string \<Rightarrow> (string + int) \<times> 'd"
  assumes insert_find: "insertKey d h name rate ex = (None, d') \<Longrightarrow>
      \<exists>info. findKey d' h = KeyRow info \<and> kiName info = name \<and> kiRateLimit info = rate \<and> kiExpiresAt info = ex"
    and insert_other: "insertKey d h name rate ex = (res, d') \<Longrightarrow> h' \<noteq> h \<Longrightarrow> findKey d' h' = findKey d h'"
    and insert_unique: "findKey d h = KeyRow info \<Longrightarrow> fst (insertKey d h name rate ex) \<noteq> None"
    and revoke_find: "revokeKey d h = (Inr n, d') \<Longrightarrow> findKey d' h = KeyNoRows"
    and revoke_other: "revokeKey d h = (affected, d') \<Longrightarrow> h' \<noteq> h \<Longrightarrow> findKey d' h' = findKey d h'"
begin

lemma created_valid:
  assumes "CreateKey insertKey rb name rate ex d = (Inr raw, d')"
  shows "raw = hexString rb \<and> (\<exists>info. kiName info = name \<and> kiRateLimit info = rate \<and> kiExpiresAt info = ex \<and>
    (\<forall>now. Validate findKey now d' raw = (case ex of Some t \<Rightarrow> if t < now then Inl ErrExpiredKey else Inr info | None \<Rightarrow> Inr info)))"
proof -
  from assms have i: "insertKey d (HashKey raw) name rate ex = (None, d')" and r: "raw = hexString rb"
    by (auto simp: CreateKey_def generateRawKey_def Let_def split: prod.splits option.splits)
  from insert_find [OF i] obtain info where
    "findKey d' (HashKey raw) = KeyRow info" "kiName info = name" "kiRateLimit info = rate" "kiExpiresAt info = ex" by blast
  with r show ?thesis by (auto simp: Validate_def split: option.splits)
qed

lemma revoked_invalid:
  "RevokeKey revokeKey d raw = (None, d') \<Longrightarrow> Validate findKey now d' raw = Inl ErrInvalidKey"
  by (auto simp: RevokeKey_def Validate_def revoke_find split: prod.splits sum.splits if_splits)

lemma others_unaffected:
  assumes "HashKey other \<noteq> HashKey raw"
  shows "RevokeKey revokeKey d raw = (res, d') \<Longrightarrow> Validate findKey now d' other = Validate findKey now d other"
    and "CreateKey insertKey rb name rate ex d = (res', d'') \<Longrightarrow> hexString rb = raw \<Longrightarrow>
      Validate findKey now d'' other = Validate findKey now d other"
proof -
  show "Validate findKey now d' other = Validate findKey now d other" if "RevokeKey revokeKey d raw = (res, d')"
    using that revoke_other [of d "HashKey raw" _ d' "HashKey other"] assms
    by (auto simp: RevokeKey_def Validate_def split: prod.splits sum.splits if_splits)
  show "Validate findKey now d'' other = Validate findKey now d other"
    if "CreateKey insertKey rb name rate ex d = (res', d'')" "hexString rb = raw"
    using that insert_other [of d "HashKey raw" name rate ex _ d'' "HashKey other"] assms
    by (auto simp: CreateKey_def Validate_def generateRawKey_def Let_def split: prod.splits option.splits)
qed

end

text \<open>The table as a list of rows with their hashes; the hash is unique.\<close>

type_synonym key_table = "(string \<times> KeyInfo) list"

definition tableFindKey :: "key_table \<Rightarrow> string \<Rightarrow> key_find" where
  "tableFindKey d h = (case map_of d h of Some info \<Rightarrow> if kiActive info then KeyRow info else KeyNoRows | None \<Rightarrow> KeyNoRows)"

definition tableInsertKey :: "key_table \<Rightarrow> string \<Rightarrow> string \<Rightarrow> int \<Rightarrow> int option \<Rightarrow> string option \<times> key_table" where
  "tableInsertKey d h name rate ex =
     (if map_of d h \<noteq> None then (Some ''duplicate key'', d)
      else (None, (h, \<lparr>kiID = show_nat (length d), kiName = name, kiRateLimit = rate, kiActive = True, kiCreatedAt = 0,
                       kiExpiresAt = ex\<rparr>) # d))"

definition tableRevokeKey :: "key_table \<Rightarrow> string \<Rightarrow> (string + int) \<times> key_table" where
  "tableRevokeKey d h =
     (case map_of d h of
        None \<Rightarrow> (Inr 0, d)
      | Some info \<Rightarrow> (Inr 1, AList.update h (info\<lparr>kiActive := False\<rparr>) d))"

interpretation keyTable: api_keys_db tableFindKey tableInsertKey tableRevokeKey
  by unfold_locales
    (auto simp: tableFindKey_def tableInsertKey_def tableRevokeKey_def update_conv' split: option.splits if_splits)

section \<open>Properties\<close>

text \<open>
  C38. The life of an API key: a created key is the hexadecimal form of its random bytes and validates, with
  the name and rate limit it was created with, exactly until it expires; once revoked it is invalid;
  neither creating nor revoking a key changes what a key with another hash validates to.
\<close>

theorem api_key_lifecycle:
  assumes "api_keys_db findKey insertKey revokeKey" and "CreateKey insertKey rb name rate ex d = (Inr raw, d1)"
    and "RevokeKey revokeKey d1 raw = (None, d2)"
  shows "raw = hexString rb \<and>
    (\<exists>info. kiName info = name \<and> kiRateLimit info = rate \<and>
      (\<forall>now. Validate findKey now d1 raw = (if \<exists>t. ex = Some t \<and> t < now then Inl ErrExpiredKey else Inr info))) \<and>
    (\<forall>now. Validate findKey now d2 raw = Inl ErrInvalidKey) \<and>
    (\<forall>other now. HashKey other \<noteq> HashKey raw \<longrightarrow>
      Validate findKey now d1 other = Validate findKey now d other \<and> Validate findKey now d2 other = Validate findKey now d other)"
proof (intro conjI allI impI)
  note C = api_keys_db.created_valid [OF assms(1,2)]
  show r: "raw = hexString rb" using C by blast
  from C obtain info where "kiName info = name" "kiRateLimit info = rate"
    "\<forall>now. Validate findKey now d1 raw = (case ex of Some t \<Rightarrow> if t < now then Inl ErrExpiredKey else Inr info | None \<Rightarrow> Inr info)"
    by blast
  then show "\<exists>info. kiName info = name \<and> kiRateLimit info = rate \<and>
      (\<forall>now. Validate findKey now d1 raw = (if \<exists>t. ex = Some t \<and> t < now then Inl ErrExpiredKey else Inr info))"
    by (intro exI [of _ info]) (auto split: option.splits)
  show "Validate findKey now d2 raw = Inl ErrInvalidKey" for now
    by (rule api_keys_db.revoked_invalid [OF assms(1,3)])
  fix other now assume o: "HashKey other \<noteq> HashKey raw"
  show c: "Validate findKey now d1 other = Validate findKey now d other"
    by (rule api_keys_db.others_unaffected(2) [OF assms(1) o assms(2) r [symmetric]])
  show "Validate findKey now d2 other = Validate findKey now d other"
    using api_keys_db.others_unaffected(1) [OF assms(1) o assms(3), of now] c by simp
qed

theorem api_key_lifecycle_witness:
  "\<exists>raw d1 d2 info. CreateKey tableInsertKey ''ab'' ''client'' 5 None [] = (Inr raw, d1) \<and> raw = ''6162'' \<and>
     Validate tableFindKey 7 d1 raw = Inr info \<and> kiRateLimit info = 5 \<and>
     RevokeKey tableRevokeKey d1 raw = (None, d2) \<and> Validate tableFindKey 8 d2 raw = Inl ErrInvalidKey"
proof -
  obtain raw d1 where c: "CreateKey tableInsertKey ''ab'' ''client'' 5 None [] = (Inr raw, d1)"
    by (simp add: CreateKey_def tableInsertKey_def Let_def)
  then have m: "map_of d1 (HashKey raw) \<noteq> None" by (auto simp: CreateKey_def tableInsertKey_def Let_def)
  then obtain d2 where r: "RevokeKey tableRevokeKey d1 raw = (None, d2)"
    by (auto simp: RevokeKey_def tableRevokeKey_def)
  have "hexString ''ab'' = ''6162''" by code_simp
  with api_key_lifecycle [OF keyTable.api_keys_db_axioms c r] c r show ?thesis by auto
qed

end
