(* ===== verification/Rate_Limiter.thy ===== *)
theory Rate_Limiter
  imports Prelude
begin

text \<open>
  \<open>internal/auth/ratelimit/ratelimit.go\<close>: the token-bucket limiter. Token counts (\<open>float64\<close>) are real
  numbers, times are nanoseconds and arguments. The mutex makes every operation atomic; the
  cleanup goroutine is the operation \<open>cleanup\<close>, one tick of its loop.
\<close>

record entry =
  tokens :: real
  lastCheck :: int

record Limiter =
  entries :: "(string \<times> entry) list"
  window :: int

definition NewLimiter :: "int \<Rightarrow> Limiter" where
  "NewLimiter w = \<lparr>entries = [], window = w\<rparr>"

text \<open>\<open>Duration.Seconds\<close>.\<close>

definition Seconds :: "int \<Rightarrow> real" where
  "Seconds d = real_of_int d / 1000000000"

definition Allow :: "int \<Rightarrow> string \<Rightarrow> int \<Rightarrow> Limiter \<Rightarrow> bool \<times> Limiter" where
  "Allow now key limit l =
     (case map_of (entries l) key of
        None \<Rightarrow>
          (True, l\<lparr>entries := AList.update key \<lparr>tokens = real_of_int (limit - 1), lastCheck = now\<rparr> (entries l)\<rparr>)
      | Some e \<Rightarrow>
          (let elapsed = now - lastCheck e;
               rate = real_of_int limit / Seconds (window l);
               refilled = tokens e + Seconds elapsed * rate;
               t = (if real_of_int limit < refilled then real_of_int limit else refilled)
           in if t < 1 then (False, l\<lparr>entries := AList.update key \<lparr>tokens = t, lastCheck = now\<rparr> (entries l)\<rparr>)
              else (True, l\<lparr>entries := AList.update key \<lparr>tokens = t - 1, lastCheck = now\<rparr> (entries l)\<rparr>)))"

definition ResetKey :: "string \<Rightarrow> Limiter \<Rightarrow> Limiter" where
  "ResetKey key l = l\<lparr>entries := AList.delete key (entries l)\<rparr>"

definition cleanup :: "int \<Rightarrow> Limiter \<Rightarrow> Limiter" where
  "cleanup now l =
     (let cutoff = now - 2 * window l
      in l\<lparr>entries := filter (\<lambda>(_, e). \<not> lastCheck e < cutoff) (entries l)\<rparr>)"

section \<open>One bucket\<close>

text \<open>What \<open>Allow\<close> does to the bucket of its own key, and that it does nothing to the others.\<close>

definition refill :: "int \<Rightarrow> int \<Rightarrow> int \<Rightarrow> entry \<Rightarrow> real" where
  "refill w now limit e =
     min (real_of_int limit) (tokens e + real_of_int (now - lastCheck e) * (real_of_int limit / real_of_int w))"

lemma Seconds_rate: "Seconds a * (r / Seconds w) = real_of_int a * (r / real_of_int w)"
  by (simp add: Seconds_def)

lemma Allow_alt:
  "Allow now key limit l =
     (case map_of (entries l) key of
        None \<Rightarrow> (True, l\<lparr>entries := AList.update key \<lparr>tokens = real_of_int (limit - 1), lastCheck = now\<rparr> (entries l)\<rparr>)
      | Some e \<Rightarrow>
          (1 \<le> refill (window l) now limit e,
           l\<lparr>entries := AList.update key \<lparr>tokens = refill (window l) now limit e -
              (if 1 \<le> refill (window l) now limit e then 1 else 0), lastCheck = now\<rparr> (entries l)\<rparr>))"
proof -
  have m: "(if a < b then a else b) = min a b" for a b :: real by simp
  show ?thesis
    unfolding Allow_def Let_def Seconds_rate m refill_def [symmetric] by (simp split: option.split)
qed

lemma Allow_other:
  "k \<noteq> key \<Longrightarrow> map_of (entries (snd (Allow now key limit l))) k = map_of (entries l) k"
  by (auto simp: Allow_alt update_conv' split: option.splits)

lemma Allow_window [simp]: "window (snd (Allow now key limit l)) = window l"
  by (auto simp: Allow_alt split: option.splits)

lemma Allow_some: "\<exists>e. map_of (entries (snd (Allow now key limit l))) key = Some e \<and> lastCheck e = now"
  by (auto simp: Allow_alt update_conv' split: option.splits)

section \<open>A sequence of requests\<close>

text \<open>Requests of any keys at given times; the result counts those of \<open>key\<close> that are allowed.\<close>

fun allowRun :: "string \<Rightarrow> int \<Rightarrow> (int \<times> string) list \<Rightarrow> Limiter \<Rightarrow> nat" where
  "allowRun key limit [] l = 0"
| "allowRun key limit ((now, k) # reqs) l =
     (case Allow now k limit l of (ok, l') \<Rightarrow>
        (if ok \<and> k = key then 1 else 0) + allowRun key limit reqs l')"

lemma allowRun_bound_some:
  assumes "0 < w" and "0 < limit" and "sorted (map fst reqs)" and "\<forall>r \<in> set reqs. t \<le> fst r \<and> fst r \<le> tend"
    and "window l = w" and "map_of (entries l) key = Some e" and "lastCheck e \<le> t" and "t \<le> tend" and "0 \<le> tokens e"
  shows "real (allowRun key limit reqs l) \<le>
    tokens e + real_of_int (tend - lastCheck e) * (real_of_int limit / real_of_int w)"
  using assms
proof (induction reqs arbitrary: l e t)
  case Nil
  then show ?case by simp
next
  case (Cons r reqs)
  obtain now k where r: "r = (now, k)" by fastforce
  let ?l' = "snd (Allow now k limit l)" and ?rate = "real_of_int limit / real_of_int w"
  have rate: "0 \<le> ?rate" using Cons.prems(1,2) by simp
  have srt: "sorted (map fst reqs)" "\<forall>x \<in> set reqs. now \<le> fst x \<and> fst x \<le> tend" "now \<le> tend" "t \<le> now"
    using Cons.prems(3,4) r by auto
  have step: "allowRun key limit (r # reqs) l =
      (if fst (Allow now k limit l) \<and> k = key then 1 else 0) + allowRun key limit reqs ?l'"
    by (simp add: r case_prod_beta)
  show ?case
  proof (cases "k = key")
    case False
    then have m: "map_of (entries ?l') key = Some e" using Allow_other [of key k] Cons.prems(6) by simp
    have "real (allowRun key limit reqs ?l') \<le> tokens e + real_of_int (tend - lastCheck e) * ?rate"
      by (rule Cons.IH [OF Cons.prems(1,2) srt(1,2) _ m _ srt(3) Cons.prems(9)])
        (use Cons.prems srt in auto)
    with False show ?thesis by (simp add: step)
  next
    case True
    let ?t = "refill w now limit e"
    let ?e = "\<lparr>tokens = ?t - (if 1 \<le> ?t then 1 else 0), lastCheck = now\<rparr>"
    have A: "fst (Allow now k limit l) = (1 \<le> ?t)" "map_of (entries ?l') key = Some ?e"
      using Cons.prems(5,6) True by (simp_all add: Allow_alt update_conv')
    have nonneg: "0 \<le> ?t"
      using Cons.prems rate srt by (auto simp: refill_def)
    have "real (allowRun key limit reqs ?l') \<le> tokens ?e + real_of_int (tend - lastCheck ?e) * ?rate"
      by (rule Cons.IH [OF Cons.prems(1,2) srt(1,2) _ A(2) _ srt(3)])
        (use Cons.prems nonneg in auto)
    then have "real (allowRun key limit reqs ?l') \<le>
        ?t - (if 1 \<le> ?t then 1 else 0) + real_of_int (tend - now) * ?rate" by (simp only: entry.simps)
    moreover have "?t \<le> tokens e + real_of_int (now - lastCheck e) * ?rate" by (simp add: refill_def)
    moreover have "real_of_int (now - lastCheck e) * ?rate + real_of_int (tend - now) * ?rate =
        real_of_int (tend - lastCheck e) * ?rate"
      by (simp only: distrib_right [symmetric] of_int_add [symmetric]) simp
    moreover have "real (allowRun key limit (r # reqs) l) =
        (if 1 \<le> ?t then 1 else 0) + real (allowRun key limit reqs ?l')"
      unfolding step A(1) using True by simp
    ultimately show ?thesis by linarith
  qed
qed

text \<open>Every bucket of a limiter that is used with one positive limit holds between 0 and \<open>limit\<close> tokens.\<close>

definition wf_limiter :: "int \<Rightarrow> Limiter \<Rightarrow> bool" where
  "wf_limiter limit l \<longleftrightarrow> 0 < window l \<and> 0 < limit \<and> distinct (map fst (entries l)) \<and>
     (\<forall>(k, e) \<in> set (entries l). 0 \<le> tokens e \<and> tokens e \<le> real_of_int limit)"

lemma wf_limiter_update:
  assumes "wf_limiter limit l" and "0 \<le> tokens e" and "tokens e \<le> real_of_int limit"
  shows "wf_limiter limit (l\<lparr>entries := AList.update k e (entries l)\<rparr>)"
proof -
  have "0 \<le> tokens e' \<and> tokens e' \<le> real_of_int limit" if "(k', e') \<in> set (AList.update k e (entries l))" for k' e'
    using in_set_update [OF that] assms by (auto simp: wf_limiter_def)
  with assms(1) show ?thesis by (auto simp: wf_limiter_def distinct_update)
qed

lemma wf_limiterD: "wf_limiter limit l \<Longrightarrow> map_of (entries l) k = Some e \<Longrightarrow> 0 \<le> tokens e \<and> tokens e \<le> real_of_int limit"
  by (auto simp: wf_limiter_def dest!: map_of_SomeD)

lemma allowRun_bound:
  assumes "0 < window l" and "0 < limit" and "sorted (map fst reqs)"
    and "\<forall>r \<in> set reqs. t0 \<le> fst r \<and> fst r \<le> tend" and "t0 \<le> tend" and "map_of (entries l) key = None"
  shows "real (allowRun key limit reqs l) \<le>
    real_of_int limit + real_of_int (tend - t0) * real_of_int limit / real_of_int (window l)"
  using assms
proof (induction reqs arbitrary: l)
  case Nil
  then show ?case by (auto intro!: add_nonneg_nonneg divide_nonneg_nonneg mult_nonneg_nonneg)
next
  case (Cons r reqs)
  obtain now k where r: "r = (now, k)" by fastforce
  let ?l' = "snd (Allow now k limit l)"
  have srt: "sorted (map fst reqs)" "\<forall>x \<in> set reqs. now \<le> fst x \<and> fst x \<le> tend" "t0 \<le> now" "now \<le> tend"
    using Cons.prems(3,4) r by auto
  have step: "allowRun key limit (r # reqs) l =
      (if fst (Allow now k limit l) \<and> k = key then 1 else 0) + allowRun key limit reqs ?l'"
    by (simp add: r case_prod_beta)
  have rate: "0 \<le> real_of_int limit / real_of_int (window l)" using Cons.prems(1,2) by simp
  show ?case
  proof (cases "k = key")
    case False
    then have "map_of (entries ?l') key = None" using Allow_other [of key k] Cons.prems(6) by simp
    then have "real (allowRun key limit reqs ?l') \<le>
        real_of_int limit + real_of_int (tend - t0) * real_of_int limit / real_of_int (window l)"
      using Cons.IH [of ?l'] Cons.prems srt by simp
    then show ?thesis using False by (simp add: step)
  next
    case True
    let ?e = "\<lparr>tokens = real_of_int (limit - 1), lastCheck = now\<rparr>"
    have A: "fst (Allow now k limit l)" "map_of (entries ?l') key = Some ?e"
      using Cons.prems(6) True by (simp_all add: Allow_alt update_conv')
    have "real (allowRun key limit reqs ?l') \<le>
        tokens ?e + real_of_int (tend - lastCheck ?e) * (real_of_int limit / real_of_int (window l))"
      by (rule allowRun_bound_some [OF Cons.prems(1,2) srt(1,2) _ A(2) _ srt(4)]) (use Cons.prems(2) in auto)
    moreover have "real_of_int (tend - now) * (real_of_int limit / real_of_int (window l)) \<le>
        real_of_int (tend - t0) * (real_of_int limit / real_of_int (window l))"
      using rate srt by (intro mult_right_mono) auto
    ultimately show ?thesis using True A(1) by (simp add: step)
  qed
qed

section \<open>Properties\<close>

text \<open>
  C22. The rate bound: whatever requests (of any keys, at non-decreasing times) are made, the number
  of allowed requests of a key not seen before is at most the burst \<open>limit\<close> plus the tokens that
  refill during the observed time, \<open>limit\<close> per window.
\<close>

theorem rate_bound:
  assumes "0 < window l" and "0 < limit" and "sorted (map fst reqs)"
    and "\<forall>r \<in> set reqs. t0 \<le> fst r \<and> fst r \<le> tend" and "t0 \<le> tend" and "map_of (entries l) key = None"
  shows "real (allowRun key limit reqs l) \<le>
    real_of_int limit + real_of_int (tend - t0) * real_of_int limit / real_of_int (window l)"
  by (rule allowRun_bound [OF assms])

theorem rate_bound_witness:
  "real (allowRun ''k'' 2 [(0, ''k''), (1, ''k''), (2, ''k'')] (NewLimiter 1000000000)) \<le> 2 + 4 / 1000000000"
  using rate_bound [of "NewLimiter 1000000000" 2 "[(0, ''k''), (1, ''k''), (2, ''k'')]" 0 2 "''k''"]
  by (simp add: NewLimiter_def)

text \<open>
  Cleaning up is unobservable: after a cleanup every request, of any key and from the time of
  the cleanup on, is decided as it would have been without it, and leaves the same bucket behind.
\<close>

theorem cleanup_transparent:
  assumes "wf_limiter limit l" and "now \<le> now'"
  shows "fst (Allow now' key limit (cleanup now l)) = fst (Allow now' key limit l) \<and>
    map_of (entries (snd (Allow now' key limit (cleanup now l)))) key =
    map_of (entries (snd (Allow now' key limit l))) key"
proof -
  have d: "distinct (map fst (entries l))" "0 < window l" "0 < limit" using assms(1) by (simp_all add: wf_limiter_def)
  let ?P = "\<lambda>e. \<not> lastCheck e < now - 2 * window l"
  have c: "map_of (entries (cleanup now l)) key = (case map_of (entries l) key of None \<Rightarrow> None | Some e \<Rightarrow> if ?P e then Some e else None)"
    unfolding cleanup_def Let_def using map_of_filter_val [OF d(1), of ?P] by simp
  have w: "window (cleanup now l) = window l" by (simp add: cleanup_def Let_def)
  show ?thesis
  proof (cases "map_of (entries l) key")
    case None
    then show ?thesis by (simp add: Allow_alt c update_conv')
  next
    case (Some e)
    show ?thesis
    proof (cases "?P e")
      case True
      then show ?thesis using Some by (simp add: Allow_alt c w update_conv')
    next
      case False
      then have "window l \<le> now' - lastCheck e" using assms(2) d(2) by linarith
      then have "1 \<le> real_of_int (now' - lastCheck e) / real_of_int (window l)" using d(2) by simp
      then have "real_of_int limit * 1 \<le> real_of_int limit * (real_of_int (now' - lastCheck e) / real_of_int (window l))"
        using d(3) by (intro mult_left_mono) auto
      then have "refill (window l) now' limit e = real_of_int limit"
        using wf_limiterD [OF assms(1) Some] by (simp add: refill_def min_def algebra_simps)
      with False Some d(3) show ?thesis by (simp add: Allow_alt c update_conv')
    qed
  qed
qed

theorem cleanup_transparent_witness:
  "fst (Allow 99 ''k'' 1 (cleanup 90 \<lparr>entries = [(''k'', \<lparr>tokens = 0, lastCheck = 1\<rparr>)], window = 10\<rparr>)) =
   fst (Allow 99 ''k'' 1 \<lparr>entries = [(''k'', \<lparr>tokens = 0, lastCheck = 1\<rparr>)], window = 10\<rparr>)"
  using cleanup_transparent [of 1 "\<lparr>entries = [(''k'', \<lparr>tokens = 0, lastCheck = 1\<rparr>)], window = 10\<rparr>" 90 99 "''k''"]
  by (simp add: wf_limiter_def)

end
