(* ===== verification/Json.thy ===== *)
theory Json
  imports Prelude
begin

text \<open>
  The part of Go's \<open>encoding/json\<close> the platform relies on: rendering of values (with the HTML-safe
  escaping of \<open>json.Marshal\<close>) and the reader behind \<open>json.Unmarshal\<close>. A number is kept as its
  literal, as Go's decoder does until it knows the target type. The reader takes fuel, one unit
  per nested call; \<open>parse_render\<close> shows that the fuel \<open>Unmarshal\<close> grants suffices for every
  rendered value. Texts are taken to be valid UTF-8 (Go replaces invalid sequences).
\<close>

datatype json =
  JNull
| JBool bool
| JNum string
| JStr string
| JArr "json list"
| JObj "(string \<times> json) list"

section \<open>Rendering\<close>

definition hexDigit :: "nat \<Rightarrow> char" where
  "hexDigit n = (if n < 10 then char_of (48 + n) else char_of (87 + n))"

abbreviation cQuote :: char where "cQuote \<equiv> CHR 0x22"
abbreviation cBack :: char where "cBack \<equiv> CHR 0x5C"

text \<open>Bytes below 0x80 that need no escape (\<open>htmlSafeSet\<close>).\<close>

definition htmlSafe :: "char \<Rightarrow> bool" where
  "htmlSafe c \<longleftrightarrow> CHR 0x20 \<le> c \<and> c \<notin> {cQuote, cBack, CHR ''<'', CHR ''>'', CHR ''&''}"

definition escChar :: "char \<Rightarrow> string" where
  "escChar c =
     (if htmlSafe c then [c]
      else if c = cBack \<or> c = cQuote then [cBack, c]
      else if c = CHR 0x08 then [cBack, CHR ''b'']
      else if c = CHR 0x0C then [cBack, CHR ''f'']
      else if c = CHR 0x0A then [cBack, CHR ''n'']
      else if c = CHR 0x0D then [cBack, CHR ''r'']
      else if c = CHR 0x09 then [cBack, CHR ''t'']
      else [cBack, CHR ''u'', CHR ''0'', CHR ''0'',
            hexDigit (of_char c div 16), hexDigit (of_char c mod 16)])"

text \<open>U+2028 and U+2029 (bytes E2 80 A8 and E2 80 A9) are escaped as well.\<close>

fun escape :: "string \<Rightarrow> string" where
  "escape (a # b # c # s) =
     (if a = CHR 0xE2 \<and> b = CHR 0x80 \<and> (c = CHR 0xA8 \<or> c = CHR 0xA9)
      then [cBack, CHR ''u'', CHR ''2'', CHR ''0'', CHR ''2'',
            hexDigit (if c = CHR 0xA8 then 8 else 9)] @ escape s
      else escChar a @ escape (b # c # s))"
| "escape (a # s) = escChar a @ escape s"
| "escape [] = []"

fun render :: "json \<Rightarrow> string" where
  "render JNull = ''null''"
| "render (JBool b) = (if b then ''true'' else ''false'')"
| "render (JNum l) = l"
| "render (JStr s) = cQuote # escape s @ [cQuote]"
| "render (JArr vs) = CHR ''['' # Join (map render vs) '','' @ '']''"
| "render (JObj ms) =
     CHR ''{'' # Join (map (\<lambda>(k, v). cQuote # escape k @ [cQuote] @ '':'' @ render v) ms) '','' @ ''}''"

section \<open>Reading\<close>

definition isWS :: "char \<Rightarrow> bool" where
  "isWS c \<longleftrightarrow> c = CHR '' '' \<or> c = CHR 0x09 \<or> c = CHR 0x0D \<or> c = CHR 0x0A"

abbreviation skipWS :: "string \<Rightarrow> string" where
  "skipWS s \<equiv> dropWhile isWS s"

definition hexVal :: "char \<Rightarrow> nat option" where
  "hexVal c =
     (if CHR ''0'' \<le> c \<and> c \<le> CHR ''9'' then Some (of_char c - 48)
      else if CHR ''a'' \<le> c \<and> c \<le> CHR ''f'' then Some (of_char c - 87)
      else if CHR ''A'' \<le> c \<and> c \<le> CHR ''F'' then Some (of_char c - 55)
      else None)"

fun hex4 :: "string \<Rightarrow> nat option" where
  "hex4 (a # b # c # d # _) =
     (case (hexVal a, hexVal b, hexVal c, hexVal d) of
        (Some x, Some y, Some z, Some w) \<Rightarrow> Some (((x * 16 + y) * 16 + z) * 16 + w)
      | _ \<Rightarrow> None)"
| "hex4 _ = None"

definition utf8 :: "nat \<Rightarrow> string" where
  "utf8 n =
     (if n < 0x80 then [char_of n]
      else if n < 0x800 then [char_of (0xC0 + n div 64), char_of (0x80 + n mod 64)]
      else if n < 0x10000 then
        [char_of (0xE0 + n div 4096), char_of (0x80 + n div 64 mod 64), char_of (0x80 + n mod 64)]
      else [char_of (0xF0 + n div 262144), char_of (0x80 + n div 4096 mod 64),
            char_of (0x80 + n div 64 mod 64), char_of (0x80 + n mod 64)])"

definition unescape1 :: "char \<Rightarrow> char option" where
  "unescape1 e =
     (if e = cQuote \<or> e = cBack \<or> e = CHR ''/'' then Some e
      else if e = CHR ''b'' then Some (CHR 0x08)
      else if e = CHR ''f'' then Some (CHR 0x0C)
      else if e = CHR ''n'' then Some (CHR 0x0A)
      else if e = CHR ''r'' then Some (CHR 0x0D)
      else if e = CHR ''t'' then Some (CHR 0x09)
      else None)"

text \<open>The second half of a surrogate pair, if the text continues with one.\<close>

definition lowSurrogate :: "string \<Rightarrow> nat option" where
  "lowSurrogate s =
     (case s of
        c # e # r \<Rightarrow>
          (if c = cBack \<and> e = CHR ''u'' then
             (case hex4 r of
                Some l \<Rightarrow> if 0xDC00 \<le> l \<and> l \<le> 0xDFFF then Some l else None
              | None \<Rightarrow> None)
           else None)
      | _ \<Rightarrow> None)"

text \<open>A string body after its opening quote: its bytes and the text after the closing quote.\<close>

function parseStr :: "string \<Rightarrow> (string \<times> string) option" where
  "parseStr [] = None"
| "parseStr (c # cs) =
     (if c = cQuote then Some ([], cs)
      else if c = cBack then
        (case cs of
           [] \<Rightarrow> None
         | e # r \<Rightarrow>
             (if e = CHR ''u'' then
                (case hex4 r of
                   None \<Rightarrow> None
                 | Some h \<Rightarrow>
                     (if 0xD800 \<le> h \<and> h \<le> 0xDFFF then
                        (case lowSurrogate (drop 4 r) of
                           Some l \<Rightarrow>
                             (if h \<le> 0xDBFF then
                                map_option (\<lambda>(s, t). (utf8 (0x10000 + (h - 0xD800) * 1024 + (l - 0xDC00)) @ s, t))
                                  (parseStr (drop 10 r))
                              else map_option (\<lambda>(s, t). (utf8 0xFFFD @ s, t)) (parseStr (drop 4 r)))
                         | None \<Rightarrow> map_option (\<lambda>(s, t). (utf8 0xFFFD @ s, t)) (parseStr (drop 4 r)))
                      else map_option (\<lambda>(s, t). (utf8 h @ s, t)) (parseStr (drop 4 r))))
              else
                (case unescape1 e of
                   None \<Rightarrow> None
                 | Some ch \<Rightarrow> map_option (\<lambda>(s, t). (ch # s, t)) (parseStr r))))
      else if c < CHR 0x20 then None
      else map_option (\<lambda>(s, t). (c # s, t)) (parseStr cs))"
  by pat_completeness auto
termination
  by (relation "measure length") auto

text \<open>A number literal: sign, integer part without leading zeros, fraction, exponent.\<close>

definition parseFrac :: "string \<Rightarrow> (string \<times> string) option" where
  "parseFrac s =
     (case s of
        c # r \<Rightarrow>
          (if c = CHR ''.'' then
             (if takeWhile IsDigit r = [] then None
              else Some (c # takeWhile IsDigit r, dropWhile IsDigit r))
           else Some ([], s))
      | [] \<Rightarrow> Some ([], s))"

definition parseExp :: "string \<Rightarrow> (string \<times> string) option" where
  "parseExp s =
     (case s of
        c # r \<Rightarrow>
          (if c = CHR ''e'' \<or> c = CHR ''E'' then
             (let sg = (case r of x # _ \<Rightarrow> if x = CHR ''+'' \<or> x = CHR ''-'' then [x] else [] | [] \<Rightarrow> []);
                  r' = drop (length sg) r
              in if takeWhile IsDigit r' = [] then None
                 else Some (c # sg @ takeWhile IsDigit r', dropWhile IsDigit r'))
           else Some ([], s))
      | [] \<Rightarrow> Some ([], s))"

definition parseDigits :: "string \<Rightarrow> (string \<times> string) option" where
  "parseDigits s =
     (case s of
        c # r \<Rightarrow>
          (if c = CHR ''0'' then Some ([c], r)
           else if IsDigit c then Some (takeWhile IsDigit s, dropWhile IsDigit s)
           else None)
      | [] \<Rightarrow> None)"

definition parseNum :: "string \<Rightarrow> (string \<times> string) option" where
  "parseNum s =
     (let sg = (case s of c # _ \<Rightarrow> if c = CHR ''-'' then [c] else [] | [] \<Rightarrow> [])
      in case parseDigits (drop (length sg) s) of
           None \<Rightarrow> None
         | Some (ds, r) \<Rightarrow>
             (case parseFrac r of
                None \<Rightarrow> None
              | Some (fr, r') \<Rightarrow>
                  (case parseExp r' of
                     None \<Rightarrow> None
                   | Some (ex, r'') \<Rightarrow> Some (sg @ ds @ fr @ ex, r''))))"

fun parseValue :: "nat \<Rightarrow> string \<Rightarrow> (json \<times> string) option"
  and parseElems :: "nat \<Rightarrow> string \<Rightarrow> (json list \<times> string) option"
  and parseMembers :: "nat \<Rightarrow> string \<Rightarrow> ((string \<times> json) list \<times> string) option"
where
  "parseValue 0 s = None"
| "parseValue (Suc n) s =
     (case skipWS s of
        [] \<Rightarrow> None
      | c # r \<Rightarrow>
          (if c = cQuote then map_option (\<lambda>(x, t). (JStr x, t)) (parseStr r)
           else if c = CHR ''['' then
             (case skipWS r of
                [] \<Rightarrow> None
              | d # t \<Rightarrow>
                  (if d = CHR '']'' then Some (JArr [], t)
                   else map_option (\<lambda>(x, t). (JArr x, t)) (parseElems n r)))
           else if c = CHR ''{'' then
             (case skipWS r of
                [] \<Rightarrow> None
              | d # t \<Rightarrow>
                  (if d = CHR ''}'' then Some (JObj [], t)
                   else map_option (\<lambda>(x, t). (JObj x, t)) (parseMembers n r)))
           else if HasPrefix (c # r) ''null'' then Some (JNull, drop 3 r)
           else if HasPrefix (c # r) ''true'' then Some (JBool True, drop 3 r)
           else if HasPrefix (c # r) ''false'' then Some (JBool False, drop 4 r)
           else map_option (\<lambda>(x, t). (JNum x, t)) (parseNum (c # r))))"
| "parseElems 0 s = None"
| "parseElems (Suc n) s =
     (case parseValue n s of
        None \<Rightarrow> None
      | Some (v, r) \<Rightarrow>
          (case skipWS r of
             [] \<Rightarrow> None
           | c # t \<Rightarrow>
               (if c = CHR '','' then map_option (\<lambda>(vs, u). (v # vs, u)) (parseElems n t)
                else if c = CHR '']'' then Some ([v], t)
                else None)))"
| "parseMembers 0 s = None"
| "parseMembers (Suc n) s =
     (case skipWS s of
        [] \<Rightarrow> None
      | q # r \<Rightarrow>
          (if q = cQuote then
             (case parseStr r of
                None \<Rightarrow> None
              | Some (k, r') \<Rightarrow>
                  (case skipWS r' of
                     [] \<Rightarrow> None
                   | d # t \<Rightarrow>
                       (if d = CHR '':'' then
                          (case parseValue n t of
                             None \<Rightarrow> None
                           | Some (v, u) \<Rightarrow>
                               (case skipWS u of
                                  [] \<Rightarrow> None
                                | c # w \<Rightarrow>
                                    (if c = CHR '','' then
                                       map_option (\<lambda>(ms, x). ((k, v) # ms, x)) (parseMembers n w)
                                     else if c = CHR ''}'' then Some ([(k, v)], w)
                                     else None)))
                        else None)))
           else None))"

text \<open>The whole input is one value, surrounded by white space.\<close>

definition parseJson :: "string \<Rightarrow> json option" where
  "parseJson s =
     (case parseValue (2 * length s + 2) s of
        Some (v, r) \<Rightarrow> if skipWS r = [] then Some v else None
      | None \<Rightarrow> None)"

section \<open>Integers\<close>

text \<open>\<open>strconv.ParseInt(_, 10, 64)\<close> on a number literal: \<open>None\<close> for a fraction, an exponent or a
  value outside the signed 64-bit range.\<close>

definition digitsVal :: "string \<Rightarrow> nat" where
  "digitsVal ds = foldl (\<lambda>a c. a * 10 + (of_char c - 48)) 0 ds"

definition ParseInt :: "string \<Rightarrow> int option" where
  "ParseInt l =
     (let neg = (l \<noteq> [] \<and> hd l = CHR ''-'');
          ds = (if neg then tl l else l)
      in if ds = [] \<or> \<not> list_all IsDigit ds then None
         else (let v = (if neg then - int (digitsVal ds) else int (digitsVal ds))
               in if - (2 ^ 63) \<le> v \<and> v < 2 ^ 63 then Some v else None))"

definition int64 :: "int \<Rightarrow> bool" where
  "int64 i \<longleftrightarrow> - (2 ^ 63) \<le> i \<and> i < 2 ^ 63"

definition jint :: "int \<Rightarrow> json" where
  "jint i = JNum (show_int i)"

section \<open>Decimal literals\<close>

lemma of_char_digit [simp]: "k < 10 \<Longrightarrow> of_char (char_of (48 + k :: nat)) = 48 + k"
  by (simp add: of_char_of)

lemma IsDigit_digit [simp]: "k < 10 \<Longrightarrow> IsDigit (char_of (48 + k :: nat))"
  by (simp add: IsDigit_def char_le_nat)

lemma show_nat_digits: "list_all IsDigit (show_nat n) \<and> show_nat n \<noteq> []"
proof (induction n rule: show_nat.induct)
  case (1 n)
  then show ?case by (subst (1 2) show_nat.simps) auto
qed

lemma digitsVal_snoc: "digitsVal (ds @ [c]) = digitsVal ds * 10 + (of_char c - 48)"
  by (simp add: digitsVal_def)

lemma digitsVal_show_nat: "digitsVal (show_nat n) = n"
proof (induction n rule: show_nat.induct)
  case (1 n)
  show ?case
  proof (cases "n < 10")
    case True
    then show ?thesis by (subst show_nat.simps) (simp add: digitsVal_def)
  next
    case False
    with 1 have "digitsVal (show_nat (n div 10)) = n div 10" by simp
    moreover have "digitsVal (show_nat n) = digitsVal (show_nat (n div 10)) * 10 + n mod 10"
      using False by (subst show_nat.simps) (simp add: digitsVal_snoc)
    ultimately show ?thesis by simp
  qed
qed

lemma hd_show_nat: "hd (show_nat n) = CHR ''0'' \<Longrightarrow> n = 0"
proof (induction n rule: show_nat.induct)
  case (1 n)
  show ?case
  proof (cases "n < 10")
    case True
    with 1(2) have "(of_char (char_of (48 + n) :: char) :: nat) = of_char CHR ''0''"
      by (subst (asm) show_nat.simps) simp
    with True show ?thesis by (simp add: of_char_digit del: of_char_of)
  next
    case False
    with 1(2) have "hd (show_nat (n div 10)) = CHR ''0''"
      using show_nat_digits [of "n div 10"] by (subst (asm) show_nat.simps) simp
    with 1(1) False have "n div 10 = 0" by blast
    with False show ?thesis by simp
  qed
qed

lemma show_nat_0: "show_nat 0 = ''0''"
  by code_simp

lemma IsDigit_minus [simp]: "\<not> IsDigit CHR ''-''"
  by code_simp

lemma ParseInt_show_int: "int64 i \<Longrightarrow> ParseInt (show_int i) = Some i"
proof -
  assume i: "int64 i"
  show ?thesis
  proof (cases "i < 0")
    case True
    with i show ?thesis
      using show_nat_digits [of "nat (- i)"]
      by (simp add: ParseInt_def show_int_def Let_def digitsVal_show_nat int64_def)
  next
    case False
    have "hd (show_nat (nat i)) \<noteq> CHR ''-''"
      using show_nat_digits [of "nat i"] by (cases "show_nat (nat i)") auto
    with i False show ?thesis
      using show_nat_digits [of "nat i"]
      by (simp add: ParseInt_def show_int_def Let_def digitsVal_show_nat int64_def)
  qed
qed

text \<open>What may follow a number literal.\<close>

definition numEnd :: "string \<Rightarrow> bool" where
  "numEnd r \<longleftrightarrow> r = [] \<or> (\<not> IsDigit (hd r) \<and> hd r \<notin> {CHR ''.'', CHR ''e'', CHR ''E''})"

lemma parseDigits_show_nat:
  assumes "numEnd r"
  shows "parseDigits (show_nat n @ r) = Some (show_nat n, r)"
proof -
  obtain c cs where cs: "show_nat n = c # cs"
    using show_nat_digits [of n] by (cases "show_nat n") auto
  have dig: "IsDigit c" "list_all IsDigit cs"
    using show_nat_digits [of n] by (auto simp: cs)
  have tw: "takeWhile IsDigit (cs @ r) = cs" "dropWhile IsDigit (cs @ r) = r"
    using dig(2) assms by (cases r; auto simp: numEnd_def list_all_iff takeWhile_append dropWhile_append)+
  show ?thesis
  proof (cases "c = CHR ''0''")
    case True
    with hd_show_nat [of n] have "n = 0" by (simp add: cs)
    with cs have "cs = []" by (simp add: show_nat_0)
    with True show ?thesis by (simp add: cs parseDigits_def)
  next
    case False
    with dig tw show ?thesis by (simp add: cs parseDigits_def)
  qed
qed

lemma parseNum_show_int:
  assumes "numEnd r"
  shows "parseNum (show_int i @ r) = Some (show_int i, r)"
proof -
  have fe: "parseFrac r = Some ([], r)" "parseExp r = Some ([], r)"
    using assms by (auto simp: parseFrac_def parseExp_def numEnd_def split: list.splits)
  have "hd (show_nat n) \<noteq> CHR ''-''" for n
    using show_nat_digits [of n] by (cases "show_nat n") auto
  moreover have "show_nat n \<noteq> []" for n using show_nat_digits [of n] by simp
  ultimately have nosign: "(case show_nat n @ r of c # _ \<Rightarrow> if c = CHR ''-'' then [c] else [] | [] \<Rightarrow> []) = []" for n
    by (cases "show_nat n") (auto simp: hd_append split: list.splits, metis list.sel(1))
  show ?thesis
    by (simp add: parseNum_def show_int_def Let_def parseDigits_show_nat [OF assms] fe nosign)
qed

section \<open>Strings\<close>

lemma hexVal_hexDigit: "n < 16 \<Longrightarrow> hexVal (hexDigit n) = Some n"
  by (auto simp: hexVal_def hexDigit_def char_le_nat of_char_of)

declare parseStr.simps(2) [simp del]

lemma parseStr_quote [simp]: "parseStr (cQuote # r) = Some ([], r)"
  by (simp add: parseStr.simps)

lemma hex4_byte:
  fixes c :: char
  assumes "of_char c < (0x80 :: nat)"
  shows "hex4 (CHR ''0'' # CHR ''0'' # hexDigit (of_char c div 16) # hexDigit (of_char c mod 16) # r) =
    Some (of_char c)"
proof -
  have "hexVal CHR ''0'' = Some 0" by code_simp
  moreover have "(of_char c :: nat) div 16 < 16" using assms by simp
  ultimately show ?thesis by (simp add: hexVal_hexDigit)
qed

lemma parseStr_escChar:
  "parseStr (escChar c @ t) = map_option (\<lambda>(s, r). (c # s, r)) (parseStr t)"
proof (cases "htmlSafe c")
  case True
  then have "c \<noteq> cQuote" "c \<noteq> cBack" "\<not> c < CHR 0x20"
    by (auto simp: htmlSafe_def)
  with True show ?thesis by (simp add: escChar_def parseStr.simps)
next
  case False
  note unsafe = this
  then have small: "of_char c < (0x80 :: nat)"
    by (auto simp: htmlSafe_def char_le_nat)
  have u: "parseStr (cBack # CHR ''u'' # CHR ''0'' # CHR ''0'' #
      hexDigit (of_char c div 16) # hexDigit (of_char c mod 16) # t) =
      map_option (\<lambda>(s, r). (c # s, r)) (parseStr t)"
    using small
    by (subst parseStr.simps(2)) (simp add: hex4_byte [OF small] utf8_def del: hex4.simps)
  have s: "parseStr (cBack # e # t) = map_option (\<lambda>(s, r). (ch # s, r)) (parseStr t)"
    if "unescape1 e = Some ch" and "e \<noteq> CHR ''u''" for e ch
    using that by (subst parseStr.simps(2)) simp
  show ?thesis
    using unsafe u s [of cBack cBack] s [of cQuote cQuote] s [of "CHR ''b''" "CHR 0x08"]
      s [of "CHR ''f''" "CHR 0x0C"] s [of "CHR ''n''" "CHR 0x0A"] s [of "CHR ''r''" "CHR 0x0D"]
      s [of "CHR ''t''" "CHR 0x09"]
    by (simp add: escChar_def unescape1_def)
qed

lemma parseStr_u202:
  assumes "k = 8 \<or> k = 9"
  shows "parseStr ([cBack, CHR ''u'', CHR ''2'', CHR ''0'', CHR ''2'', hexDigit k] @ t) =
    map_option (\<lambda>(s, r). (CHR 0xE2 # CHR 0x80 # char_of (160 + k) # s, r)) (parseStr t)"
proof -
  have h: "hexVal CHR ''2'' = Some 2" "hexVal CHR ''0'' = Some 0" by code_simp+
  have "k < 16" using assms by auto
  then have "hex4 (CHR ''2'' # CHR ''0'' # CHR ''2'' # hexDigit k # t) = Some (8224 + k)"
    by (simp add: h hexVal_hexDigit)
  moreover have "char_of (226 :: nat) = CHR 0xE2" "char_of (128 :: nat) = CHR 0x80" by code_simp+
  then have "utf8 (8224 + k) = [CHR 0xE2, CHR 0x80, char_of (160 + k)]"
    using assms by (auto simp: utf8_def)
  ultimately show ?thesis
    using assms by (simp add: parseStr.simps(2) [of cBack] del: hex4.simps) auto
qed

lemma parseStr_escape: "parseStr (escape s @ cQuote # r) = Some (s, r)"
proof (induction s rule: escape.induct)
  case (1 a b c s)
  show ?case
  proof (cases "a = CHR 0xE2 \<and> b = CHR 0x80 \<and> (c = CHR 0xA8 \<or> c = CHR 0xA9)")
    case True
    define k :: nat where "k = (if c = CHR 0xA8 then 8 else 9)"
    have k: "k = 8 \<or> k = 9" by (simp add: k_def)
    have "char_of (168 :: nat) = CHR 0xA8" "char_of (169 :: nat) = CHR 0xA9" by code_simp+
    with True have "char_of (160 + k) = c" by (auto simp: k_def)
    with True 1(1) show ?thesis
      using parseStr_u202 [OF k, of "escape s @ cQuote # r"] by (simp add: k_def)
  next
    case False
    with 1(2) show ?thesis by (auto simp: parseStr_escChar)
  qed
qed (simp_all add: parseStr_escChar)

section \<open>Values\<close>

text \<open>Values whose numbers are decimal integers: all the platform renders into segments.\<close>

fun jok :: "json \<Rightarrow> bool" where
  "jok (JNum l) \<longleftrightarrow> l \<in> range show_int"
| "jok (JArr vs) \<longleftrightarrow> list_all jok vs"
| "jok (JObj ms) \<longleftrightarrow> list_all (\<lambda>(k, v). jok v) ms"
| "jok _ \<longleftrightarrow> True"

lemma render_head:
  assumes "jok v"
  shows "\<exists>c cs. render v = c # cs \<and> \<not> isWS c \<and> c \<noteq> CHR '']''"
proof (cases v)
  case (JNum l)
  with assms obtain i where l: "l = show_int i" by auto
  have "\<exists>c cs. show_nat n = c # cs \<and> IsDigit c" for n
    using show_nat_digits [of n] by (cases "show_nat n") auto
  moreover have "\<not> isWS c \<and> c \<noteq> CHR '']''" if "IsDigit c" for c
    using that by (auto simp: isWS_def IsDigit_def char_le_nat)
  ultimately show ?thesis
    using JNum l by (cases "i < 0") (fastforce simp: show_int_def isWS_def)+
qed (auto simp: isWS_def)

lemma skipWS_render:
  assumes "jok v"
  shows "skipWS (render v @ r) = render v @ r"
  using render_head [OF assms] by auto

lemma isWS_punct [simp]:
  "\<not> isWS CHR '',''" "\<not> isWS CHR '']''" "\<not> isWS CHR ''}''" "\<not> isWS CHR '':''" "\<not> isWS cQuote"
  by (simp_all add: isWS_def)

lemma numEnd_punct [simp]: "numEnd (CHR '','' # r)" "numEnd (CHR '']'' # r)" "numEnd (CHR ''}'' # r)"
  by (simp_all add: numEnd_def IsDigit_def char_le_nat)

text \<open>The reader inverts rendering at one value, given the fuel for its length.\<close>

definition reads :: "json \<Rightarrow> bool" where
  "reads v \<longleftrightarrow> (\<forall>n r. 2 * length (render v) \<le> n \<longrightarrow> numEnd r \<longrightarrow>
     parseValue n (render v @ r) = Some (v, r))"

lemma readsD: "reads v \<Longrightarrow> 2 * length (render v) \<le> n \<Longrightarrow> numEnd r \<Longrightarrow>
    parseValue n (render v @ r) = Some (v, r)"
  by (simp add: reads_def)

lemma parseElems_render:
  assumes "vs \<noteq> []" and "\<forall>v \<in> set vs. reads v"
    and "2 * length (Join (map render vs) '','') + 1 \<le> n"
  shows "parseElems n (Join (map render vs) '','' @ '']'' @ r) = Some (vs, r)"
  using assms
proof (induction vs arbitrary: n rule: list_nonempty_induct)
  case (single v)
  then obtain m where n: "n = Suc m" by (cases n) auto
  with single have "parseValue m (render v @ CHR '']'' # r) = Some (v, CHR '']'' # r)"
    by (intro readsD) auto
  with n show ?case by simp
next
  case (cons v vs)
  then obtain m where n: "n = Suc m" by (cases n) auto
  obtain w ws where vs: "vs = w # ws" using cons.hyps by (cases vs) auto
  have "parseValue m (render v @ CHR '','' # Join (map render vs) '','' @ CHR '']'' # r) =
      Some (v, CHR '','' # Join (map render vs) '','' @ CHR '']'' # r)"
    using cons.prems n vs by (intro readsD) auto
  moreover have "parseElems m (Join (map render vs) '','' @ '']'' @ r) = Some (vs, r)"
    using cons.prems n vs by (intro cons.IH) auto
  ultimately show ?case by (simp add: n vs)
qed

definition renderMember :: "string \<times> json \<Rightarrow> string" where
  "renderMember = (\<lambda>(k, v). cQuote # escape k @ [cQuote] @ '':'' @ render v)"

lemma parseMembers_render:
  assumes "ms \<noteq> []" and "\<forall>(k, v) \<in> set ms. reads v"
    and "2 * length (Join (map renderMember ms) '','') + 1 \<le> n"
  shows "parseMembers n (Join (map renderMember ms) '','' @ ''}'' @ r) = Some (ms, r)"
  using assms
proof (induction ms arbitrary: n rule: list_nonempty_induct)
  case (single m)
  obtain k v where m: "m = (k, v)" by fastforce
  obtain n' where n: "n = Suc n'" using single by (cases n) auto
  have "parseValue n' (render v @ CHR ''}'' # r) = Some (v, CHR ''}'' # r)"
    using single n m by (intro readsD) (auto simp: renderMember_def)
  with n m show ?case by (simp add: renderMember_def parseStr_escape)
next
  case (cons m ms)
  obtain k v where m: "m = (k, v)" by fastforce
  obtain n' where n: "n = Suc n'" using cons by (cases n) auto
  obtain w ws where ms: "ms = w # ws" using cons.hyps by (cases ms) auto
  have "parseValue n' (render v @ CHR '','' # Join (map renderMember ms) '','' @ CHR ''}'' # r) =
      Some (v, CHR '','' # Join (map renderMember ms) '','' @ CHR ''}'' # r)"
    using cons.prems n m ms by (intro readsD) (auto simp: renderMember_def)
  moreover have "parseMembers n' (Join (map renderMember ms) '','' @ ''}'' @ r) = Some (ms, r)"
    using cons.prems n m ms by (intro cons.IH) (auto simp: renderMember_def)
  ultimately show ?case
    by (simp add: n m ms parseStr_escape) (simp add: renderMember_def parseStr_escape)
qed

lemma render_JObj: "render (JObj ms) = CHR ''{'' # Join (map renderMember ms) '','' @ ''}''"
  by (simp add: renderMember_def)

lemma HasPrefix_Cons [simp]: "HasPrefix (c # s) (d # t) \<longleftrightarrow> c = d \<and> HasPrefix s t"
  and HasPrefix_Nil [simp]: "HasPrefix s []"
  by (auto simp: HasPrefix_def)

lemma reads_atom: "reads JNull" "reads (JBool b)" "reads (JStr s)"
proof -
  have "parseValue n (render v @ r) = Some (v, r)"
    if "2 * length (render v) \<le> n" and "v \<in> {JNull, JBool b, JStr s}" for n r v
    using that by (cases n) (auto simp: parseStr_escape isWS_def split: if_splits)
  then show "reads JNull" "reads (JBool b)" "reads (JStr s)"
    unfolding reads_def by blast+
qed

lemma reads_num: "reads (jint i)"
  unfolding reads_def
proof (intro allI impI)
  fix n r
  assume n: "2 * length (render (jint i)) \<le> n" and r: "numEnd r"
  obtain c cs where c: "show_int i = c # cs" "c = CHR ''-'' \<or> IsDigit c"
    using show_nat_digits [of "nat i"] show_nat_digits [of "nat (- i)"]
    by (cases "i < 0"; cases "show_nat (nat i)") (auto simp: show_int_def)
  have "c \<notin> {cQuote, CHR ''['', CHR ''{'', CHR ''n'', CHR ''t'', CHR ''f''} \<and> \<not> isWS c"
    using c(2) by (auto simp: isWS_def IsDigit_def char_le_nat)
  moreover have "parseNum (c # cs @ r) = Some (c # cs, r)"
    using parseNum_show_int [OF r, of i] c(1) by simp
  moreover obtain m where "n = Suc m" using n c(1) by (cases n) (auto simp: jint_def)
  ultimately show "parseValue n (render (jint i) @ r) = Some (jint i, r)"
    by (simp add: jint_def c(1))
qed

lemma reads_arr:
  assumes "\<forall>v \<in> set vs. reads v" and "list_all jok vs"
  shows "reads (JArr vs)"
  unfolding reads_def
proof (intro allI impI)
  fix n r
  assume n: "2 * length (render (JArr vs)) \<le> n"
  then obtain m where m: "n = Suc m" by (cases n) auto
  show "parseValue n (render (JArr vs) @ r) = Some (JArr vs, r)"
  proof (cases vs)
    case Nil
    with m show ?thesis by (simp add: isWS_def)
  next
    case (Cons w ws)
    then obtain c cs where "Join (map render vs) '','' = c # cs" "\<not> isWS c" "c \<noteq> CHR '']''"
      using render_head [of w] assms(2) by (cases ws) auto
    moreover have "parseElems m (Join (map render vs) '','' @ '']'' @ r) = Some (vs, r)"
      using n m Cons assms(1) by (intro parseElems_render) auto
    ultimately show ?thesis
      by (simp add: m isWS_def)
  qed
qed

lemma reads_obj:
  assumes "\<forall>(k, v) \<in> set ms. reads v"
  shows "reads (JObj ms)"
  unfolding reads_def render_JObj
proof (intro allI impI)
  fix n r
  assume n: "2 * length (CHR ''{'' # Join (map renderMember ms) '','' @ ''}'') \<le> n"
  then obtain m where m: "n = Suc m" by (cases n) auto
  show "parseValue n ((CHR ''{'' # Join (map renderMember ms) '','' @ ''}'') @ r) = Some (JObj ms, r)"
  proof (cases ms)
    case Nil
    with m show ?thesis by (simp add: isWS_def)
  next
    case (Cons w ws)
    obtain cs where "Join (map renderMember ms) '','' = cQuote # cs"
      by (cases ws; cases w) (auto simp: Cons renderMember_def)
    moreover have "parseMembers m (Join (map renderMember ms) '','' @ ''}'' @ r) = Some (ms, r)"
      using n m Cons assms by (intro parseMembers_render) auto
    ultimately show ?thesis by (simp add: m isWS_def)
  qed
qed

lemma jok_reads: "jok v \<Longrightarrow> reads v"
proof (induction v)
  case (JNum l)
  then show ?case using reads_num by (auto simp: jint_def)
next
  case (JArr vs)
  then show ?case by (intro reads_arr) (auto simp: list_all_iff)
next
  case (JObj ms)
  then show ?case by (intro reads_obj) (force simp: list_all_iff)
qed (simp_all add: reads_atom)

lemma parse_render: "jok v \<Longrightarrow> parseJson (render v) = Some v"
  using readsD [OF jok_reads, of v "2 * length (render v) + 2" "[]"]
  by (simp add: parseJson_def numEnd_def)

text \<open>Decimal literals are injective.\<close>

lemma show_nat_inj: "show_nat m = show_nat n \<longleftrightarrow> m = n"
  by (metis digitsVal_show_nat)

lemma show_int_inj: "show_int i = show_int j \<longleftrightarrow> i = j"
proof -
  have m: "show_nat k \<noteq> CHR ''-'' # r" for k r
    using show_nat_digits [of k] by (auto simp: IsDigit_def char_le_nat)
  then have m': "CHR ''-'' # r \<noteq> show_nat k" for k r by metis
  show ?thesis by (auto simp: show_int_def show_nat_inj m m')
qed

section \<open>Decoding into Go values\<close>

text \<open>
  Decoding a JSON value into a Go variable that holds \<open>old\<close>: \<open>null\<close> leaves it, a value of another
  JSON type is an error, object keys match field names without regard to case, unknown keys are
  skipped.
\<close>

definition decodeString :: "string \<Rightarrow> json \<Rightarrow> string option" where
  "decodeString old v = (case v of JStr s \<Rightarrow> Some s | JNull \<Rightarrow> Some old | _ \<Rightarrow> None)"

definition decodeInt :: "int \<Rightarrow> json \<Rightarrow> int option" where
  "decodeInt old v = (case v of JNum l \<Rightarrow> ParseInt l | JNull \<Rightarrow> Some old | _ \<Rightarrow> None)"

fun decodeList :: "(json \<Rightarrow> 'a option) \<Rightarrow> json list \<Rightarrow> 'a list option" where
  "decodeList d [] = Some []"
| "decodeList d (v # vs) =
     (case d v of None \<Rightarrow> None | Some x \<Rightarrow> map_option ((#) x) (decodeList d vs))"

definition decodeSlice :: "(json \<Rightarrow> 'a option) \<Rightarrow> json \<Rightarrow> 'a list option" where
  "decodeSlice d v = (case v of JArr vs \<Rightarrow> decodeList d vs | JNull \<Rightarrow> Some [] | _ \<Rightarrow> None)"

definition keyIs :: "string \<Rightarrow> string \<Rightarrow> bool" where
  "keyIs field k \<longleftrightarrow> ToLower k = ToLower field"

end
