(* ===== verification/Http.thy ===== *)
theory Http
  imports Json
begin

text \<open>
  What the HTTP handlers share: the request as they see it (\<open>Header.Get\<close> and \<open>URL.Query().Get\<close> return the
  first value or the empty string, \<open>reqContent\<close> are the bytes of the body) and \<open>strconv.Atoi\<close>.
\<close>

record request =
  reqMethod :: string
  urlPath :: string
  headerGet :: "string \<Rightarrow> string"
  queryGet :: "string \<Rightarrow> string"
  reqContent :: string

text \<open>
  How \<open>http.ServeMux\<close> decides between the patterns that match a path, given as methods and routes: GET patterns also match HEAD. \<open>Inl\<close> is the
  answer of the multiplexer itself: 405 if another method would match, else 404.
\<close>

definition matchMethod :: "string \<Rightarrow> (string \<times> 'rt) list \<Rightarrow> int + 'rt" where
  "matchMethod meth rs =
     (case map_of rs (if meth = ''HEAD'' then ''GET'' else meth) of
        Some rt \<Rightarrow> Inr rt
      | None \<Rightarrow> Inl (if rs = [] then 404 else 405))"

definition Atoi :: "string \<Rightarrow> int option" where
  "Atoi s =
     (case s of
        CHR ''+'' # ds \<Rightarrow> if ds \<noteq> [] \<and> hd ds = CHR ''-'' then None else ParseInt ds
      | _ \<Rightarrow> ParseInt s)"

lemma Atoi_show_int: "int64 i \<Longrightarrow> Atoi (show_int i) = Some i"
proof -
  assume i: "int64 i"
  have d: "list_all IsDigit (show_nat n) \<and> show_nat n \<noteq> []" for n by (rule show_nat_digits)
  have "\<not> IsDigit CHR ''+''" by (simp add: IsDigit_def char_le_nat)
  then have "show_int i \<noteq> CHR ''+'' # r" for r
    using d [of "nat i"] d [of "nat (- i)"] by (auto simp: show_int_def)
  then have "Atoi (show_int i) = ParseInt (show_int i)"
    unfolding Atoi_def by (auto split: list.splits char.splits bool.splits)
  then show ?thesis using ParseInt_show_int [OF i] by simp
qed

end
