(* ===== verification/Gateway.thy ===== *)
theory Gateway
  imports Api_Keys Rate_Limiter Http "HOL-Library.Sublist"
begin

text \<open>
  \<open>internal/gateway\<close>: the API gateway, with the middleware \<open>pkg/middleware/requestid.go\<close>. A handler maps a request,
  the key information in its context and a state (the limiter and a world \<open>'w\<close>: database and backends) to a
  response and a new state; middleware maps handlers to handlers, as in the code. Backends behind
  the reverse proxies, the rows of the \<open>documents\<close> table and JSON decoding are parameters.
\<close>

datatype 'b body = NoBody | ErrorBody string | HandlerBody 'b

record 'b response =
  rspStatus :: int
  rspHeaders :: "(string \<times> string) list"
  rspBody :: "'b body"

type_synonym ('w, 'b) handler = "request \<Rightarrow> KeyInfo option \<Rightarrow> Limiter \<times> 'w \<Rightarrow> 'b response \<times> Limiter \<times> 'w"

definition writeError :: "int \<Rightarrow> string \<Rightarrow> 'b response" where
  "writeError status message =
     \<lparr>rspStatus = status, rspHeaders = [(''Content-Type'', ''application/json'')], rspBody = ErrorBody message\<rparr>"

text \<open>Headers set on the response writer before the next handler runs.\<close>

definition setHeaders :: "(string \<times> string) list \<Rightarrow> 'b response \<times> 's \<Rightarrow> 'b response \<times> 's" where
  "setHeaders hs p = (case p of (rsp, s) \<Rightarrow> (rsp\<lparr>rspHeaders := hs @ rspHeaders rsp\<rparr>, s))"

section \<open>Middleware\<close>

definition extractAPIKey :: "request \<Rightarrow> string" where
  "extractAPIKey r =
     (let auth = headerGet r ''Authorization''
      in if HasPrefix auth ''Bearer '' then drop (length ''Bearer '') auth
         else if headerGet r ''X-API-Key'' \<noteq> [] then headerGet r ''X-API-Key''
         else queryGet r ''api_key'')"

definition Auth :: "('w \<Rightarrow> string \<Rightarrow> key_error + KeyInfo) \<Rightarrow> ('w, 'b) handler \<Rightarrow> ('w, 'b) handler" where
  "Auth validate next r info s =
     (if HasPrefix (urlPath r) ''/health'' then next r info s
      else
        (let key = extractAPIKey r
         in if key = [] then (writeError 401 ''missing api key'', s)
            else
              (case validate (snd s) key of
                 Inl ErrInvalidKey \<Rightarrow> (writeError 401 ''invalid api key'', s)
               | Inl ErrExpiredKey \<Rightarrow> (writeError 401 ''expired api key'', s)
               | Inl (KeyDbError _) \<Rightarrow> (writeError 500 ''authentication error'', s)
               | Inr ki \<Rightarrow> next r (Some ki) s)))"

definition RateLimit :: "int \<Rightarrow> ('w, 'b) handler \<Rightarrow> ('w, 'b) handler" where
  "RateLimit now next r info s =
     (if HasPrefix (urlPath r) ''/health'' then next r info s
      else
        (case info of
           None \<Rightarrow> next r info s
         | Some ki \<Rightarrow>
             (case Allow now (kiID ki) (kiRateLimit ki) (fst s) of
                (False, l) \<Rightarrow>
                  (setHeaders [(''Retry-After'', ''60'')] (writeError 429 ''rate limit exceeded'', (l, snd s)))
              | (True, l) \<Rightarrow> next r info (l, snd s))))"

record CORSConfig =
  AllowOrigins :: "string list"
  AllowMethods :: "string list"
  AllowHeaders :: "string list"
  MaxAge :: int

definition DefaultCORSConfig :: CORSConfig where
  "DefaultCORSConfig =
     \<lparr>AllowOrigins = [''*''], AllowMethods = [''GET'', ''POST'', ''PUT'', ''DELETE'', ''OPTIONS''],
      AllowHeaders = [''Content-Type'', ''Authorization'', ''X-API-Key'', ''X-Request-ID''], MaxAge = 86400\<rparr>"

definition CORS :: "CORSConfig \<Rightarrow> ('w, 'b) handler \<Rightarrow> ('w, 'b) handler" where
  "CORS cfg next r info s =
     (let origin = headerGet r ''Origin''
      in if origin = [] then next r info s
         else if \<not> (\<exists>a \<in> set (AllowOrigins cfg). a = ''*'' \<or> a = origin) then next r info s
         else
           setHeaders
             [(''Access-Control-Allow-Origin'', origin),
              (''Access-Control-Allow-Methods'', Join (AllowMethods cfg) '', ''),
              (''Access-Control-Allow-Headers'', Join (AllowHeaders cfg) '', ''),
              (''Access-Control-Max-Age'', show_int (MaxAge cfg))]
             (if reqMethod r = ''OPTIONS'' then (\<lparr>rspStatus = 204, rspHeaders = [], rspBody = NoBody\<rparr>, s)
              else next r info s))"

text \<open>\<open>fresh\<close> is the identifier \<open>generateID\<close> would return.\<close>

definition RequestID :: "string \<Rightarrow> ('w, 'b) handler \<Rightarrow> ('w, 'b) handler" where
  "RequestID fresh next r info s =
     (let rid = (if headerGet r ''X-Request-ID'' = [] then fresh else headerGet r ''X-Request-ID'')
      in setHeaders [(''X-Request-ID'', rid)] (next r info s))"

section \<open>Routes\<close>

datatype gw_route =
  RHealth | RIngest | RListDocuments | RGetDocument string | RSearch | RAnalytics | RCacheStats
| RCacheInvalidate | RCreateKey | RListKeys

definition docPath :: string where "docPath = ''/api/v1/documents/''"

text \<open>
  The patterns of the route table on clean paths; \<open>{id}\<close> matches one nonempty segment.
\<close>

definition pathRoutes :: "string \<Rightarrow> (string \<times> gw_route) list" where
  "pathRoutes path =
     (if path = ''/health'' then [(''GET'', RHealth)]
      else if path = ''/api/v1/documents'' then [(''POST'', RIngest), (''GET'', RListDocuments)]
      else if path = ''/api/v1/search'' then [(''GET'', RSearch)]
      else if path = ''/api/v1/analytics'' then [(''GET'', RAnalytics)]
      else if path = ''/api/v1/cache/stats'' then [(''GET'', RCacheStats)]
      else if path = ''/api/v1/cache/invalidate'' then [(''POST'', RCacheInvalidate)]
      else if path = ''/api/v1/admin/keys'' then [(''POST'', RCreateKey), (''GET'', RListKeys)]
      else if HasPrefix path docPath \<and> drop (length docPath) path \<noteq> [] \<and> CHR ''/'' \<notin> set (drop (length docPath) path)
        then [(''GET'', RGetDocument (drop (length docPath) path))]
      else [])"

definition routeOf :: "string \<Rightarrow> string \<Rightarrow> int + gw_route" where
  "routeOf meth path = matchMethod meth (pathRoutes path)"

definition mux :: "(gw_route \<Rightarrow> ('w, 'b) handler) \<Rightarrow> ('w, 'b) handler" where
  "mux handlers r info s =
     (case routeOf (reqMethod r) (urlPath r) of
        Inl status \<Rightarrow> (\<lparr>rspStatus = status, rspHeaders = [], rspBody = NoBody\<rparr>, s)
      | Inr rt \<Rightarrow> handlers rt r info s)"

text \<open>The whole chain of \<open>router.New\<close>.\<close>

definition gateway ::
  "string \<Rightarrow> ('w \<Rightarrow> string \<Rightarrow> key_error + KeyInfo) \<Rightarrow> int \<Rightarrow> (gw_route \<Rightarrow> ('w, 'b) handler) \<Rightarrow> ('w, 'b) handler" where
  "gateway fresh validate now handlers =
     RequestID fresh (CORS DefaultCORSConfig (Auth validate (RateLimit now (mux handlers))))"

section \<open>Direct handlers\<close>

datatype 'doc doc_find = DocFound 'doc | DocNoRows | DocError

definition GetDocument :: "('w \<Rightarrow> string \<Rightarrow> 'doc doc_find) \<Rightarrow> ('doc \<Rightarrow> 'b) \<Rightarrow> 'w \<Rightarrow> string \<Rightarrow> 'b response" where
  "GetDocument findDoc enc w i =
     (if i = [] then writeError 400 ''document id is required''
      else
        (case findDoc w i of
           DocNoRows \<Rightarrow> writeError 404 ''document not found''
         | DocError \<Rightarrow> writeError 500 ''failed to fetch document''
         | DocFound doc \<Rightarrow> \<lparr>rspStatus = 200, rspHeaders = [(''Content-Type'', ''application/json'')], rspBody = HandlerBody (enc doc)\<rparr>))"

definition pageParams :: "request \<Rightarrow> int \<times> int" where
  "pageParams r =
     (let limit = (case queryGet r ''limit'' of [] \<Rightarrow> 20
            | v \<Rightarrow> (case Atoi v of Some p \<Rightarrow> if p > 0 \<and> p \<le> 100 then p else 20 | None \<Rightarrow> 20));
          offset = (case queryGet r ''offset'' of [] \<Rightarrow> 0
            | v \<Rightarrow> (case Atoi v of Some p \<Rightarrow> if p \<ge> 0 then p else 0 | None \<Rightarrow> 0))
      in (limit, offset))"

text \<open>Rows that cannot be scanned (\<open>None\<close>) are skipped.\<close>

definition ListDocuments ::
  "('w \<Rightarrow> int \<Rightarrow> int \<Rightarrow> 'doc option list option) \<Rightarrow> ('doc list \<times> int \<times> int \<times> int \<Rightarrow> 'b) \<Rightarrow> 'w \<Rightarrow> request \<Rightarrow> 'b response" where
  "ListDocuments selectDocs enc w r =
     (case pageParams r of
        (limit, offset) \<Rightarrow>
          (case selectDocs w limit offset of
             None \<Rightarrow> writeError 500 ''failed to list documents''
           | Some rows \<Rightarrow>
               (let docs = List.map_filter id rows
                in \<lparr>rspStatus = 200, rspHeaders = [(''Content-Type'', ''application/json'')],
                    rspBody = HandlerBody (enc (docs, int (length docs), limit, offset))\<rparr>)))"

record create_req =
  crName :: string
  crRateLimit :: int
  crExpiresIn :: string

definition CreateAPIKey ::
  "(string \<Rightarrow> int option) \<Rightarrow> ('w \<Rightarrow> string \<Rightarrow> int \<Rightarrow> int option \<Rightarrow> (key_error + string) \<times> 'w) \<Rightarrow> (string \<times> string \<Rightarrow> 'b) \<Rightarrow> int \<Rightarrow>
   create_req option \<Rightarrow> 'w \<Rightarrow> 'b response \<times> 'w" where
  "CreateAPIKey parseDuration createKey enc now decoded w =
     (case decoded of
        None \<Rightarrow> (writeError 400 ''invalid JSON body'', w)
      | Some req \<Rightarrow>
          (if crName req = [] then (writeError 400 ''name is required'', w)
           else
             (let rateLimit = (if crRateLimit req \<le> 0 then 100 else crRateLimit req);
                  expiresAt = (if crExpiresIn req = [] then Some None
                               else map_option (\<lambda>d. Some (now + d)) (parseDuration (crExpiresIn req)))
              in case expiresAt of
                   None \<Rightarrow> (writeError 400 ''invalid expires_in duration'', w)
                 | Some ex \<Rightarrow>
                     (case createKey w (crName req) rateLimit ex of
                        (Inl err, w') \<Rightarrow> (writeError 500 ''failed to create api key'', w')
                      | (Inr key, w') \<Rightarrow>
                          (\<lparr>rspStatus = 201, rspHeaders = [(''Content-Type'', ''application/json'')],
                            rspBody = HandlerBody (enc (key, crName req))\<rparr>, w')))))"

definition ListAPIKeys :: "('w \<Rightarrow> key_error + KeyInfo list) \<Rightarrow> (KeyInfo list \<times> int \<Rightarrow> 'b) \<Rightarrow> 'w \<Rightarrow> 'b response" where
  "ListAPIKeys listKeys enc w =
     (case listKeys w of
        Inl err \<Rightarrow> writeError 500 ''failed to list api keys''
      | Inr keys \<Rightarrow> \<lparr>rspStatus = 200, rspHeaders = [(''Content-Type'', ''application/json'')],
                      rspBody = HandlerBody (enc (keys, int (length keys)))\<rparr>)"

section \<open>Facts\<close>

lemma setHeaders_simps [simp]:
  "rspStatus (fst (setHeaders hs p)) = rspStatus (fst p)" "rspBody (fst (setHeaders hs p)) = rspBody (fst p)"
  "snd (setHeaders hs p) = snd p"
  by (simp_all add: setHeaders_def split: prod.splits)

lemma pageParams_bounds: "pageParams r = (l, off) \<Longrightarrow> 1 \<le> l \<and> l \<le> 100 \<and> 0 \<le> off"
  by (auto simp: pageParams_def Let_def split: list.splits option.splits if_splits)

text \<open>Only the route table decides between handlers, and only \<open>/health\<close> itself is served without a key.\<close>

lemma HasPrefix_nth: "HasPrefix s p \<Longrightarrow> i < length p \<Longrightarrow> s ! i = p ! i"
  unfolding HasPrefix_def by (metis nth_take)

lemma health_routes: "HasPrefix path ''/health'' \<Longrightarrow> routeOf meth path = Inr rt \<Longrightarrow> rt = RHealth"
proof -
  assume h: "HasPrefix path ''/health''" and r: "routeOf meth path = Inr rt"
  have 1: "path ! 1 = CHR ''h''" using HasPrefix_nth [OF h, of 1] by simp
  then have "\<not> HasPrefix path docPath" using HasPrefix_nth [of path docPath 1] by (auto simp: docPath_def)
  moreover have "path \<noteq> CHR ''/'' # CHR ''a'' # p" for p using 1 by auto
  ultimately have "pathRoutes path = (if path = ''/health'' then [(''GET'', RHealth)] else [])"
    by (simp add: pathRoutes_def)
  with r show ?thesis by (auto simp: routeOf_def matchMethod_def split: option.splits if_splits)
qed

definition preflight :: "request \<Rightarrow> bool" where
  "preflight r \<longleftrightarrow> headerGet r ''Origin'' \<noteq> [] \<and> reqMethod r = ''OPTIONS''"

lemma setHeaders_setHeaders: "setHeaders hs (setHeaders hs' p) = setHeaders (hs @ hs') p"
  by (simp add: setHeaders_def split: prod.splits)

lemma setHeaders_Nil: "setHeaders [] p = p"
  by (simp add: setHeaders_def split: prod.splits)

text \<open>The outer layers only add headers, or answer a preflight request.\<close>

lemma CORS_layer:
  "\<exists>hs. CORS DefaultCORSConfig next r info s = setHeaders hs
     (if preflight r then (\<lparr>rspStatus = 204, rspHeaders = [], rspBody = NoBody\<rparr>, s) else next r info s)"
proof (cases "headerGet r ''Origin'' = []")
  case True
  then show ?thesis by (intro exI [of _ "[]"]) (simp add: CORS_def preflight_def setHeaders_Nil)
next
  case False
  then show ?thesis by (auto simp: CORS_def DefaultCORSConfig_def preflight_def Let_def)
qed

lemma gateway_layers:
  "\<exists>hs. gateway fresh validate now handlers r info s = setHeaders hs
     (if preflight r then (\<lparr>rspStatus = 204, rspHeaders = [], rspBody = NoBody\<rparr>, s)
      else Auth validate (RateLimit now (mux handlers)) r info s)"
proof -
  obtain hs where c: "CORS DefaultCORSConfig (Auth validate (RateLimit now (mux handlers))) r info s = setHeaders hs
     (if preflight r then (\<lparr>rspStatus = 204, rspHeaders = [], rspBody = NoBody\<rparr>, s)
      else Auth validate (RateLimit now (mux handlers)) r info s)"
    using CORS_layer by blast
  show ?thesis unfolding gateway_def RequestID_def Let_def c setHeaders_setHeaders by (rule exI, rule refl)
qed

text \<open>The decision on a request: answered by the gateway itself, or passed on with the key's information.\<close>

definition admission ::
  "('w \<Rightarrow> string \<Rightarrow> key_error + KeyInfo) \<Rightarrow> int \<Rightarrow> request \<Rightarrow> Limiter \<times> 'w \<Rightarrow> (int + KeyInfo option) \<times> Limiter" where
  "admission validate now r s =
     (if preflight r then (Inl 204, fst s)
      else if HasPrefix (urlPath r) ''/health'' then (Inr None, fst s)
      else if extractAPIKey r = [] then (Inl 401, fst s)
      else
        (case validate (snd s) (extractAPIKey r) of
           Inl (KeyDbError _) \<Rightarrow> (Inl 500, fst s)
         | Inl _ \<Rightarrow> (Inl 401, fst s)
         | Inr ki \<Rightarrow>
             (case Allow now (kiID ki) (kiRateLimit ki) (fst s) of
                (ok, l) \<Rightarrow> (if ok then Inr (Some ki) else Inl 429, l))))"

lemma gateway_admission:
  "(\<forall>ki l. admission validate now r s = (Inr ki, l) \<longrightarrow>
      (\<exists>hs. gateway fresh validate now handlers r None s = setHeaders hs (mux handlers r ki (l, snd s)))) \<and>
   (\<forall>status l. admission validate now r s = (Inl status, l) \<longrightarrow>
      rspStatus (fst (gateway fresh validate now handlers r None s)) = status \<and>
      (\<nexists>b. rspBody (fst (gateway fresh validate now handlers r None s)) = HandlerBody b) \<and>
      snd (gateway fresh validate now handlers r None s) = (l, snd s))"
proof -
  obtain hs where g: "gateway fresh validate now handlers r None s = setHeaders hs
     (if preflight r then (\<lparr>rspStatus = 204, rspHeaders = [], rspBody = NoBody\<rparr>, s)
      else Auth validate (RateLimit now (mux handlers)) r None s)"
    using gateway_layers by blast
  show ?thesis
    unfolding g admission_def
    by (auto simp: Auth_def RateLimit_def writeError_def Let_def
        split: sum.splits key_error.splits prod.splits bool.splits if_splits option.splits)
qed

section \<open>Rates\<close>

text \<open>
  A sequence of requests (time, fresh identifier, request) served one after the other, and how many of them are passed
  on under the key with identifier \<open>k\<close>.
\<close>

definition passedAs :: "string \<Rightarrow> (int + KeyInfo option) \<times> Limiter \<Rightarrow> bool" where
  "passedAs k a = (case fst a of Inr (Some ki) \<Rightarrow> kiID ki = k | _ \<Rightarrow> False)"

fun passedRun ::
  "string \<Rightarrow> ('w \<Rightarrow> string \<Rightarrow> key_error + KeyInfo) \<Rightarrow> (gw_route \<Rightarrow> ('w, 'b) handler) \<Rightarrow> (int \<times> string \<times> request) list \<Rightarrow>
   Limiter \<times> 'w \<Rightarrow> nat" where
  "passedRun k validate handlers [] s = 0"
| "passedRun k validate handlers ((now, fresh, r) # reqs) s =
     (if passedAs k (admission validate now r s) then 1 else 0) +
     passedRun k validate handlers reqs (snd (gateway fresh validate now handlers r None s))"

lemma gateway_limiter:
  assumes "\<forall>rt r i s. fst (snd (handlers rt r i s)) = fst s"
  shows "fst (snd (gateway fresh validate now handlers r None s)) = snd (admission validate now r s)"
proof -
  have m: "fst (snd (mux handlers r ki s)) = fst s" for ki s
    using assms by (cases s) (simp add: mux_def split: sum.splits)
  obtain d l where a: "admission validate now r s = (d, l)" by fastforce
  from gateway_admission [of validate now r s fresh handlers] show ?thesis
    unfolding a by (cases d) (auto simp: m)
qed

text \<open>Allowing a request depends on the window and the bucket of its key only.\<close>

lemma Allow_bucket:
  assumes "window l = window l'" and "map_of (entries l) k = map_of (entries l') k"
  shows "fst (Allow now k limit l) = fst (Allow now k limit l')"
    and "map_of (entries (snd (Allow now k limit l))) k = map_of (entries (snd (Allow now k limit l'))) k"
  using assms by (auto simp: Allow_alt update_conv' split: option.splits)

lemma Allow_frame:
  "Allow now j limit l = (ok, l') \<Longrightarrow> window l' = window l"
  "Allow now j limit l = (ok, l') \<Longrightarrow> j \<noteq> k \<Longrightarrow> map_of (entries l') k = map_of (entries l) k"
  using Allow_window [of now j limit l] Allow_other [of k j now limit l] by auto

lemma admission_own:
  assumes "\<forall>w raw ki. validate w raw = Inr ki \<and> kiID ki = k \<longrightarrow> kiRateLimit ki = limit"
  shows "(\<not> passedAs k (admission validate now r s) \<and> window (snd (admission validate now r s)) = window (fst s) \<and>
      map_of (entries (snd (admission validate now r s))) k = map_of (entries (fst s)) k) \<or>
    (passedAs k (admission validate now r s) = fst (Allow now k limit (fst s)) \<and>
      snd (admission validate now r s) = snd (Allow now k limit (fst s)))"
proof (cases "\<exists>ki. validate (snd s) (extractAPIKey r) = Inr ki \<and> kiID ki = k")
  case True
  then obtain ki where ki: "validate (snd s) (extractAPIKey r) = Inr ki" "kiID ki = k" by blast
  then have "kiRateLimit ki = limit" using assms by blast
  with ki show ?thesis by (auto simp: admission_def passedAs_def split: prod.splits)
next
  case False
  obtain l where l: "snd (admission validate now r s) = l" by blast
  have "window l = window (fst s) \<and> map_of (entries l) k = map_of (entries (fst s)) k"
  proof (cases "validate (snd s) (extractAPIKey r)")
    case (Inr ki)
    then have "kiID ki \<noteq> k" using False by blast
    then show ?thesis
      using Inr l by (auto simp: admission_def split: prod.splits if_splits dest: Allow_frame)
  qed (use l in \<open>auto simp: admission_def split: key_error.splits if_splits\<close>)
  moreover have "\<not> passedAs k (admission validate now r s)"
    using False by (auto simp: admission_def passedAs_def split: prod.splits sum.splits key_error.splits if_splits)
  ultimately show ?thesis using l by blast
qed

text \<open>So the requests passed on under a key are among those its bucket allows.\<close>

lemma passedRun_allowRun:
  assumes "\<forall>rt r i s. fst (snd (handlers rt r i s)) = fst s"
    and "\<forall>w raw ki. validate w raw = Inr ki \<and> kiID ki = k \<longrightarrow> kiRateLimit ki = limit"
  shows "window (fst s) = window l \<Longrightarrow> map_of (entries (fst s)) k = map_of (entries l) k \<Longrightarrow>
    \<exists>ts. subseq ts (map fst reqs) \<and> passedRun k validate handlers reqs s = allowRun k limit (map (\<lambda>t. (t, k)) ts) l"
proof (induction reqs arbitrary: s l)
  case (Cons x reqs)
  obtain now fresh r where x: "x = (now, fresh, r)" by (metis prod_cases3)
  let ?s = "snd (gateway fresh validate now handlers r None s)"
  have g: "fst ?s = snd (admission validate now r s)" by (rule gateway_limiter [OF assms(1)])
  from admission_own [OF assms(2), of now r s]
  consider (other) "\<not> passedAs k (admission validate now r s)" "window (fst ?s) = window (fst s)"
      "map_of (entries (fst ?s)) k = map_of (entries (fst s)) k"
    | (own) "passedAs k (admission validate now r s) = fst (Allow now k limit (fst s))"
      "fst ?s = snd (Allow now k limit (fst s))" using g by auto
  then show ?case
  proof cases
    case other
    then have "\<exists>ts. subseq ts (map fst reqs) \<and> passedRun k validate handlers reqs ?s = allowRun k limit (map (\<lambda>t. (t, k)) ts) l"
      using Cons.prems by (intro Cons.IH) auto
    with other(1) show ?thesis by (auto simp: x)
  next
    case own
    note B = Allow_bucket [OF Cons.prems, of now limit]
    have "\<exists>ts. subseq ts (map fst reqs) \<and> passedRun k validate handlers reqs ?s =
        allowRun k limit (map (\<lambda>t. (t, k)) ts) (snd (Allow now k limit l))"
      using own(2) Cons.prems B(2) by (intro Cons.IH) auto
    then obtain ts where ts: "subseq ts (map fst reqs)" "passedRun k validate handlers reqs ?s =
        allowRun k limit (map (\<lambda>t. (t, k)) ts) (snd (Allow now k limit l))" by blast
    then have "passedRun k validate handlers (x # reqs) s = allowRun k limit (map (\<lambda>t. (t, k)) (now # ts)) l"
      using own(1) B(1) by (simp add: x case_prod_beta)
    with ts(1) show ?thesis by (intro exI [of _ "now # ts"]) (simp add: x)
  qed
qed (auto intro: exI [of _ "[]"])

section \<open>Properties\<close>

text \<open>
  C39. The gateway lets nothing through without a valid key: a request that is no CORS preflight and not for a
  health path reaches a route's handler only if it carries a key that validates and whose bucket
  allows it, and then with that key's information; otherwise the gateway answers 401, 429 or 500
  itself and the world is unchanged. Paths under \<open>/health\<close> reach no handler but the health check.
\<close>

theorem gateway_guard:
  assumes "\<not> preflight r" and "gateway fresh validate now handlers r None (l, w) = (rsp, l', w')"
  shows "if HasPrefix (urlPath r) ''/health''
    then \<exists>hs. (rsp, l', w') = setHeaders hs (mux handlers r None (l, w)) \<and>
      (\<forall>rt. routeOf (reqMethod r) (urlPath r) = Inr rt \<longrightarrow> rt = RHealth)
    else (\<exists>ki l1 hs. extractAPIKey r \<noteq> [] \<and> validate w (extractAPIKey r) = Inr ki \<and>
        Allow now (kiID ki) (kiRateLimit ki) l = (True, l1) \<and> (rsp, l', w') = setHeaders hs (mux handlers r (Some ki) (l1, w))) \<or>
      (rspStatus rsp = 401 \<and> l' = l \<and> w' = w \<and>
        (extractAPIKey r = [] \<or> validate w (extractAPIKey r) \<in> {Inl ErrInvalidKey, Inl ErrExpiredKey})) \<or>
      (rspStatus rsp = 500 \<and> l' = l \<and> w' = w \<and> (\<exists>m. validate w (extractAPIKey r) = Inl (KeyDbError m))) \<or>
      (rspStatus rsp = 429 \<and> w' = w \<and> (\<exists>ki. validate w (extractAPIKey r) = Inr ki \<and>
        Allow now (kiID ki) (kiRateLimit ki) l = (False, l')))"
proof -
  obtain d l1 where a: "admission validate now r (l, w) = (d, l1)" by fastforce
  note G = gateway_admission [of validate now r "(l, w)" fresh handlers, unfolded a assms(2)]
  show ?thesis
  proof (cases "HasPrefix (urlPath r) ''/health''")
    case True
    then have "d = Inr None" "l1 = l" using a assms(1) by (auto simp: admission_def)
    with G True show ?thesis using health_routes [OF True] by auto
  next
    case False
    then show ?thesis
      using G a assms(1)
      by (auto simp: admission_def split: if_splits sum.splits key_error.splits prod.splits)
  qed
qed

definition keyOnly :: "unit \<Rightarrow> string \<Rightarrow> key_error + KeyInfo" where
  "keyOnly w raw = (if raw = ''secret'' then Inr \<lparr>kiID = ''k1'', kiName = ''client'', kiRateLimit = 2, kiActive = True,
     kiCreatedAt = 0, kiExpiresAt = None\<rparr> else Inl ErrInvalidKey)"

definition echo :: "gw_route \<Rightarrow> (unit, string) handler" where
  "echo rt r info s = (\<lparr>rspStatus = 200, rspHeaders = [], rspBody = HandlerBody (urlPath r)\<rparr>, s)"

definition searchReq :: "string \<Rightarrow> request" where
  "searchReq key = \<lparr>reqMethod = ''GET'', urlPath = ''/api/v1/search'',
     headerGet = (\<lambda>h. if h = ''X-API-Key'' then key else []), queryGet = (\<lambda>_. []), reqContent = []\<rparr>"

theorem gateway_guard_witness:
  "\<exists>rsp l'. gateway ''id'' keyOnly 0 echo (searchReq ''wrong'') None (NewLimiter 60000000000, ()) = (rsp, l', ()) \<and>
     rspStatus rsp = 401"
proof -
  obtain rsp l' where g: "gateway ''id'' keyOnly 0 echo (searchReq ''wrong'') None (NewLimiter 60000000000, ()) = (rsp, l', ())"
    by (metis prod_cases3 old.unit.exhaust)
  have p: "\<not> preflight (searchReq ''wrong'')" by (simp add: preflight_def searchReq_def)
  have h: "\<not> HasPrefix (urlPath (searchReq ''wrong'')) ''/health''" by code_simp
  have v: "keyOnly () (extractAPIKey (searchReq ''wrong'')) = Inl ErrInvalidKey" by code_simp
  from gateway_guard [OF p g] h v g show ?thesis by auto
qed

text \<open>
  C24. The gateway enforces the rate limit of a key whatever else it serves: over any sequence of requests at
  non-decreasing times, with any other keys and limits, health checks and preflights between them,
  the number passed on under a key not seen before is at most its limit plus the refill of the
  elapsed time, even if handlers change the world.
\<close>

theorem gateway_rate:
  assumes "\<forall>rt r i s. fst (snd (handlers rt r i s)) = fst s"
    and "\<forall>w raw ki. validate w raw = Inr ki \<and> kiID ki = k \<longrightarrow> kiRateLimit ki = limit"
    and "0 < window l" and "0 < limit" and "sorted (map fst reqs)" and "t0 \<le> tend"
    and "\<forall>x \<in> set reqs. t0 \<le> fst x \<and> fst x \<le> tend" and "map_of (entries l) k = None"
  shows "real (passedRun k validate handlers reqs (l, w)) \<le>
    real_of_int limit + real_of_int (tend - t0) * real_of_int limit / real_of_int (window l)"
proof -
  obtain ts where ts: "subseq ts (map fst reqs)"
    "passedRun k validate handlers reqs (l, w) = allowRun k limit (map (\<lambda>t. (t, k)) ts) l"
    using passedRun_allowRun [OF assms(1,2), of "(l, w)" l reqs] by auto
  have "sorted ts" using ts(1) assms(5) by (auto simp: subseq_conv_nths intro: sorted_nths)
  moreover have "\<forall>t \<in> set ts. t0 \<le> t \<and> t \<le> tend" using ts(1) assms(7) by (fastforce simp: subseq_conv_nths dest: in_set_nthsD)
  ultimately show ?thesis
    unfolding ts(2) using assms by (intro allowRun_bound) (auto simp: comp_def)
qed

theorem gateway_rate_witness:
  "real (passedRun ''k1'' keyOnly echo [(0, ''a'', searchReq ''secret''), (1, ''b'', searchReq ''wrong''), (2, ''c'', searchReq ''secret'')]
     (NewLimiter 60000000000, ())) \<le> 2 + 4 / 60000000000"
proof -
  have h: "\<forall>rt r i s. fst (snd (echo rt r i s)) = fst s" by (simp add: echo_def)
  have v: "\<forall>w raw ki. keyOnly w raw = Inr ki \<and> kiID ki = ''k1'' \<longrightarrow> kiRateLimit ki = 2" by (auto simp: keyOnly_def)
  show ?thesis
    using gateway_rate [OF h v, of "NewLimiter 60000000000"
        "[(0, ''a'', searchReq ''secret''), (1, ''b'', searchReq ''wrong''), (2, ''c'', searchReq ''secret'')]" 0 2 "()"]
    by (simp add: NewLimiter_def)
qed

end
