(* ===== verification/Tokenizer.thy ===== *)
theory Tokenizer
  imports Prelude
begin

text \<open>
  Package \<open>internal/indexer/tokenizer\<close>: lower-casing, splitting on characters that are neither
  letters nor digits, dropping one-byte words and stop words, and the suffix stemmer. Both the
  indexer and the query side normalise text with \<open>Tokenize\<close>, so its laws (every term is a
  lower-case word of at least two bytes, positions count up from 0, the tokens of a joined text
  are those of its parts) are what the index invariants rest on.
\<close>

definition stopWords :: "string list" where
  "stopWords =
    [''a'', ''an'', ''and'', ''are'', ''as'', ''at'',
     ''be'', ''by'', ''for'', ''from'', ''has'', ''he'',
     ''in'', ''is'', ''it'', ''its'', ''of'', ''on'',
     ''or'', ''that'', ''the'', ''to'', ''was'', ''were'',
     ''will'', ''with'', ''this'', ''but'', ''they'',
     ''have'', ''had'', ''what'', ''when'', ''where'',
     ''who'', ''which'', ''their'', ''if'', ''each'',
     ''do'', ''not'', ''no'', ''so'', ''can'']"

record token =
  Term :: string
  Position :: int

text \<open>The rule table of \<open>stem\<close>: suffix, replacement, minimal length of the result.\<close>

definition suffixes :: "(string \<times> string \<times> nat) list" where
  "suffixes =
    [(''ational'', ''ate'', 2),
     (''tional'', ''tion'', 2),
     (''encies'', ''ence'', 2),
     (''ances'', ''ance'', 2),
     (''ments'', ''ment'', 2),
     (''izing'', ''ize'', 2),
     (''ating'', ''ate'', 2),
     (''iness'', ''y'', 2),
     (''ously'', ''ous'', 2),
     (''ively'', ''ive'', 2),
     (''eness'', ''ene'', 2),
     (''ments'', ''ment'', 2),
     (''tion'', ''t'', 3),
     (''sion'', ''s'', 3),
     (''ying'', ''y'', 2),
     (''ling'', ''l'', 3),
     (''ies'', ''y'', 2),
     (''ing'', '''', 3),
     (''ers'', ''er'', 2),
     (''est'', '''', 3),
     (''ful'', '''', 3),
     (''ous'', '''', 3),
     (''ess'', '''', 3),
     (''ble'', '''', 3),
     (''ed'', '''', 3),
     (''er'', '''', 3),
     (''ly'', '''', 3),
     (''es'', '''', 3),
     (''ss'', ''ss'', 2),
     (''s'', '''', 3)]"

fun stemLoop :: "(string \<times> string \<times> nat) list \<Rightarrow> string \<Rightarrow> string" where
  "stemLoop [] word = word"
| "stemLoop ((suffix, replacement, minLen) # rules) word =
     (if HasSuffix word suffix then
        (let newWord = take (length word - length suffix) word @ replacement
         in if minLen \<le> length newWord then newWord else stemLoop rules word)
      else stemLoop rules word)"

definition stem :: "string \<Rightarrow> string" where
  "stem word = stemLoop suffixes word"

text \<open>The separator predicate that \<open>Tokenize\<close> passes to \<open>FieldsFunc\<close>.\<close>

definition notWordChar :: "char \<Rightarrow> bool" where
  "notWordChar r \<longleftrightarrow> \<not> IsLetter r \<and> \<not> IsDigit r"

fun tokenLoop :: "int \<Rightarrow> string list \<Rightarrow> token list" where
  "tokenLoop pos [] = []"
| "tokenLoop pos (word # words) =
     (if length word < 2 then tokenLoop pos words
      else if word \<in> set stopWords then tokenLoop pos words
      else (let stemmed = stem word
            in if stemmed = [] then tokenLoop pos words
               else \<lparr>Term = stemmed, Position = pos\<rparr> # tokenLoop (pos + 1) words))"

definition Tokenize :: "string \<Rightarrow> token list" where
  "Tokenize text = tokenLoop 0 (FieldsFunc (ToLower text) notWordChar)"

definition termsOf :: "string \<Rightarrow> string list" where
  "termsOf text = map Term (Tokenize text)"

section \<open>The stemmer\<close>

text \<open>Facts of the rule table, decided by running through it.\<close>

definition rule_ok :: "string \<times> string \<times> nat \<Rightarrow> bool" where
  "rule_ok r = (case r of (suf, rep, m) \<Rightarrow>
     2 \<le> m \<and> length rep \<le> length suf \<and> (\<forall>c \<in> set rep. isLowerAscii c))"

lemma suffixes_ok: "\<forall>r \<in> set suffixes. rule_ok r"
  unfolding suffixes_def by code_simp

lemma stemLoop_cases:
  assumes "\<forall>r \<in> set rules. rule_ok r" and "2 \<le> length w"
  shows "2 \<le> length (stemLoop rules w) \<and> length (stemLoop rules w) \<le> length w \<and>
    (\<forall>c \<in> set (stemLoop rules w). c \<in> set w \<or> isLowerAscii c)"
  using assms
proof (induction rules w rule: stemLoop.induct)
  case (1 word)
  then show ?case by simp
next
  case (2 suffix replacement minLen rules word)
  then show ?case
    by (auto simp: Let_def rule_ok_def HasSuffix_def dest: in_set_takeD)
qed

lemma stem_length_ge: "2 \<le> length w \<Longrightarrow> 2 \<le> length (stem w)"
  and stem_length_le: "2 \<le> length w \<Longrightarrow> length (stem w) \<le> length w"
  and stem_chars: "2 \<le> length w \<Longrightarrow> c \<in> set (stem w) \<Longrightarrow> c \<in> set w \<or> isLowerAscii c"
  using stemLoop_cases [OF suffixes_ok, of w] by (auto simp: stem_def)

lemma stem_nonempty [simp]: "2 \<le> length w \<Longrightarrow> stem w \<noteq> []"
  using stem_length_ge [of w] by auto

section \<open>The token loop\<close>

text \<open>The words the loop keeps, and lower-case words, as predicates.\<close>

definition keepWord :: "string \<Rightarrow> bool" where
  "keepWord w \<longleftrightarrow> 2 \<le> length w \<and> w \<notin> set stopWords"

definition lowerWord :: "string \<Rightarrow> bool" where
  "lowerWord w = list_all (\<lambda>c. isLowerAscii c \<or> IsDigit c) w"

lemma tokenLoop_Cons [simp]:
  "tokenLoop pos (w # ws) =
     (if keepWord w then \<lparr>Term = stem w, Position = pos\<rparr> # tokenLoop (pos + 1) ws
      else tokenLoop pos ws)"
  by (auto simp: keepWord_def Let_def)

declare tokenLoop.simps(2) [simp del]

lemma map_Term_tokenLoop: "map Term (tokenLoop pos ws) = map stem (filter keepWord ws)"
  by (induction ws arbitrary: pos) auto

lemma length_tokenLoop: "length (tokenLoop pos ws) = length (filter keepWord ws)"
  using map_Term_tokenLoop [of pos ws] by (metis length_map)

lemma map_Position_tokenLoop:
  "map Position (tokenLoop pos ws) = map (\<lambda>i. pos + int i) [0..<length (filter keepWord ws)]"
proof (induction ws arbitrary: pos)
  case Nil
  then show ?case by simp
next
  case (Cons w ws)
  have "map (\<lambda>i. pos + int i) [0..<Suc n] = pos # map (\<lambda>i. (pos + 1) + int i) [0..<n]" for n
    by (simp add: upt_conv_Cons map_Suc_upt [symmetric] del: upt_Suc map_Suc_upt)
  then show ?case by (simp add: Cons.IH del: upt_Suc)
qed

lemma tokenLoop_append:
  "tokenLoop pos (ws @ vs) =
   tokenLoop pos ws @ tokenLoop (pos + int (length (filter keepWord ws))) vs"
  by (induction ws arbitrary: pos) (auto simp: algebra_simps)

lemma termsOf_alt: "termsOf text = map stem (filter keepWord (FieldsFunc (ToLower text) notWordChar))"
  by (simp add: termsOf_def Tokenize_def map_Term_tokenLoop)

lemma length_Tokenize: "length (Tokenize text) = length (termsOf text)"
  by (simp add: termsOf_def)

lemma map_Position_Tokenize: "map Position (Tokenize text) = map int [0..<length (termsOf text)]"
  by (simp add: Tokenize_def termsOf_alt map_Position_tokenLoop length_tokenLoop)

subsection \<open>Every term is a lower-case word\<close>

lemma wordChar_lower: "\<not> isUpperAscii c \<Longrightarrow> \<not> notWordChar c \<Longrightarrow> isLowerAscii c \<or> IsDigit c"
  by (auto simp: notWordChar_def IsLetter_def)

lemma field_lowerWord:
  assumes "w \<in> set (FieldsFunc (ToLower text) notWordChar)"
  shows "lowerWord w"
proof -
  have "isLowerAscii c \<or> IsDigit c" if "c \<in> set w" for c
  proof -
    from FieldsFunc_fields [OF assms] that have "\<not> notWordChar c" and "c \<in> set (ToLower text)"
      by auto
    then have "\<not> isUpperAscii c" by (auto simp: ToLower_def)
    then show ?thesis using \<open>\<not> notWordChar c\<close> by (rule wordChar_lower)
  qed
  then show ?thesis by (simp add: lowerWord_def list_all_iff)
qed

lemma stem_lowerWord: "lowerWord w \<Longrightarrow> 2 \<le> length w \<Longrightarrow> lowerWord (stem w)"
  using stem_chars [of w] by (fastforce simp: lowerWord_def list_all_iff)

lemma termsOf_ok:
  assumes "t \<in> set (termsOf text)"
  shows "2 \<le> length t \<and> lowerWord t"
proof -
  from assms obtain w where w: "w \<in> set (FieldsFunc (ToLower text) notWordChar)" "keepWord w"
    and t: "t = stem w"
    by (auto simp: termsOf_alt)
  then show ?thesis
    using field_lowerWord [OF w(1)] stem_lowerWord stem_length_ge by (auto simp: keepWord_def)
qed

subsection \<open>Joined texts\<close>

lemma notWordChar_space [simp]: "notWordChar CHR '' ''"
  by code_simp

lemma lowerChar_space [simp]: "lowerChar CHR '' '' = CHR '' ''"
  by code_simp

lemma termsOf_join: "termsOf (a @ '' '' @ b) = termsOf a @ termsOf b"
  by (simp add: termsOf_alt ToLower_def FieldsFunc_app)

subsection \<open>A normalised word\<close>

lemma lowerWord_ToLower: "lowerWord w \<Longrightarrow> ToLower w = w"
  by (rule ToLower_id)
    (auto simp: lowerWord_def list_all_iff isLowerAscii_def isUpperAscii_def IsDigit_def char_le_nat)

lemma lowerWord_wordChar: "lowerWord w \<Longrightarrow> \<forall>c \<in> set w. \<not> notWordChar c"
  by (auto simp: lowerWord_def list_all_iff notWordChar_def IsLetter_def)

lemma Tokenize_lowerWord:
  assumes "lowerWord w" and "w \<noteq> []"
  shows "Tokenize w = (if keepWord w then [\<lparr>Term = stem w, Position = 0\<rparr>] else [])"
  using FieldsFunc_word [OF lowerWord_wordChar [OF assms(1)] assms(2)]
  by (simp add: Tokenize_def lowerWord_ToLower [OF assms(1)])

section \<open>Properties\<close>


end
