(* ===== verification/Memory_Index.thy ===== *)
theory Memory_Index
  imports Posting Tokenizer
begin

text \<open>
  \<open>internal/indexer/index/memory_index.go\<close>: the in-memory inverted index. The map
  \<open>index : term \<rightarrow> docID \<rightarrow> Posting\<close> is a nested association list whose order is the order of the
  \<open>range\<close> loops. \<open>mem_lookup\<close> is its abstract view; \<open>wf_mem\<close> the invariant every operation keeps.
  The mutex makes each operation atomic, so operations are functions on the whole state.
\<close>

record mem_index =
  index :: "(string \<times> (string \<times> posting) list) list"
  docCount :: int
  memSize :: int

definition NewMemoryIndex :: mem_index where
  "NewMemoryIndex = \<lparr>index = [], docCount = 0, memSize = 0\<rparr>"

text \<open>First loop of \<open>AddDocument\<close>: one posting per distinct term of the document.\<close>

fun termDataLoop :: "string \<Rightarrow> (string \<times> posting) list \<Rightarrow> token list \<Rightarrow> (string \<times> posting) list" where
  "termDataLoop docID termData [] = termData"
| "termDataLoop docID termData (token # tokens) =
     (let p = (case map_of termData (Term token) of
                 None \<Rightarrow> \<lparr>DocID = docID, Frequency = 0, Positions = []\<rparr>
               | Some p \<Rightarrow> p);
          p' = p\<lparr>Frequency := Frequency p + 1, Positions := Positions p @ [Position token]\<rparr>
      in termDataLoop docID (AList.update (Term token) p' termData) tokens)"

text \<open>Second loop: upsert every posting and add its estimated size.\<close>

fun upsertLoop :: "string \<Rightarrow> mem_index \<Rightarrow> (string \<times> posting) list \<Rightarrow> mem_index" where
  "upsertLoop docID m [] = m"
| "upsertLoop docID m ((term, posting) # rest) =
     (let docs = (case map_of (index m) term of None \<Rightarrow> [] | Some docs \<Rightarrow> docs)
      in upsertLoop docID
           (m\<lparr>index := AList.update term (AList.update docID posting docs) (index m),
              memSize := memSize m +
                int (length term + length docID + length (Positions posting) * 8 + 64)\<rparr>)
           rest)"

definition AddDocument :: "mem_index \<Rightarrow> string \<Rightarrow> string \<Rightarrow> string \<Rightarrow> mem_index" where
  "AddDocument m docID title body =
     (let fullText = title @ '' '' @ body;
          tokens = Tokenize fullText;
          m' = upsertLoop docID m (termDataLoop docID [] tokens)
      in m'\<lparr>docCount := docCount m' + 1\<rparr>)"

definition memSearch :: "mem_index \<Rightarrow> string \<Rightarrow> PostingList" where
  "memSearch m term =
     (case map_of (index m) term of
        None \<Rightarrow> []
      | Some docs \<Rightarrow> sort_key DocID (map snd docs))"

definition Snapshot :: "mem_index \<Rightarrow> TermEntry list" where
  "Snapshot m =
     sort_key entryTerm
       (map (\<lambda>(term, docs). \<lparr>entryTerm = term, Postings = sort_key DocID (map snd docs)\<rparr>)
          (index m))"

definition Size :: "mem_index \<Rightarrow> int" where
  "Size m = memSize m"

definition DocCount :: "mem_index \<Rightarrow> int" where
  "DocCount m = docCount m"

definition Reset :: "mem_index \<Rightarrow> mem_index" where
  "Reset m = m\<lparr>index := [], docCount := 0, memSize := 0\<rparr>"

section \<open>Abstract view and invariant\<close>

definition mem_lookup :: "mem_index \<Rightarrow> string \<Rightarrow> string \<Rightarrow> posting option" where
  "mem_lookup m t d = Option.bind (map_of (index m) t) (\<lambda>docs. map_of docs d)"

definition wf_docs :: "(string \<times> posting) list \<Rightarrow> bool" where
  "wf_docs docs \<longleftrightarrow> docs \<noteq> [] \<and> distinct (map fst docs) \<and>
     (\<forall>(d, p) \<in> set docs. DocID p = d \<and> wf_posting p)"

definition wf_mem :: "mem_index \<Rightarrow> bool" where
  "wf_mem m \<longleftrightarrow> distinct (map fst (index m)) \<and>
     (\<forall>(t, docs) \<in> set (index m). wf_docs docs) \<and>
     0 \<le> docCount m \<and> 0 \<le> memSize m \<and> (memSize m = 0 \<longleftrightarrow> index m = [])"

text \<open>The posting of a document for a term: how often and where the term occurs.\<close>

definition occurrences :: "string \<Rightarrow> token list \<Rightarrow> token list" where
  "occurrences t tokens = filter (\<lambda>tok. Term tok = t) tokens"

definition doc_posting :: "string \<Rightarrow> string \<Rightarrow> string \<Rightarrow> posting" where
  "doc_posting docID t s =
     \<lparr>DocID = docID,
      Frequency = int (length (occurrences t (Tokenize s))),
      Positions = map Position (occurrences t (Tokenize s))\<rparr>"

section \<open>The first loop\<close>

lemma map_of_termDataLoop:
  "map_of (termDataLoop docID td tokens) t =
     (case occurrences t tokens of
        [] \<Rightarrow> map_of td t
      | occ \<Rightarrow> (let p = (case map_of td t of
                          None \<Rightarrow> \<lparr>DocID = docID, Frequency = 0, Positions = []\<rparr> | Some p \<Rightarrow> p)
               in Some (p\<lparr>Frequency := Frequency p + int (length (occurrences t tokens)),
                          Positions := Positions p @ map Position (occurrences t tokens)\<rparr>)))"
proof (induction docID td tokens rule: termDataLoop.induct)
  case (1 docID td)
  then show ?case by (simp add: occurrences_def)
next
  case (2 docID td tok tokens)
  then show ?case
    by (auto simp: Let_def occurrences_def update_conv' split: option.splits list.splits)
qed

lemma distinct_termDataLoop:
  "distinct (map fst td) \<Longrightarrow> distinct (map fst (termDataLoop docID td tokens))"
  by (induction docID td tokens rule: termDataLoop.induct) (auto simp: Let_def distinct_update)

lemma occurrences_empty: "occurrences t tokens = [] \<longleftrightarrow> t \<notin> Term ` set tokens"
  by (auto simp: occurrences_def filter_empty_conv)

lemma map_of_termData:
  "map_of (termDataLoop docID [] (Tokenize s)) t =
     (if t \<in> set (termsOf s) then Some (doc_posting docID t s) else None)"
proof -
  have "occurrences t (Tokenize s) = [] \<longleftrightarrow> t \<notin> set (termsOf s)"
    by (simp add: occurrences_empty termsOf_def)
  then show ?thesis
    by (auto simp: map_of_termDataLoop doc_posting_def Let_def split: list.splits)
qed

lemma sorted_Position_Tokenize: "sorted_wrt (<) (map Position (Tokenize s))"
  by (simp add: map_Position_Tokenize sorted_wrt_map)

lemma wf_doc_posting:
  assumes "t \<in> set (termsOf s)"
  shows "wf_posting (doc_posting docID t s)"
proof -
  have "sorted_wrt (<) (map Position (occurrences t (Tokenize s)))"
    using sorted_Position_Tokenize [of s]
    by (simp add: occurrences_def sorted_wrt_map sorted_wrt_filter)
  moreover have "occurrences t (Tokenize s) \<noteq> []"
    using assms by (simp add: occurrences_empty termsOf_def)
  moreover have "\<forall>i \<in> set (map Position (Tokenize s)). 0 \<le> i"
    by (auto simp: map_Position_Tokenize)
  ultimately show ?thesis
    by (auto simp: wf_posting_def doc_posting_def occurrences_def)
qed

section \<open>The second loop\<close>

lemma mem_lookup_upsertLoop:
  "distinct (map fst td) \<Longrightarrow>
   mem_lookup (upsertLoop docID m td) t d =
     (if d = docID then (case map_of td t of None \<Rightarrow> mem_lookup m t d | Some p \<Rightarrow> Some p)
      else mem_lookup m t d)"
proof (induction docID m td rule: upsertLoop.induct)
  case (1 docID m)
  then show ?case by simp
next
  case (2 docID m tm posting rest)
  then have "map_of rest tm = None" by (simp add: map_of_eq_None_iff)
  with 2 show ?case
    by (auto simp: Let_def mem_lookup_def update_conv' split: option.splits)
qed

lemma wf_docs_update:
  assumes "docs = [] \<or> wf_docs docs" and "wf_posting p" and "DocID p = d"
  shows "wf_docs (AList.update d p docs)"
proof -
  have "DocID p' = d' \<and> wf_posting p'" if "(d', p') \<in> set (AList.update d p docs)" for d' p'
    using in_set_update [OF that] assms by (auto simp: wf_docs_def)
  with assms(1) show ?thesis
    by (auto simp: wf_docs_def distinct_update)
qed

lemma wf_upsertLoop:
  "wf_mem m \<Longrightarrow> (\<forall>(t, p) \<in> set td. DocID p = docID \<and> wf_posting p) \<Longrightarrow>
   wf_mem (upsertLoop docID m td)"
proof (induction docID m td rule: upsertLoop.induct)
  case (1 docID m)
  then show ?case by simp
next
  case (2 docID m tm posting rest)
  define docs where "docs = (case map_of (index m) tm of None \<Rightarrow> [] | Some docs \<Rightarrow> docs)"
  have docs: "docs = [] \<or> wf_docs docs"
    using 2(2) by (auto simp: docs_def wf_mem_def split: option.splits dest!: map_of_SomeD)
  have new: "wf_docs (AList.update docID posting docs)"
    using wf_docs_update [OF docs] 2(3) by simp
  have "wf_docs ds" if "(t, ds) \<in> set (AList.update tm (AList.update docID posting docs) (index m))" for t ds
    using in_set_update [OF that] new 2(2) by (auto simp: wf_mem_def)
  then have "wf_mem (m\<lparr>index := AList.update tm (AList.update docID posting docs) (index m),
      memSize := memSize m + int (length tm + length docID + length (Positions posting) * 8 + 64)\<rparr>)"
    using 2(2) by (auto simp: wf_mem_def distinct_update)
  with 2(1) [OF docs_def] 2(3) show ?case
    by (simp add: docs_def Let_def)
qed

section \<open>Operations on the abstract view\<close>

lemma docCount_upsertLoop [simp]: "docCount (upsertLoop docID m td) = docCount m"
  by (induction docID m td rule: upsertLoop.induct) (auto simp: Let_def)

lemma mem_lookup_docCount [simp]: "mem_lookup (m\<lparr>docCount := n\<rparr>) = mem_lookup m"
  by (simp add: mem_lookup_def fun_eq_iff)

lemma mem_lookup_New [abs_simps]: "mem_lookup NewMemoryIndex t d = None"
  by (simp add: mem_lookup_def NewMemoryIndex_def)

lemma mem_lookup_Reset [abs_simps]: "mem_lookup (Reset m) t d = None"
  by (simp add: mem_lookup_def Reset_def)

lemma mem_lookup_AddDocument [abs_simps]:
  "mem_lookup (AddDocument m docID title body) t d =
     (if d = docID \<and> t \<in> set (termsOf (title @ '' '' @ body))
      then Some (doc_posting docID t (title @ '' '' @ body)) else mem_lookup m t d)"
proof -
  have "distinct (map fst (termDataLoop docID [] (Tokenize (title @ '' '' @ body))))"
    by (rule distinct_termDataLoop) simp
  from mem_lookup_upsertLoop [OF this] show ?thesis
    by (simp add: AddDocument_def Let_def map_of_termData del: append_Cons append_Nil)
qed

lemma docCount_AddDocument [simp]: "docCount (AddDocument m docID title body) = docCount m + 1"
  by (simp add: AddDocument_def Let_def)

lemma wf_NewMemoryIndex [wf_intros]: "wf_mem NewMemoryIndex"
  by (simp add: wf_mem_def NewMemoryIndex_def)

lemma wf_Reset [wf_intros]: "wf_mem (Reset m)"
  by (simp add: wf_mem_def Reset_def)

lemma wf_AddDocument [wf_intros]:
  assumes "wf_mem m"
  shows "wf_mem (AddDocument m docID title body)"
proof -
  let ?s = "title @ '' '' @ body"
  let ?td = "termDataLoop docID [] (Tokenize ?s)"
  have d: "distinct (map fst ?td)" by (rule distinct_termDataLoop) simp
  have "DocID p = docID \<and> wf_posting p" if "(t, p) \<in> set ?td" for t p
  proof -
    from that d have "map_of ?td t = Some p" by simp
    then have "t \<in> set (termsOf ?s)" "p = doc_posting docID t ?s"
      by (auto simp only: map_of_termData option.inject split: if_splits)
    then show ?thesis using wf_doc_posting by (simp add: doc_posting_def)
  qed
  then have "wf_mem (upsertLoop docID m ?td)"
    using wf_upsertLoop [OF assms] by blast
  then show ?thesis
    by (simp add: AddDocument_def Let_def wf_mem_def)
qed

section \<open>Search and Snapshot\<close>

lemma map_snd_DocID: "wf_docs docs \<Longrightarrow> map DocID (map snd docs) = map fst docs"
  by (auto simp: wf_docs_def)

lemma wf_memD: "wf_mem m \<Longrightarrow> map_of (index m) t = Some docs \<Longrightarrow> wf_docs docs"
  by (auto simp: wf_mem_def dest!: map_of_SomeD)

lemma sorted_docs:
  assumes "wf_docs docs"
  shows "sorted_wrt (<) (map DocID (sort_key DocID (map snd docs)))"
proof (rule sorted_map_strict)
  show "distinct (map DocID (sort_key DocID (map snd docs)))"
    unfolding distinct_map_sort_key map_snd_DocID [OF assms] using assms by (simp add: wf_docs_def)
qed simp

lemma in_docs_iff:
  assumes "wf_docs docs"
  shows "p \<in> snd ` set docs \<longleftrightarrow> map_of docs (DocID p) = Some p"
  using assms by (force simp: wf_docs_def image_iff)

interpretation mem: posting_source wf_mem memSearch mem_lookup
proof
  fix m t
  assume "wf_mem m"
  then show "sorted_wrt (<) (map DocID (memSearch m t))"
    by (auto simp: memSearch_def sorted_docs dest: wf_memD split: option.splits)
next
  fix m t p
  assume m: "wf_mem m"
  show "p \<in> set (memSearch m t) \<longleftrightarrow> mem_lookup m t (DocID p) = Some p"
  proof (cases "map_of (index m) t")
    case (Some docs)
    with in_docs_iff [OF wf_memD [OF m Some], of p] show ?thesis
      by (simp add: memSearch_def mem_lookup_def)
  qed (simp add: memSearch_def mem_lookup_def)
next
  fix m t d p
  assume "wf_mem m" and "mem_lookup m t d = Some p"
  then obtain docs where docs: "wf_docs docs" and "map_of docs d = Some p"
    by (auto simp: mem_lookup_def dest: wf_memD split: bind_splits)
  then show "DocID p = d"
    by (auto simp: wf_docs_def dest!: map_of_SomeD)
qed

text \<open>The snapshot lists every term of the index once, in order, with its sorted postings.\<close>

lemma map_of_Snapshot:
  assumes "wf_mem m"
  shows "map_of (map (\<lambda>e. (entryTerm e, Postings e)) (Snapshot m)) t =
    (if t \<in> dom (map_of (index m)) then Some (memSearch m t) else None)"
proof -
  let ?es = "map (\<lambda>(t, docs). \<lparr>entryTerm = t, Postings = sort_key DocID (map snd docs)\<rparr>) (index m)"
  let ?f = "\<lambda>e. (entryTerm e, Postings e)"
  have fst: "map fst (map ?f ?es) = map fst (index m)"
    by auto
  have "mset (map ?f (Snapshot m)) = mset (map ?f ?es)"
    by (simp add: Snapshot_def multiset.map_comp comp_def)
  moreover have "distinct (map fst (map ?f ?es))"
    unfolding fst using assms by (simp add: wf_mem_def)
  ultimately have "map_of (map ?f (Snapshot m)) = map_of (map ?f ?es)"
    using map_of_mset_eq [of "map ?f ?es" "map ?f (Snapshot m)"] by simp
  also have "map ?f ?es = map (\<lambda>(t, docs). (t, sort_key DocID (map snd docs))) (index m)"
    by auto
  finally show ?thesis
    by (auto simp: map_of_map_snd memSearch_def split: option.splits)
qed

lemma sorted_Snapshot:
  assumes "wf_mem m"
  shows "sorted_wrt (<) (map entryTerm (Snapshot m))"
proof (rule sorted_map_strict)
  have "map entryTerm (map (\<lambda>(t, docs). \<lparr>entryTerm = t, Postings = sort_key DocID (map snd docs)\<rparr>)
      (index m)) = map fst (index m)"
    by auto
  then show "distinct (map entryTerm (Snapshot m))"
    unfolding Snapshot_def distinct_map_sort_key using assms by (simp only: wf_mem_def)
qed (simp add: Snapshot_def)

lemma Snapshot_entry:
  assumes "wf_mem m" and "e \<in> set (Snapshot m)"
  shows "Postings e = memSearch m (entryTerm e)"
proof -
  from assms(2) obtain t docs where "(t, docs) \<in> set (index m)"
    and e: "e = \<lparr>entryTerm = t, Postings = sort_key DocID (map snd docs)\<rparr>"
    by (auto simp: Snapshot_def)
  with assms(1) have "map_of (index m) t = Some docs" by (simp add: wf_mem_def)
  with e show ?thesis by (simp add: memSearch_def)
qed

lemma entryTerm_Snapshot: "entryTerm ` set (Snapshot m) = fst ` set (index m)"
  by (force simp: Snapshot_def)

lemma Snapshot_alt:
  assumes "wf_mem m"
  shows "Snapshot m = map (\<lambda>t. \<lparr>entryTerm = t, Postings = memSearch m t\<rparr>)
    (sorted_list_of_set (fst ` set (index m)))"
proof -
  have "map entryTerm (Snapshot m) = sorted_list_of_set (set (map entryTerm (Snapshot m)))"
    using sorted_Snapshot [OF assms]
    by (metis sorted_list_of_set.idem_if_sorted_distinct strict_sorted_iff)
  then have "sorted_list_of_set (fst ` set (index m)) = map entryTerm (Snapshot m)"
    by (simp add: entryTerm_Snapshot)
  then show ?thesis
    using Snapshot_entry [OF assms] by (auto intro!: map_idI [symmetric] simp: comp_def)
qed

lemma terms_of_view:
  assumes "wf_mem m"
  shows "fst ` set (index m) = {t. \<exists>d p. mem_lookup m t d = Some p}"
proof -
  have "docs \<noteq> []" if "map_of (index m) t = Some docs" for t docs
    using wf_memD [OF assms that] by (simp add: wf_docs_def)
  then have "(\<exists>d p. mem_lookup m t d = Some p) \<longleftrightarrow> map_of (index m) t \<noteq> None" for t
    by (force simp: mem_lookup_def neq_Nil_conv split: bind_splits)
  then show ?thesis by (auto simp: map_of_eq_None_iff)
qed

lemma Snapshot_Nil [simp]: "Snapshot m = [] \<longleftrightarrow> index m = []"
proof -
  have "length (Snapshot m) = length (index m)" by (simp add: Snapshot_def)
  then show ?thesis by auto
qed

section \<open>Properties\<close>

text \<open>
  C2: \<open>AddDocument\<close> upserts exactly the postings of the new document: for every term of its text
  the index then holds the number and the positions of the term's occurrences, whatever it held
  for that document and term before; every other posting is unchanged. The well-formedness
  invariant (distinct keys, postings filed under their own document, frequency equal to the
  number of strictly increasing positions) is kept and the document counter grows by one.
\<close>

theorem AddDocument_correct:
  assumes "wf_mem m"
  shows "wf_mem (AddDocument m docID title body) \<and>
    docCount (AddDocument m docID title body) = docCount m + 1 \<and>
    (\<forall>t d. mem_lookup (AddDocument m docID title body) t d =
       (if d = docID \<and> t \<in> set (termsOf title @ termsOf body)
        then Some (doc_posting docID t (title @ '' '' @ body)) else mem_lookup m t d))"
  using wf_AddDocument [OF assms] termsOf_join [of title body]
  by (simp add: mem_lookup_AddDocument)

theorem AddDocument_correct_witness:
  "wf_mem NewMemoryIndex \<and>
   mem_lookup (AddDocument NewMemoryIndex ''d1'' ''Go search'' ''go index'') ''go'' ''d1'' =
     Some \<lparr>DocID = ''d1'', Frequency = 2, Positions = [0, 2]\<rparr>"
proof -
  have "wf_mem NewMemoryIndex" by (rule wf_NewMemoryIndex)
  moreover have "''go'' \<in> set (termsOf ''Go search'' @ termsOf ''go index'')"
    by code_simp
  moreover have "doc_posting ''d1'' ''go'' (''Go search'' @ '' '' @ ''go index'') =
      \<lparr>DocID = ''d1'', Frequency = 2, Positions = [0, 2]\<rparr>"
    by code_simp
  ultimately show ?thesis
    using AddDocument_correct [of NewMemoryIndex "''d1''" "''Go search''" "''go index''"] by simp
qed

text \<open>
  C3: the memory index answers by content only. \<open>Search\<close> returns exactly the postings held for
  the term, by strictly increasing document ID, and \<open>Snapshot\<close> lists every indexed term once,
  in increasing order, with the answer of \<open>Search\<close>; two indexes that hold the same postings
  give the same answers, however Go's maps order their iterations.
\<close>

theorem memSearch_correct:
  assumes "wf_mem m" and "wf_mem m'" and "\<And>t d. mem_lookup m t d = mem_lookup m' t d"
  shows "sorted_wrt (<) (map DocID (memSearch m t)) \<and>
    (p \<in> set (memSearch m t) \<longleftrightarrow> mem_lookup m t (DocID p) = Some p) \<and>
    sorted_wrt (<) (map entryTerm (Snapshot m)) \<and>
    Snapshot m = map (\<lambda>t. \<lparr>entryTerm = t, Postings = memSearch m t\<rparr>)
      (sorted_list_of_set {t. \<exists>d p. mem_lookup m t d = Some p}) \<and>
    memSearch m t = memSearch m' t \<and> Snapshot m = Snapshot m'"
proof -
  from assms(3) have view: "mem_lookup m = mem_lookup m'" by (simp add: fun_eq_iff)
  have eq: "memSearch m = memSearch m'"
    using mem.search_unique [OF assms(1,2)] by (simp add: view fun_eq_iff)
  show ?thesis
    using Snapshot_alt [OF assms(1)] Snapshot_alt [OF assms(2)] sorted_Snapshot [OF assms(1)]
    by (simp add: mem.search_sorted mem.search_view assms(1,2) terms_of_view view eq)
qed

theorem memSearch_correct_witness:
  "memSearch (AddDocument (AddDocument NewMemoryIndex ''b'' ''go'' ''x'') ''a'' ''go'' ''y'') ''go'' =
   memSearch (AddDocument (AddDocument NewMemoryIndex ''a'' ''go'' ''y'') ''b'' ''go'' ''x'') ''go''"
proof -
  let ?m = "AddDocument (AddDocument NewMemoryIndex ''b'' ''go'' ''x'') ''a'' ''go'' ''y''"
  let ?m' = "AddDocument (AddDocument NewMemoryIndex ''a'' ''go'' ''y'') ''b'' ''go'' ''x''"
  have "wf_mem ?m" "wf_mem ?m'" by (intro wf_intros)+
  moreover have "mem_lookup ?m t d = mem_lookup ?m' t d" for t d
    by (simp only: abs_simps) auto
  ultimately show ?thesis
    using memSearch_correct [of ?m ?m' "''go''"] by blast
qed

end
