(* ===== verification/Segment.thy ===== *)
theory Segment
  imports Posting Json "HOL-Library.Word"
begin

text \<open>
  Package \<open>internal/indexer/segment\<close>: the binary segment format. \<open>Write\<close> builds the file under a
  temporary name and renames it; \<open>OpenReader\<close> reads the 64-byte header and the JSON dictionary;
  \<open>readerSearch\<close> finds a term by binary search and decodes its posting list.

  Files are byte sequences, a data directory an association list from names to entries. Every
  file operation may fail: \<open>io op\<close> is \<open>None\<close> when the operation succeeds and \<open>Some k\<close> when it fails
  after \<open>k\<close> of its bytes have reached the file. The wall clock is an argument.
\<close>

unbundle bit_operations_syntax

type_synonym bytes = string

datatype dirent = RegFile bytes | SubDir

type_synonym dir = "(string \<times> dirent) list"

datatype io_op =
  OpMkdir | OpCreate | OpWriteHeader | OpWritePostings string | OpWriteDict | OpWriteFooter
| OpUpdateHeader | OpSync | OpRename

type_synonym io = "io_op \<Rightarrow> nat option"

datatype seg_error =
  ErrEmptySegment | ErrMkdir | ErrCreate | ErrWriteHeader | ErrWritePostings string | ErrWriteDict
| ErrWriteFooter | ErrUpdateHeader | ErrSync | ErrRename
| ErrOpen | ErrReadHeader | ErrBadMagic "32 word" | ErrReadDict | ErrParseDict
| ErrReadPostings | ErrParsePostings | ErrPanic

section \<open>Data\<close>

definition MagicBytes :: "32 word" where "MagicBytes = 0x53504458"
definition FormatVersion :: "32 word" where "FormatVersion = 1"
definition HeaderSize :: nat where "HeaderSize = 64"
definition FooterSize :: nat where "FooterSize = 32"

record SegmentHeader =
  Magic :: "32 word"
  Version :: "32 word"
  TermCount :: "32 word"
  hdrDocCount :: "32 word"
  CreatedAt :: int
  DictOffset :: int
  DictSize :: int
  hdrPostOffset :: int
  PostSize :: int

record DictEntry =
  dictTerm :: string
  PostOffset :: int
  PostLen :: int
  DocFreq :: int

record Reader =
  rdFile :: bytes
  rdName :: string
  rdHeader :: SegmentHeader
  rdDict :: "DictEntry list"
  postBase :: int

section \<open>Bytes: little-endian fields and CRC-32\<close>

text \<open>\<open>binary.LittleEndian.PutUint32\<close>, \<open>PutUint64\<close> and their inverses on an \<open>n\<close>-byte field.\<close>

definition leBytes :: "nat \<Rightarrow> nat \<Rightarrow> bytes" where
  "leBytes n v = map (\<lambda>i. char_of (v div 256 ^ i mod 256)) [0..<n]"

definition leVal :: "bytes \<Rightarrow> nat" where
  "leVal bs = foldr (\<lambda>c a. of_char c + 256 * a) bs 0"

definition PutUint32 :: "32 word \<Rightarrow> bytes" where
  "PutUint32 w = leBytes 4 (unat w)"

definition PutUint64 :: "64 word \<Rightarrow> bytes" where
  "PutUint64 w = leBytes 8 (unat w)"

definition Uint32 :: "bytes \<Rightarrow> 32 word" where
  "Uint32 bs = word_of_nat (leVal bs)"

definition Uint64 :: "bytes \<Rightarrow> 64 word" where
  "Uint64 bs = word_of_nat (leVal bs)"

text \<open>Writing a field into a buffer at an offset, and the slice \<open>buf[i:j]\<close>.\<close>

definition putAt :: "nat \<Rightarrow> bytes \<Rightarrow> bytes \<Rightarrow> bytes" where
  "putAt off bs buf = take off buf @ bs @ drop (off + length bs) buf"

definition slice :: "nat \<Rightarrow> nat \<Rightarrow> bytes \<Rightarrow> bytes" where
  "slice i j buf = take (j - i) (drop i buf)"

text \<open>\<open>crc32.ChecksumIEEE\<close> (reflected polynomial 0xEDB88320).\<close>

fun crcBits :: "nat \<Rightarrow> 32 word \<Rightarrow> 32 word" where
  "crcBits 0 c = c"
| "crcBits (Suc n) c =
     crcBits n (if c AND 1 = 1 then drop_bit 1 c XOR 0xEDB88320 else drop_bit 1 c)"

definition ChecksumIEEE :: "bytes \<Rightarrow> 32 word" where
  "ChecksumIEEE bs = NOT (foldl (\<lambda>c b. crcBits 8 (c XOR word_of_nat (of_char b))) (NOT 0) bs)"

section \<open>JSON images of postings and dictionary entries\<close>

definition jsonPosting :: "posting \<Rightarrow> json" where
  "jsonPosting p = JObj [(''DocID'', JStr (DocID p)), (''Frequency'', jint (Frequency p)),
     (''Positions'', JArr (map jint (Positions p)))]"

definition jsonPostings :: "PostingList \<Rightarrow> json" where
  "jsonPostings ps = JArr (map jsonPosting ps)"

definition jsonDictEntry :: "DictEntry \<Rightarrow> json" where
  "jsonDictEntry e = JObj [(''t'', JStr (dictTerm e)), (''o'', jint (PostOffset e)),
     (''l'', jint (PostLen e)), (''d'', jint (DocFreq e))]"

definition jsonDict :: "DictEntry list \<Rightarrow> json" where
  "jsonDict es = JArr (map jsonDictEntry es)"

fun decodePostingFields :: "posting \<Rightarrow> (string \<times> json) list \<Rightarrow> posting option" where
  "decodePostingFields p [] = Some p"
| "decodePostingFields p ((k, v) # ms) =
     (if keyIs ''DocID'' k then
        (case decodeString (DocID p) v of None \<Rightarrow> None | Some x \<Rightarrow> decodePostingFields (p\<lparr>DocID := x\<rparr>) ms)
      else if keyIs ''Frequency'' k then
        (case decodeInt (Frequency p) v of None \<Rightarrow> None | Some x \<Rightarrow> decodePostingFields (p\<lparr>Frequency := x\<rparr>) ms)
      else if keyIs ''Positions'' k then
        (case decodeSlice (decodeInt 0) v of None \<Rightarrow> None | Some x \<Rightarrow> decodePostingFields (p\<lparr>Positions := x\<rparr>) ms)
      else decodePostingFields p ms)"

definition decodePosting :: "json \<Rightarrow> posting option" where
  "decodePosting v =
     (case v of
        JObj ms \<Rightarrow> decodePostingFields \<lparr>DocID = [], Frequency = 0, Positions = []\<rparr> ms
      | JNull \<Rightarrow> Some \<lparr>DocID = [], Frequency = 0, Positions = []\<rparr>
      | _ \<Rightarrow> None)"

fun decodeDictFields :: "DictEntry \<Rightarrow> (string \<times> json) list \<Rightarrow> DictEntry option" where
  "decodeDictFields e [] = Some e"
| "decodeDictFields e ((k, v) # ms) =
     (if keyIs ''t'' k then
        (case decodeString (dictTerm e) v of None \<Rightarrow> None | Some x \<Rightarrow> decodeDictFields (e\<lparr>dictTerm := x\<rparr>) ms)
      else if keyIs ''o'' k then
        (case decodeInt (PostOffset e) v of None \<Rightarrow> None | Some x \<Rightarrow> decodeDictFields (e\<lparr>PostOffset := x\<rparr>) ms)
      else if keyIs ''l'' k then
        (case decodeInt (PostLen e) v of None \<Rightarrow> None | Some x \<Rightarrow> decodeDictFields (e\<lparr>PostLen := x\<rparr>) ms)
      else if keyIs ''d'' k then
        (case decodeInt (DocFreq e) v of None \<Rightarrow> None | Some x \<Rightarrow> decodeDictFields (e\<lparr>DocFreq := x\<rparr>) ms)
      else decodeDictFields e ms)"

definition decodeDictEntry :: "json \<Rightarrow> DictEntry option" where
  "decodeDictEntry v =
     (case v of
        JObj ms \<Rightarrow> decodeDictFields \<lparr>dictTerm = [], PostOffset = 0, PostLen = 0, DocFreq = 0\<rparr> ms
      | JNull \<Rightarrow> Some \<lparr>dictTerm = [], PostOffset = 0, PostLen = 0, DocFreq = 0\<rparr>
      | _ \<Rightarrow> None)"

definition UnmarshalPostings :: "bytes \<Rightarrow> PostingList option" where
  "UnmarshalPostings bs = Option.bind (parseJson bs) (decodeSlice decodePosting)"

definition UnmarshalDict :: "bytes \<Rightarrow> DictEntry list option" where
  "UnmarshalDict bs = Option.bind (parseJson bs) (decodeSlice decodeDictEntry)"

section \<open>Writer\<close>

text \<open>
  The loop over the entries. \<open>f\<close> is the file written so far (its length is the file position),
  the result carries the dictionary and the set of document IDs, or the error.
\<close>

fun writePostings ::
  "io \<Rightarrow> nat \<Rightarrow> bytes \<Rightarrow> DictEntry list \<Rightarrow> string set \<Rightarrow> TermEntry list \<Rightarrow>
   (seg_error + DictEntry list \<times> string set) \<times> bytes"
where
  "writePostings io postingsStart f dict docIDs [] = (Inr (dict, docIDs), f)"
| "writePostings io postingsStart f dict docIDs (entry # entries) =
     (let relativeOffset = int (length f) - int postingsStart;
          postingsData = render (jsonPostings (Postings entry))
      in case io (OpWritePostings (entryTerm entry)) of
           Some k \<Rightarrow> (Inl (ErrWritePostings (entryTerm entry)), f @ take k postingsData)
         | None \<Rightarrow>
             writePostings io postingsStart (f @ postingsData)
               (dict @ [\<lparr>dictTerm = entryTerm entry, PostOffset = relativeOffset,
                        PostLen = int (length postingsData),
                        DocFreq = int (length (Postings entry))\<rparr>])
               (docIDs \<union> DocID ` set (Postings entry)) entries)"

definition header0 :: "nat \<Rightarrow> bytes" where
  "header0 nterms =
     putAt 8 (PutUint32 (word_of_nat nterms))
       (putAt 4 (PutUint32 FormatVersion)
         (putAt 0 (PutUint32 MagicBytes) (replicate HeaderSize (CHR 0x00))))"

definition header1 :: "bytes \<Rightarrow> nat \<Rightarrow> nat \<Rightarrow> nat \<Rightarrow> nat \<Rightarrow> nat \<Rightarrow> bytes" where
  "header1 headerBytes ndocs dictStart dictSize postingsStart postingsSize =
     putAt 40 (PutUint64 (word_of_nat postingsSize))
       (putAt 32 (PutUint64 (word_of_nat postingsStart))
         (putAt 24 (PutUint64 (word_of_nat dictSize))
           (putAt 16 (PutUint64 (word_of_nat dictStart))
             (putAt 12 (PutUint32 (word_of_nat ndocs)) headerBytes))))"

definition mkFooter :: "32 word \<Rightarrow> nat \<Rightarrow> nat \<Rightarrow> nat \<Rightarrow> nat \<Rightarrow> bytes" where
  "mkFooter checksum ndocs dictStart dictSize postingsSize =
     putAt 24 (PutUint64 (word_of_nat postingsSize))
       (putAt 16 (PutUint64 (word_of_nat dictSize))
         (putAt 8 (PutUint64 (word_of_nat dictStart))
           (putAt 4 (PutUint32 (word_of_nat ndocs))
             (putAt 0 (PutUint32 checksum) (replicate FooterSize (CHR 0x00))))))"

text \<open>The body of \<open>Write\<close> between creating and renaming the file: its result and the file.\<close>

definition writeFile :: "io \<Rightarrow> TermEntry list \<Rightarrow> (seg_error + unit) \<times> bytes" where
  "writeFile io entries =
     (let headerBytes = header0 (length entries)
      in case io OpWriteHeader of
        Some k \<Rightarrow> (Inl ErrWriteHeader, take k headerBytes)
      | None \<Rightarrow>
        (let postingsStart = length headerBytes
         in case writePostings io postingsStart headerBytes [] {} entries of
           (Inl err, f) \<Rightarrow> (Inl err, f)
         | (Inr (dict, docIDs), f) \<Rightarrow>
           (let postingsEnd = length f;
                postingsSize = postingsEnd - postingsStart;
                dictStart = postingsEnd;
                dictData = render (jsonDict dict)
            in case io OpWriteDict of
              Some k \<Rightarrow> (Inl ErrWriteDict, f @ take k dictData)
            | None \<Rightarrow>
              (let f2 = f @ dictData;
                   dictSize = length f2 - dictStart;
                   footer = mkFooter (ChecksumIEEE dictData) (card docIDs) dictStart dictSize postingsSize
               in case io OpWriteFooter of
                 Some k \<Rightarrow> (Inl ErrWriteFooter, f2 @ take k footer)
               | None \<Rightarrow>
                 (let f3 = f2 @ footer;
                      headerBytes2 = header1 headerBytes (card docIDs) dictStart dictSize
                        postingsStart postingsSize
                  in case io OpUpdateHeader of
                    Some k \<Rightarrow> (Inl ErrUpdateHeader, putAt 0 (take k headerBytes2) f3)
                  | None \<Rightarrow>
                    (case io OpSync of
                       Some k \<Rightarrow> (Inl ErrSync, putAt 0 headerBytes2 f3)
                     | None \<Rightarrow> (Inr (), putAt 0 headerBytes2 f3)))))))"

definition segmentName :: "int \<Rightarrow> string" where
  "segmentName nano = ''seg_'' @ show_int nano @ ''.spdx''"

definition Write :: "io \<Rightarrow> int \<Rightarrow> dir \<Rightarrow> TermEntry list \<Rightarrow> (seg_error + string) \<times> dir" where
  "Write io nano d entries =
     (if entries = [] then (Inl ErrEmptySegment, d)
      else
        (let finalPath = segmentName nano;
             tmpPath = finalPath @ ''.tmp''
         in if io OpMkdir \<noteq> None then (Inl ErrMkdir, d)
            else if io OpCreate \<noteq> None then (Inl ErrCreate, d)
            else
              (case writeFile io entries of
                 (Inl err, f) \<Rightarrow> (Inl err, AList.update tmpPath (RegFile f) d)
               | (Inr _, f) \<Rightarrow>
                   (if io OpRename \<noteq> None then (Inl ErrRename, AList.update tmpPath (RegFile f) d)
                    else (Inr finalPath,
                          AList.update finalPath (RegFile f) (AList.delete tmpPath d))))))"

section \<open>Reader\<close>

text \<open>
  \<open>make([]byte, n)\<close> panics for a negative length and beyond the allocator's limit; \<open>ReadAt\<close> fails
  on a negative offset and when fewer than \<open>n\<close> bytes are left.
\<close>

definition maxAlloc :: int where
  "maxAlloc = 2 ^ 48"

definition readAt :: "bytes \<Rightarrow> int \<Rightarrow> nat \<Rightarrow> bytes option" where
  "readAt f off n =
     (if off < 0 then None
      else if n = 0 then Some []
      else if nat off + n \<le> length f then Some (take n (drop (nat off) f))
      else None)"

definition OpenReader :: "dir \<Rightarrow> string \<Rightarrow> seg_error + Reader" where
  "OpenReader d name =
     (case map_of d name of
        None \<Rightarrow> Inl ErrOpen
      | Some SubDir \<Rightarrow> Inl ErrReadHeader
      | Some (RegFile f) \<Rightarrow>
          (case readAt f 0 HeaderSize of
             None \<Rightarrow> Inl ErrReadHeader
           | Some headerBytes \<Rightarrow>
               (let magic = Uint32 (slice 0 4 headerBytes)
                in if magic \<noteq> MagicBytes then Inl (ErrBadMagic magic)
                   else
                     (let header = \<lparr>Magic = magic,
                            Version = Uint32 (slice 4 8 headerBytes),
                            TermCount = Uint32 (slice 8 12 headerBytes),
                            hdrDocCount = Uint32 (slice 12 16 headerBytes),
                            CreatedAt = 0,
                            DictOffset = sint (Uint64 (slice 16 24 headerBytes)),
                            DictSize = sint (Uint64 (slice 24 32 headerBytes)),
                            hdrPostOffset = sint (Uint64 (slice 32 40 headerBytes)),
                            PostSize = sint (Uint64 (slice 40 48 headerBytes))\<rparr>
                      in if DictSize header < 0 \<or> maxAlloc < DictSize header then Inl ErrPanic
                         else
                           (case readAt f (DictOffset header) (nat (DictSize header)) of
                              None \<Rightarrow> Inl ErrReadDict
                            | Some dictBytes \<Rightarrow>
                                (case UnmarshalDict dictBytes of
                                   None \<Rightarrow> Inl ErrParseDict
                                 | Some dict \<Rightarrow>
                                     Inr \<lparr>rdFile = f, rdName = name, rdHeader = header, rdDict = dict,
                                          postBase = hdrPostOffset header\<rparr>))))))"

text \<open>\<open>sort.Search\<close>: the smallest index in \<open>[i, j)\<close> at which the monotone \<open>f\<close> holds, else \<open>j\<close>.\<close>

function sortSearch :: "(nat \<Rightarrow> bool) \<Rightarrow> nat \<Rightarrow> nat \<Rightarrow> nat" where
  "sortSearch f i j =
     (if i < j then
        (let h = (i + j) div 2
         in if \<not> f h then sortSearch f (h + 1) j else sortSearch f i h)
      else i)"
  by pat_completeness auto
termination
  by (relation "measure (\<lambda>(f, i, j). j - i)") auto

declare sortSearch.simps [simp del]

definition readerSearch :: "Reader \<Rightarrow> string \<Rightarrow> seg_error + PostingList" where
  "readerSearch r term =
     (let idx = sortSearch (\<lambda>i. term \<le> dictTerm (rdDict r ! i)) 0 (length (rdDict r))
      in if length (rdDict r) \<le> idx \<or> dictTerm (rdDict r ! idx) \<noteq> term then Inr []
         else
           (let entry = rdDict r ! idx
            in if PostLen entry < 0 \<or> maxAlloc < PostLen entry then Inl ErrPanic
               else
                 (case readAt (rdFile r) (postBase r + PostOffset entry) (nat (PostLen entry)) of
                    None \<Rightarrow> Inl ErrReadPostings
                  | Some postingsBytes \<Rightarrow>
                      (case UnmarshalPostings postingsBytes of
                         None \<Rightarrow> Inl ErrParsePostings
                       | Some postings \<Rightarrow> Inr postings))))"

definition Terms :: "Reader \<Rightarrow> int" where
  "Terms r = int (length (rdDict r))"

definition readerDocCount :: "Reader \<Rightarrow> 32 word" where
  "readerDocCount r = hdrDocCount (rdHeader r)"

definition Name :: "Reader \<Rightarrow> string" where
  "Name r = rdName r"

section \<open>Fixed-width fields\<close>

lemma leBytes_Suc: "leBytes (Suc n) v = char_of (v mod 256) # leBytes n (v div 256)"
proof -
  have "[0..<Suc n] = 0 # map Suc [0..<n]" by (simp add: upt_conv_Cons map_Suc_upt del: upt_Suc)
  then show ?thesis by (simp add: leBytes_def div_mult2_eq comp_def del: upt_Suc)
qed

lemma length_leBytes [simp]: "length (leBytes n v) = n"
  by (simp add: leBytes_def)

lemma leVal_leBytes: "leVal (leBytes n v) = v mod 256 ^ n"
proof (induction n arbitrary: v)
  case 0
  then show ?case by (simp add: leBytes_def leVal_def)
next
  case (Suc n)
  have "leVal (leBytes (Suc n) v) = v mod 256 + 256 * leVal (leBytes n (v div 256))"
    by (simp add: leBytes_Suc leVal_def of_char_of)
  then show ?case by (simp add: Suc mod_mult2_eq)
qed

lemma length_PutUint [simp]: "length (PutUint32 w) = 4" "length (PutUint64 x) = 8"
  by (simp_all add: PutUint32_def PutUint64_def)

lemma Uint_PutUint [simp]: "Uint32 (PutUint32 w) = w" "Uint64 (PutUint64 x) = x"
proof -
  have "unat w < 2 ^ 32" using unsigned_less [of w] by simp
  then show "Uint32 (PutUint32 w) = w"
    by (simp add: Uint32_def PutUint32_def leVal_leBytes)
  have "unat x < 2 ^ 64" using unsigned_less [of x] by simp
  then show "Uint64 (PutUint64 x) = x"
    by (simp add: Uint64_def PutUint64_def leVal_leBytes)
qed

lemma sint_word_of_nat: "n < 2 ^ 63 \<Longrightarrow> sint (word_of_nat n :: 64 word) = int n"
  by (simp add: sint_uint signed_take_bit_int_eq_self unsigned_of_nat take_bit_nat_eq_self)

lemma putAt_mid:
  "length a = off \<Longrightarrow> length b = length bs \<Longrightarrow> putAt off bs (a @ b @ c) = a @ bs @ c"
  by (simp add: putAt_def)

lemma slice_mid: "length a = i \<Longrightarrow> length b = j - i \<Longrightarrow> slice i j (a @ b @ c) = b"
  by (simp add: slice_def)

text \<open>The header and the footer are the concatenation of their fields.\<close>

definition headerImage :: "nat \<Rightarrow> nat \<Rightarrow> nat \<Rightarrow> nat \<Rightarrow> nat \<Rightarrow> nat \<Rightarrow> bytes" where
  "headerImage nterms ndocs dictStart dictSize postingsStart postingsSize =
     PutUint32 MagicBytes @ PutUint32 FormatVersion @ PutUint32 (word_of_nat nterms) @
     PutUint32 (word_of_nat ndocs) @ PutUint64 (word_of_nat dictStart) @
     PutUint64 (word_of_nat dictSize) @ PutUint64 (word_of_nat postingsStart) @
     PutUint64 (word_of_nat postingsSize) @ replicate 16 (CHR 0x00)"

abbreviation zeros :: "nat \<Rightarrow> bytes" where
  "zeros n \<equiv> replicate n (CHR 0x00)"

lemma header0_image:
  "header0 n = PutUint32 MagicBytes @ PutUint32 FormatVersion @ PutUint32 (word_of_nat n) @ zeros 52"
proof -
  have "zeros HeaderSize = [] @ zeros 4 @ zeros 4 @ zeros 4 @ zeros 52"
    by (simp add: HeaderSize_def replicate_add [symmetric])
  moreover have "putAt 0 a ([] @ zeros 4 @ c) = a @ c" if "length a = 4" for a c
    using that by (simp add: putAt_def)
  moreover have "putAt 4 b (a @ zeros 4 @ c) = a @ b @ c" if "length a = 4" "length b = 4" for a b c
    using that by (simp add: putAt_mid)
  moreover have "putAt 8 d (a @ b @ zeros 4 @ c) = a @ b @ d @ c"
    if "length a = 4" "length b = 4" "length d = 4" for a b c d
    using that putAt_mid [of "a @ b" 8 "zeros 4" d c] by simp
  ultimately show ?thesis by (simp only: header0_def length_PutUint)
qed

lemma header1_image:
  "header1 (header0 n) nd ds dz ps pz = headerImage n nd ds dz ps pz"
proof -
  let ?a = "PutUint32 MagicBytes @ PutUint32 FormatVersion @ PutUint32 (word_of_nat n)"
  have z: "zeros 52 = zeros 4 @ zeros 8 @ zeros 8 @ zeros 8 @ zeros 8 @ zeros 16"
    by (simp add: replicate_add [symmetric])
  have "header0 n = ?a @ zeros 4 @ zeros 8 @ zeros 8 @ zeros 8 @ zeros 8 @ zeros 16"
    by (simp only: header0_image z append_assoc)
  then have 1: "putAt 12 (PutUint32 (word_of_nat nd)) (header0 n) =
      (?a @ PutUint32 (word_of_nat nd)) @ zeros 8 @ zeros 8 @ zeros 8 @ zeros 8 @ zeros 16"
    using putAt_mid [of ?a 12 "zeros 4" "PutUint32 (word_of_nat nd)"] by simp
  let ?b = "?a @ PutUint32 (word_of_nat nd)"
  let ?c = "?b @ PutUint64 (word_of_nat ds)"
  let ?d = "?c @ PutUint64 (word_of_nat dz)"
  let ?e = "?d @ PutUint64 (word_of_nat ps)"
  have p: "putAt off w (u @ zeros 8 @ v) = (u @ w) @ v" if "length u = off" "length w = 8" for off u w v
    using that by (simp add: putAt_mid)
  have 2: "putAt 16 (PutUint64 (word_of_nat ds)) (?b @ zeros 8 @ zeros 8 @ zeros 8 @ zeros 8 @ zeros 16) =
      ?c @ zeros 8 @ zeros 8 @ zeros 8 @ zeros 16"
    by (rule p) simp_all
  have 3: "putAt 24 (PutUint64 (word_of_nat dz)) (?c @ zeros 8 @ zeros 8 @ zeros 8 @ zeros 16) =
      ?d @ zeros 8 @ zeros 8 @ zeros 16"
    by (rule p) simp_all
  have 4: "putAt 32 (PutUint64 (word_of_nat ps)) (?d @ zeros 8 @ zeros 8 @ zeros 16) =
      ?e @ zeros 8 @ zeros 16"
    by (rule p) simp_all
  have 5: "putAt 40 (PutUint64 (word_of_nat pz)) (?e @ zeros 8 @ zeros 16) =
      (?e @ PutUint64 (word_of_nat pz)) @ zeros 16"
    by (rule p) simp_all
  show ?thesis
    unfolding header1_def 1 2 3 4 5 by (simp only: headerImage_def append_assoc)
qed

lemma length_headers [simp]: "length (header0 n) = 64" "length (headerImage n nd ds dz ps pz) = 64"
  by (simp_all add: header0_image headerImage_def)

lemma slice_headerImage:
  "slice 0 4 (headerImage n nd ds dz ps pz) = PutUint32 MagicBytes"
  "slice 4 8 (headerImage n nd ds dz ps pz) = PutUint32 FormatVersion"
  "slice 8 12 (headerImage n nd ds dz ps pz) = PutUint32 (word_of_nat n)"
  "slice 12 16 (headerImage n nd ds dz ps pz) = PutUint32 (word_of_nat nd)"
  "slice 16 24 (headerImage n nd ds dz ps pz) = PutUint64 (word_of_nat ds)"
  "slice 24 32 (headerImage n nd ds dz ps pz) = PutUint64 (word_of_nat dz)"
  "slice 32 40 (headerImage n nd ds dz ps pz) = PutUint64 (word_of_nat ps)"
  "slice 40 48 (headerImage n nd ds dz ps pz) = PutUint64 (word_of_nat pz)"
  by (simp_all add: slice_def headerImage_def)

section \<open>JSON round trips\<close>

definition int64_posting :: "posting \<Rightarrow> bool" where
  "int64_posting p \<longleftrightarrow> int64 (Frequency p) \<and> list_all int64 (Positions p)"

lemma jok_jint [simp]: "jok (jint i)"
  by (simp add: jint_def)

lemma decodeInt_jint [simp]: "int64 i \<Longrightarrow> decodeInt old (jint i) = Some i"
  by (simp add: decodeInt_def jint_def ParseInt_show_int)

lemma decodeList_map: "(\<And>x. x \<in> set xs \<Longrightarrow> d (j x) = Some x) \<Longrightarrow> decodeList d (map j xs) = Some xs"
  by (induction xs) auto

lemma keyIs_simps [simp]:
  "keyIs ''DocID'' ''DocID''" "\<not> keyIs ''DocID'' ''Frequency''" "\<not> keyIs ''DocID'' ''Positions''"
  "keyIs ''Frequency'' ''Frequency''" "\<not> keyIs ''Frequency'' ''Positions''"
  "keyIs ''Positions'' ''Positions''"
  "keyIs ''t'' ''t''" "\<not> keyIs ''t'' ''o''" "\<not> keyIs ''t'' ''l''" "\<not> keyIs ''t'' ''d''"
  "keyIs ''o'' ''o''" "\<not> keyIs ''o'' ''l''" "\<not> keyIs ''o'' ''d''"
  "keyIs ''l'' ''l''" "\<not> keyIs ''l'' ''d''" "keyIs ''d'' ''d''"
  by (simp_all add: keyIs_def ToLower_def lowerChar_def isUpperAscii_def char_le_nat)

lemma decodePosting_json:
  assumes "int64_posting p"
  shows "decodePosting (jsonPosting p) = Some p"
proof -
  have "decodeList (decodeInt 0) (map jint (Positions p)) = Some (Positions p)"
    using assms by (intro decodeList_map) (simp add: int64_posting_def list_all_iff)
  with assms show ?thesis
    by (simp add: decodePosting_def jsonPosting_def decodeString_def decodeSlice_def int64_posting_def)
qed

lemma UnmarshalPostings_render:
  assumes "\<forall>p \<in> set ps. int64_posting p"
  shows "UnmarshalPostings (render (jsonPostings ps)) = Some ps"
proof -
  have "parseJson (render (jsonPostings ps)) = Some (jsonPostings ps)"
    by (rule parse_render) (simp add: jsonPostings_def jsonPosting_def list_all_iff)
  moreover have "decodeList decodePosting (map jsonPosting ps) = Some ps"
    using assms by (intro decodeList_map) (simp add: decodePosting_json)
  ultimately show ?thesis
    unfolding UnmarshalPostings_def by (simp only: bind.simps) (simp add: decodeSlice_def jsonPostings_def)
qed

definition int64_dict :: "DictEntry \<Rightarrow> bool" where
  "int64_dict e \<longleftrightarrow> int64 (PostOffset e) \<and> int64 (PostLen e) \<and> int64 (DocFreq e)"

lemma UnmarshalDict_render:
  assumes "\<forall>e \<in> set es. int64_dict e"
  shows "UnmarshalDict (render (jsonDict es)) = Some es"
proof -
  have "parseJson (render (jsonDict es)) = Some (jsonDict es)"
    by (rule parse_render) (simp add: jsonDict_def jsonDictEntry_def list_all_iff)
  moreover have "decodeList decodeDictEntry (map jsonDictEntry es) = Some es"
    using assms
    by (intro decodeList_map) (auto simp: decodeDictEntry_def jsonDictEntry_def decodeString_def int64_dict_def)
  ultimately show ?thesis
    unfolding UnmarshalDict_def by (simp only: bind.simps) (simp add: decodeSlice_def jsonDict_def)
qed

section \<open>The image of a segment\<close>

definition entryData :: "TermEntry \<Rightarrow> bytes" where
  "entryData e = render (jsonPostings (Postings e))"

fun dictFrom :: "int \<Rightarrow> TermEntry list \<Rightarrow> DictEntry list" where
  "dictFrom off [] = []"
| "dictFrom off (e # es) =
     \<lparr>dictTerm = entryTerm e, PostOffset = off, PostLen = int (length (entryData e)),
      DocFreq = int (length (Postings e))\<rparr> # dictFrom (off + int (length (entryData e))) es"

definition entryDocs :: "TermEntry list \<Rightarrow> string set" where
  "entryDocs es = (\<Union>e \<in> set es. DocID ` set (Postings e))"

definition postingsImage :: "TermEntry list \<Rightarrow> bytes" where
  "postingsImage es = concat (map entryData es)"

definition dictImage :: "TermEntry list \<Rightarrow> bytes" where
  "dictImage es = render (jsonDict (dictFrom 0 es))"

definition segmentImage :: "TermEntry list \<Rightarrow> bytes" where
  "segmentImage es =
     (let nd = card (entryDocs es); ds = 64 + length (postingsImage es);
          dz = length (dictImage es); pz = length (postingsImage es)
      in headerImage (length es) nd ds dz 64 pz @ postingsImage es @ dictImage es @
         mkFooter (ChecksumIEEE (dictImage es)) nd ds dz pz)"

lemma writePostings_Inr:
  assumes "writePostings io st f d ids es = (Inr r, f')"
  shows "f' = f @ postingsImage es \<and>
    r = (d @ dictFrom (int (length f) - int st) es, ids \<union> entryDocs es)"
  using assms
proof (induction es arbitrary: f d ids)
  case Nil
  then show ?case by (simp add: postingsImage_def entryDocs_def)
next
  case (Cons e es)
  let ?d = "\<lparr>dictTerm = entryTerm e, PostOffset = int (length f) - int st,
    PostLen = int (length (entryData e)), DocFreq = int (length (Postings e))\<rparr>"
  have "writePostings io st (f @ entryData e) (d @ [?d]) (ids \<union> DocID ` set (Postings e)) es = (Inr r, f')"
    using Cons.prems by (simp add: Let_def entryData_def split: option.splits)
  from Cons.IH [OF this] show ?case
    by (auto simp: postingsImage_def entryDocs_def algebra_simps)
qed

lemma writePostings_no_fault:
  "(\<And>t. io (OpWritePostings t) = None) \<Longrightarrow> \<exists>r f'. writePostings io st f d ids es = (Inr r, f')"
  by (induction io st f d ids es rule: writePostings.induct) (auto simp: Let_def)

lemma writeFile_Inr:
  assumes "writeFile io es = (Inr u, f)"
  shows "f = segmentImage es"
  using assms
  by (auto simp: writeFile_def Let_def segmentImage_def header1_image putAt_def dictImage_def
      split: option.splits prod.splits sum.splits dest!: writePostings_Inr)

lemma writeFile_no_fault:
  assumes "\<And>op. io op = None"
  shows "writeFile io es = (Inr (), segmentImage es)"
proof -
  obtain r f' where w: "writePostings io 64 (header0 (length es)) [] {} es = (Inr r, f')"
    using writePostings_no_fault [of io] assms by blast
  obtain d ids where "r = (d, ids)" by fastforce
  with w have "\<exists>f. writeFile io es = (Inr (), f)"
    by (simp add: writeFile_def assms Let_def)
  then show ?thesis using writeFile_Inr by blast
qed

section \<open>Binary search\<close>

lemma sortSearch_spec:
  assumes "i \<le> j" and "\<And>a b. i \<le> a \<Longrightarrow> a \<le> b \<Longrightarrow> b < j \<Longrightarrow> f a \<Longrightarrow> f b"
  shows "i \<le> sortSearch f i j \<and> sortSearch f i j \<le> j \<and>
    (\<forall>a. i \<le> a \<and> a < sortSearch f i j \<longrightarrow> \<not> f a) \<and> (sortSearch f i j < j \<longrightarrow> f (sortSearch f i j))"
  using assms
proof (induction f i j rule: sortSearch.induct)
  case (1 f i j)
  show ?case
  proof (cases "i < j")
    case False
    then have "sortSearch f i j = i" by (simp add: sortSearch.simps [of f i j])
    with False 1(3) show ?thesis by auto
  next
    case True
    let ?h = "(i + j) div 2"
    have h: "i \<le> ?h" "?h < j" using True by auto
    show ?thesis
    proof (cases "f ?h")
      case True
      define s where "s = sortSearch f i ?h"
      have eq: "sortSearch f i j = s"
        using \<open>i < j\<close> True by (simp add: sortSearch.simps [of f i j] Let_def s_def)
      have s: "i \<le> s \<and> s \<le> ?h \<and> (\<forall>a. i \<le> a \<and> a < s \<longrightarrow> \<not> f a) \<and> (s < ?h \<longrightarrow> f s)"
        unfolding s_def
      proof (rule 1(2) [OF \<open>i < j\<close> refl])
        show "f b" if "i \<le> a" "a \<le> b" "b < ?h" "f a" for a b
          using 1(4) [OF that(1,2) _ that(4)] that(3) h(2) by linarith
      qed (use True h in simp_all)
      then have "s < ?h \<or> s = ?h" by linarith
      then have "f s" using s True by metis
      moreover have "s \<le> j" using s h by linarith
      ultimately show ?thesis unfolding eq using s by blast
    next
      case False
      have low: "\<not> f a" if "i \<le> a" "a \<le> ?h" for a
        using False 1(4) [OF that h(2)] by blast
      define s where "s = sortSearch f (?h + 1) j"
      have eq: "sortSearch f i j = s"
        using \<open>i < j\<close> False by (simp add: sortSearch.simps [of f i j] Let_def s_def)
      have s: "?h + 1 \<le> s \<and> s \<le> j \<and> (\<forall>a. ?h + 1 \<le> a \<and> a < s \<longrightarrow> \<not> f a) \<and> (s < j \<longrightarrow> f s)"
        unfolding s_def
      proof (rule 1(1) [OF \<open>i < j\<close> refl])
        show "f b" if "?h + 1 \<le> a" "a \<le> b" "b < j" "f a" for a b
          using 1(4) [OF _ that(2,3,4)] that(1) h(1) by linarith
      qed (use False h in simp_all)
      have "\<not> f a" if "i \<le> a" "a < s" for a
      proof (cases "a \<le> ?h")
        case True
        then show ?thesis using low that by blast
      next
        case False
        then have "?h + 1 \<le> a" by linarith
        then show ?thesis using s that by blast
      qed
      moreover have "i \<le> s" using s h by linarith
      ultimately show ?thesis unfolding eq using s by blast
    qed
  qed
qed

lemma sortSearch_cong:
  "(\<And>a. a < j \<Longrightarrow> f a = g a) \<Longrightarrow> sortSearch f i j = sortSearch g i j"
proof (induction f i j rule: sortSearch.induct)
  case (1 f i j)
  show ?case
  proof (cases "i < j")
    case True
    then have h: "(i + j) div 2 < j" by simp
    with 1(3) have eq: "f ((i + j) div 2) = g ((i + j) div 2)" by blast
    show ?thesis
    proof (cases "f ((i + j) div 2)")
      case True
      then have "sortSearch f i ((i + j) div 2) = sortSearch g i ((i + j) div 2)"
        using 1(2) [OF \<open>i < j\<close> refl] 1(3) h by (meson order.strict_trans)
      with True eq show ?thesis
        using \<open>i < j\<close> by (simp add: sortSearch.simps [of f i j] sortSearch.simps [of g i j] Let_def)
    next
      case False
      with 1(1) [OF \<open>i < j\<close> refl] 1(3)
      have "sortSearch f ((i + j) div 2 + 1) j = sortSearch g ((i + j) div 2 + 1) j" by blast
      with False eq show ?thesis
        using \<open>i < j\<close> by (simp add: sortSearch.simps [of f i j] sortSearch.simps [of g i j] Let_def)
    qed
  next
    case False
    then show ?thesis by (simp add: sortSearch.simps [of f i j] sortSearch.simps [of g i j])
  qed
qed

lemma sortSearch_sorted:
  fixes xs :: "'a :: linorder list" and t :: 'a
  assumes "sorted_wrt (<) xs"
  defines "k \<equiv> sortSearch (\<lambda>i. t \<le> xs ! i) 0 (length xs)"
  shows "t \<in> set xs \<longleftrightarrow> k < length xs \<and> xs ! k = t"
proof -
  have mono: "xs ! a \<le> xs ! b" if "a \<le> b" "b < length xs" for a b
    using assms(1) that by (simp add: sorted_nth_mono strict_sorted_iff)
  have *: "k \<le> length xs" "\<And>a. a < k \<Longrightarrow> \<not> t \<le> xs ! a" "k < length xs \<Longrightarrow> t \<le> xs ! k"
    using sortSearch_spec [of 0 "length xs" "\<lambda>i. t \<le> xs ! i"] mono
    unfolding k_def by (auto intro: order.trans)
  show ?thesis
  proof
    assume "t \<in> set xs"
    then obtain j where j: "j < length xs" "xs ! j = t" by (auto simp: in_set_conv_nth)
    with *(2) [of j] have "k \<le> j" by force
    with *(3) j mono [of k j] show "k < length xs \<and> xs ! k = t" by force
  qed auto
qed

section \<open>Reading a segment image\<close>

lemma map_dictTerm_dictFrom [simp]: "map dictTerm (dictFrom off es) = map entryTerm es"
  by (induction es arbitrary: off) auto

lemma length_dictFrom [simp]: "length (dictFrom off es) = length es"
  by (induction es arbitrary: off) auto

lemma nth_dictFrom:
  "k < length es \<Longrightarrow> dictFrom off es ! k =
     \<lparr>dictTerm = entryTerm (es ! k), PostOffset = off + int (length (postingsImage (take k es))),
      PostLen = int (length (entryData (es ! k))), DocFreq = int (length (Postings (es ! k)))\<rparr>"
  by (induction es arbitrary: off k) (auto simp: nth_Cons' postingsImage_def take_Cons' gr0_conv_Suc)

lemma length_Join_ge: "\<forall>x \<in> set xs. x \<noteq> [] \<Longrightarrow> length xs \<le> length (Join xs sep)"
proof (induction xs sep rule: Join.induct)
  case (3 x y ys sep)
  then have "0 < length x" by simp
  with 3 show ?case by (simp del: length_greater_0_conv)
qed (auto simp: Suc_le_eq)

lemma length_entryData: "length (Postings e) \<le> length (entryData e)"
proof -
  have "length (map (render \<circ> jsonPosting) (Postings e)) \<le> length (Join (map (render \<circ> jsonPosting) (Postings e)) '','')"
    by (rule length_Join_ge) (auto simp: jsonPosting_def)
  then show ?thesis by (simp add: entryData_def jsonPostings_def)
qed

lemma postingsImage_split:
  "k < length es \<Longrightarrow>
   postingsImage es = postingsImage (take k es) @ entryData (es ! k) @ postingsImage (drop (Suc k) es)"
  unfolding postingsImage_def by (subst (1) id_take_nth_drop [of k es]) simp_all

text \<open>Segments that fit the allocator's limit (so that no length or offset overflows).\<close>

definition segment_fits :: "TermEntry list \<Rightarrow> bool" where
  "segment_fits es \<longleftrightarrow> int (length (segmentImage es)) < 2 ^ 48"

lemma segment_fitsD:
  assumes "segment_fits es"
  shows "length (postingsImage es) + length (dictImage es) + 64 < 2 ^ 48"
  using assms by (simp add: segment_fits_def segmentImage_def Let_def)

lemma int64_dictFrom:
  assumes "segment_fits es" and "e \<in> set (dictFrom 0 es)"
  shows "int64_dict e"
proof -
  from assms(2) obtain k where k: "k < length es" "e = dictFrom 0 es ! k"
    by (auto simp: in_set_conv_nth)
  have "length (postingsImage (take k es)) + length (entryData (es ! k)) \<le> length (postingsImage es)"
    using postingsImage_split [OF k(1)] by simp
  with segment_fitsD [OF assms(1)] length_entryData [of "es ! k"] k show ?thesis
    by (simp add: nth_dictFrom int64_dict_def int64_def)
qed

definition imageReader :: "string \<Rightarrow> TermEntry list \<Rightarrow> Reader" where
  "imageReader name es =
     \<lparr>rdFile = segmentImage es, rdName = name,
      rdHeader = \<lparr>Magic = MagicBytes, Version = FormatVersion, TermCount = word_of_nat (length es),
        hdrDocCount = word_of_nat (card (entryDocs es)), CreatedAt = 0,
        DictOffset = 64 + int (length (postingsImage es)), DictSize = int (length (dictImage es)),
        hdrPostOffset = 64, PostSize = int (length (postingsImage es))\<rparr>,
      rdDict = dictFrom 0 es, postBase = 64\<rparr>"

lemma readAt_mid:
  "length a = nat off \<Longrightarrow> 0 \<le> off \<Longrightarrow> length b = n \<Longrightarrow> readAt (a @ b @ c) off n = Some b"
  by (auto simp: readAt_def)

lemma OpenReader_image:
  assumes "map_of d name = Some (RegFile (segmentImage es))" and "segment_fits es"
  shows "OpenReader d name = Inr (imageReader name es)"
proof -
  let ?nd = "card (entryDocs es)" and ?P = "postingsImage es" and ?D = "dictImage es"
  let ?H = "headerImage (length es) ?nd (64 + length ?P) (length ?D) 64 (length ?P)"
  let ?F = "mkFooter (ChecksumIEEE ?D) ?nd (64 + length ?P) (length ?D) (length ?P)"
  have img: "segmentImage es = ?H @ ?P @ ?D @ ?F"
    by (simp add: segmentImage_def Let_def)
  have hdr: "readAt (segmentImage es) 0 HeaderSize = Some ?H"
    using readAt_mid [of "[]" 0 ?H HeaderSize] by (simp add: img HeaderSize_def)
  have dct: "readAt (segmentImage es) (64 + int (length ?P)) (length ?D) = Some ?D"
    unfolding img by (rule readAt_mid [of "?H @ ?P", unfolded append_assoc]) simp_all
  have un: "UnmarshalDict ?D = Some (dictFrom 0 es)"
    unfolding dictImage_def using int64_dictFrom [OF assms(2)] by (intro UnmarshalDict_render) blast
  have sz: "sint (word_of_nat n :: 64 word) = int n" if "n \<le> 64 + length ?P + length ?D" for n
    using that segment_fitsD [OF assms(2)] by (intro sint_word_of_nat) simp
  have "int (length ?D) \<le> maxAlloc"
    using segment_fitsD [OF assms(2)] by (simp add: maxAlloc_def)
  moreover have "sint (word_of_nat 64 :: 64 word) = 64" using sz [of 64] by simp
  moreover have "sint (word_of_nat (64 + length ?P) :: 64 word) = 64 + int (length ?P)"
    using sz [of "64 + length ?P"] by simp
  ultimately show ?thesis
    using dct
    by (simp add: OpenReader_def assms(1) hdr slice_headerImage sz un imageReader_def Let_def
        del: of_nat_add of_nat_numeral) (simp add: un)
qed

text \<open>What the segment promises for a term: the postings of its entry, none without an entry.\<close>

definition entryPostings :: "TermEntry list \<Rightarrow> string \<Rightarrow> PostingList" where
  "entryPostings es t = (case map_of (map (\<lambda>e. (entryTerm e, Postings e)) es) t of
     Some ps \<Rightarrow> ps | None \<Rightarrow> [])"

definition int64_entries :: "TermEntry list \<Rightarrow> bool" where
  "int64_entries es \<longleftrightarrow> (\<forall>e \<in> set es. \<forall>p \<in> set (Postings e). int64_posting p)"

lemma entryPostings_absent: "t \<notin> entryTerm ` set es \<Longrightarrow> entryPostings es t = []"
  by (force simp: entryPostings_def split: option.splits dest: map_of_SomeD)

lemma entryPostings_nth:
  assumes "distinct (map entryTerm es)" and "k < length es"
  shows "entryPostings es (entryTerm (es ! k)) = Postings (es ! k)"
proof -
  have "map_of (map (\<lambda>e. (entryTerm e, Postings e)) es) (entryTerm (es ! k)) = Some (Postings (es ! k))"
    using assms by (intro map_of_is_SomeI) (auto simp: comp_def)
  then show ?thesis by (simp add: entryPostings_def)
qed

lemma readAt_split:
  "P = a @ b @ c \<Longrightarrow> length H = 64 \<Longrightarrow> readAt (H @ P @ t) (64 + int (length a)) (length b) = Some b"
  using readAt_mid [of "H @ a" "64 + int (length a)" b "length b" "c @ t"] by (simp add: nat_add_distrib)

lemma readAt_entry:
  assumes "k < length es"
  shows "readAt (segmentImage es) (64 + int (length (postingsImage (take k es)))) (length (entryData (es ! k))) =
    Some (entryData (es ! k))"
  unfolding segmentImage_def Let_def
  by (rule readAt_split [OF postingsImage_split [OF assms]]) simp

lemma readerSearch_image:
  assumes "sorted_wrt (<) (map entryTerm es)" and "int64_entries es" and "segment_fits es"
  shows "readerSearch (imageReader name es) t = Inr (entryPostings es t)"
proof -
  let ?k = "sortSearch (\<lambda>i. t \<le> map entryTerm es ! i) 0 (length (map entryTerm es))"
  have nth: "dictTerm (dictFrom 0 es ! i) = entryTerm (es ! i)" if "i < length es" for i
    using that by (simp add: nth_dictFrom)
  have k: "sortSearch (\<lambda>i. t \<le> dictTerm (rdDict (imageReader name es) ! i)) 0
      (length (rdDict (imageReader name es))) = ?k"
    using nth by (simp add: imageReader_def) (rule sortSearch_cong, simp)
  note found = sortSearch_sorted [OF assms(1), of t]
  show ?thesis
  proof (cases "t \<in> entryTerm ` set es")
    case False
    then have "\<not> (?k < length es \<and> map entryTerm es ! ?k = t)" using found by simp
    then have "length es \<le> ?k \<or> dictTerm (dictFrom 0 es ! ?k) \<noteq> t"
      using nth by (metis length_map linorder_not_le nth_map)
    then show ?thesis
      using False unfolding readerSearch_def k
      by (simp add: Let_def imageReader_def entryPostings_absent)
  next
    case True
    then have K: "?k < length es" "entryTerm (es ! ?k) = t"
      using found by auto
    have "int (length (entryData (es ! ?k))) \<le> maxAlloc"
      using segment_fitsD [OF assms(3)] postingsImage_split [OF K(1)] by (simp add: maxAlloc_def)
    moreover have "UnmarshalPostings (entryData (es ! ?k)) = Some (Postings (es ! ?k))"
      unfolding entryData_def using assms(2) nth_mem [OF K(1)]
      by (intro UnmarshalPostings_render) (simp add: int64_entries_def)
    moreover have "entryPostings es t = Postings (es ! ?k)"
      using entryPostings_nth [of es ?k] assms(1) K by (simp add: strict_sorted_iff)
    ultimately show ?thesis
      using K readAt_entry [OF K(1)] unfolding readerSearch_def k
      by (simp add: Let_def imageReader_def nth_dictFrom)
  qed
qed

section \<open>Readers as posting sources\<close>

text \<open>The snapshots the engine writes: terms and document IDs strictly increase, sizes fit.\<close>

definition wf_entries :: "TermEntry list \<Rightarrow> bool" where
  "wf_entries es \<longleftrightarrow> sorted_wrt (<) (map entryTerm es) \<and>
     (\<forall>e \<in> set es. sorted_wrt (<) (map DocID (Postings e))) \<and> int64_entries es \<and> segment_fits es"

definition wf_reader :: "Reader \<Rightarrow> bool" where
  "wf_reader r \<longleftrightarrow> (\<exists>name es. wf_entries es \<and> r = imageReader name es)"

text \<open>What a caller that skips failing segments sees of a reader.\<close>

definition readerPostings :: "Reader \<Rightarrow> string \<Rightarrow> PostingList" where
  "readerPostings r t = (case readerSearch r t of Inl _ \<Rightarrow> [] | Inr ps \<Rightarrow> ps)"

definition seg_lookup :: "Reader \<Rightarrow> string \<Rightarrow> string \<Rightarrow> posting option" where
  "seg_lookup r t d = find (\<lambda>p. DocID p = d) (readerPostings r t)"

lemma wf_imageReader [wf_intros]: "wf_entries es \<Longrightarrow> wf_reader (imageReader name es)"
  by (auto simp: wf_reader_def)

lemma readerSearch_wf: "wf_entries es \<Longrightarrow> readerSearch (imageReader name es) t = Inr (entryPostings es t)"
  by (simp add: wf_entries_def readerSearch_image)

lemma readerPostings_image [simp]:
  "wf_entries es \<Longrightarrow> readerPostings (imageReader name es) t = entryPostings es t"
  by (simp add: readerPostings_def readerSearch_wf)

lemma readerSearch_ok: "wf_reader r \<Longrightarrow> readerSearch r t = Inr (readerPostings r t)"
  by (auto simp: wf_reader_def readerSearch_wf)

lemma sorted_entryPostings:
  "wf_entries es \<Longrightarrow> sorted_wrt (<) (map DocID (entryPostings es t))"
  by (auto simp: wf_entries_def entryPostings_def split: option.splits dest!: map_of_SomeD)

lemma find_DocID:
  "distinct (map DocID ps) \<Longrightarrow> find (\<lambda>p. DocID p = d) ps = Some p \<longleftrightarrow> p \<in> set ps \<and> DocID p = d"
  by (induction ps) (auto simp: image_iff)

interpretation seg: posting_source wf_reader readerPostings seg_lookup
proof
  fix r t
  assume r: "wf_reader r"
  then show srt: "sorted_wrt (<) (map DocID (readerPostings r t))"
    by (auto simp: wf_reader_def sorted_entryPostings)
  then have "distinct (map DocID (readerPostings r t))"
    using strict_sorted_iff by blast
  note f = find_DocID [OF this]
  show "p \<in> set (readerPostings r t) \<longleftrightarrow> seg_lookup r t (DocID p) = Some p" for p
    by (simp add: seg_lookup_def f)
  show "seg_lookup r t d = Some q \<Longrightarrow> DocID q = d" for d q
    by (simp add: seg_lookup_def f)
qed

section \<open>Properties\<close>

lemma Write_cases:
  "Write io nano d es =
     (if es = [] then (Inl ErrEmptySegment, d)
      else if io OpMkdir \<noteq> None then (Inl ErrMkdir, d)
      else if io OpCreate \<noteq> None then (Inl ErrCreate, d)
      else (case writeFile io es of
         (Inl err, f) \<Rightarrow> (Inl err, AList.update (segmentName nano @ ''.tmp'') (RegFile f) d)
       | (Inr _, f) \<Rightarrow>
           (if io OpRename \<noteq> None then (Inl ErrRename, AList.update (segmentName nano @ ''.tmp'') (RegFile f) d)
            else (Inr (segmentName nano), AList.update (segmentName nano) (RegFile f)
              (AList.delete (segmentName nano @ ''.tmp'') d)))))"
  by (simp add: Write_def Let_def)

lemma Write_Inr:
  assumes "Write io nano d es = (Inr name, d')"
  shows "name = segmentName nano" and
    "map_of d' = (map_of d)(name @ ''.tmp'' := None, name \<mapsto> RegFile (segmentImage es))"
proof -
  from assms have "name = segmentName nano \<and>
    map_of d' = (map_of d)(segmentName nano @ ''.tmp'' := None, segmentName nano \<mapsto> RegFile (segmentImage es))"
    unfolding Write_cases
    by (auto simp: update_conv' delete_conv' dest!: writeFile_Inr split: if_splits prod.splits sum.splits)
  then show "name = segmentName nano"
    and "map_of d' = (map_of d)(name @ ''.tmp'' := None, name \<mapsto> RegFile (segmentImage es))" by auto
qed

lemma Write_Inl:
  assumes "Write io nano d es = (Inl err, d')" and "n \<noteq> segmentName nano @ ''.tmp''"
  shows "map_of d' n = map_of d n"
  using assms unfolding Write_cases
  by (auto simp: update_conv' split: if_splits prod.splits sum.splits)

lemma Write_no_fault:
  assumes "es \<noteq> []" and "\<And>op. io op = None"
  shows "\<exists>d'. Write io nano d es = (Inr (segmentName nano), d')"
  using assms by (simp add: Write_cases writeFile_no_fault)

text \<open>
  C4. Round trip: a segment written from a snapshot can be opened, whatever else is in the
  directory, and the reader answers every search with exactly the postings of the snapshot,
  reports the snapshot's number of terms and the number of distinct documents.
\<close>

theorem segment_roundtrip:
  assumes "wf_entries es" and "Write io nano d es = (Inr name, d')"
  shows "\<exists>r. OpenReader d' name = Inr r \<and> Name r = name \<and> Terms r = int (length es) \<and>
    readerDocCount r = word_of_nat (card (\<Union>e \<in> set es. DocID ` set (Postings e))) \<and>
    (\<forall>t. readerSearch r t = Inr (entryPostings es t))"
proof (intro exI conjI allI)
  have "map_of d' name = Some (RegFile (segmentImage es))" using Write_Inr(2) [OF assms(2)] by simp
  then show "OpenReader d' name = Inr (imageReader name es)"
    using assms(1) by (intro OpenReader_image) (auto simp: wf_entries_def)
  show "readerSearch (imageReader name es) t = Inr (entryPostings es t)" for t
    by (rule readerSearch_wf [OF assms(1)])
qed (simp_all add: imageReader_def Name_def Terms_def readerDocCount_def entryDocs_def)

definition sampleEntries :: "TermEntry list" where
  "sampleEntries =
     [\<lparr>entryTerm = ''go'', Postings = [\<lparr>DocID = ''d1'', Frequency = 2, Positions = [0, 3]\<rparr>]\<rparr>,
      \<lparr>entryTerm = ''index'', Postings = [\<lparr>DocID = ''d1'', Frequency = 1, Positions = [1]\<rparr>,
         \<lparr>DocID = ''d2'', Frequency = 1, Positions = [0]\<rparr>]\<rparr>]"

lemma length_mkFooter [simp]: "length (mkFooter c nd ds dz pz) = 32"
  by (simp add: mkFooter_def putAt_def FooterSize_def)

lemma segment_fits_iff:
  "segment_fits es \<longleftrightarrow> length (postingsImage es) + length (dictImage es) + 96 < 2 ^ 48"
proof -
  have "int n < 2 ^ 48 \<longleftrightarrow> n < 2 ^ 48" for n by simp
  then show ?thesis by (simp add: segment_fits_def segmentImage_def Let_def del: of_nat_add)
qed

lemma wf_sampleEntries: "wf_entries sampleEntries"
proof -
  have "sorted_wrt (<) (map entryTerm sampleEntries)"
    "\<forall>e \<in> set sampleEntries. sorted_wrt (<) (map DocID (Postings e))"
    by (simp_all add: sampleEntries_def less_char_nat)
  moreover have "int64_entries sampleEntries"
    by (simp add: sampleEntries_def int64_entries_def int64_posting_def int64_def)
  moreover have "length (postingsImage sampleEntries) < 200" "length (dictImage sampleEntries) < 100"
    by code_simp+
  ultimately show ?thesis by (simp add: wf_entries_def segment_fits_iff)
qed

theorem segment_roundtrip_witness:
  "\<exists>d' r. Write (\<lambda>_. None) 17 [] sampleEntries = (Inr ''seg_17.spdx'', d') \<and>
    OpenReader d' ''seg_17.spdx'' = Inr r \<and>
    readerSearch r ''go'' = Inr [\<lparr>DocID = ''d1'', Frequency = 2, Positions = [0, 3]\<rparr>]"
proof -
  have n: "segmentName 17 = ''seg_17.spdx''" by code_simp
  obtain d' where w: "Write (\<lambda>_. None) 17 [] sampleEntries = (Inr ''seg_17.spdx'', d')"
    using Write_no_fault [of sampleEntries "\<lambda>_. None" 17 "[]"] by (auto simp: n sampleEntries_def)
  have "entryPostings sampleEntries ''go'' = [\<lparr>DocID = ''d1'', Frequency = 2, Positions = [0, 3]\<rparr>]"
    by (simp add: entryPostings_def sampleEntries_def)
  with segment_roundtrip [OF wf_sampleEntries w] w show ?thesis by metis
qed

text \<open>
  C5. Atomicity: whatever operation of \<open>Write\<close> fails, no name but the temporary one changes, so a
  partial file is never visible as a segment; when it succeeds the final name holds the complete
  image and the temporary name is gone; and without a fault a non-empty snapshot is written.
\<close>

theorem Write_atomic:
  assumes "Write io nano d es = (res, d')"
  shows "(\<forall>n. n \<noteq> segmentName nano \<longrightarrow> n \<noteq> segmentName nano @ ''.tmp'' \<longrightarrow> map_of d' n = map_of d n) \<and>
    (case res of
       Inl err \<Rightarrow> map_of d' (segmentName nano) = map_of d (segmentName nano)
     | Inr name \<Rightarrow> name = segmentName nano \<and> map_of d' name = Some (RegFile (segmentImage es)) \<and>
         map_of d' (name @ ''.tmp'') = None) \<and>
    ((\<forall>op. io op = None) \<longrightarrow> (if es = [] then res = Inl ErrEmptySegment else isl res = False))"
proof -
  have "res = Inl ErrEmptySegment" if "es = []" using assms that by (simp add: Write_def)
  moreover have "isl res = False" if "es \<noteq> []" "\<forall>op. io op = None"
    using Write_no_fault [of es io nano d] assms that by auto
  moreover have "(\<forall>n. n \<noteq> segmentName nano \<longrightarrow> n \<noteq> segmentName nano @ ''.tmp'' \<longrightarrow> map_of d' n = map_of d n) \<and>
    (case res of
       Inl err \<Rightarrow> map_of d' (segmentName nano) = map_of d (segmentName nano)
     | Inr name \<Rightarrow> name = segmentName nano \<and> map_of d' name = Some (RegFile (segmentImage es)) \<and>
         map_of d' (name @ ''.tmp'') = None)"
  proof (cases res)
    case (Inl err)
    then show ?thesis using Write_Inl [of io nano d es err d'] assms by auto
  next
    case (Inr name)
    then show ?thesis using Write_Inr [of io nano d es name d'] assms by auto
  qed
  ultimately show ?thesis by auto
qed

theorem Write_atomic_witness:
  "let r = Write (\<lambda>op. if op = OpSync then Some 0 else None) 17 [] sampleEntries
   in fst r = Inl ErrSync \<and> map_of (snd r) ''seg_17.spdx'' = None \<and> map_of (snd r) ''seg_9.spdx'' = None"
proof -
  let ?io = "\<lambda>op. if op = OpSync then Some 0 else None"
  have n: "segmentName 17 = ''seg_17.spdx''" by code_simp
  obtain res d' where w: "Write ?io 17 [] sampleEntries = (res, d')" by fastforce
  have "fst (writeFile ?io sampleEntries) = Inl ErrSync"
    by (simp add: writeFile_def sampleEntries_def Let_def)
  then have "res = Inl ErrSync"
    using w by (auto simp: Write_cases sampleEntries_def split: prod.splits sum.splits)
  with Write_atomic [OF w] w show ?thesis by (simp add: n)
qed

end
