(* ===== verification/Engine.thy ===== *)
theory Engine
  imports Memory_Index Segment "HOL-Library.Sublist"
begin

text \<open>
  \<open>internal/indexer/engine.go\<close>: the indexing engine. It buffers documents in the memory index,
  flushes snapshots to segments and searches both. The data directory is an explicit argument and
  result of the operations, so that an engine can be closed and reopened on it and two processes
  can share it. \<open>flt name\<close> is an operating-system failure when the segment \<open>name\<close> is opened; a
  panic in the segment reader (a corrupt length) is \<open>ErrPanic\<close> and is never skipped.
\<close>

record engine =
  memIndex :: mem_index
  readers :: "Reader list"
  SegmentMaxSize :: int
  docLengths :: "(string \<times> int) list"
  totalDocs :: int
  totalTokens :: int

datatype engine_error =
  CreatingDataDir | ReadingDataDir | LoadingSegments engine_error | WritingSegment seg_error
| OpeningSegment seg_error | FlushingIndex engine_error | EnginePanic

datatype readdir_fault = NotExist | ReadFault

type_synonym open_fault = "string \<Rightarrow> seg_error option"

definition tryOpen :: "open_fault \<Rightarrow> dir \<Rightarrow> string \<Rightarrow> seg_error + Reader" where
  "tryOpen flt d name = (case flt name of Some err \<Rightarrow> Inl err | None \<Rightarrow> OpenReader d name)"

text \<open>\<open>os.ReadDir\<close> lists a directory by increasing name.\<close>

definition ReadDir :: "dir \<Rightarrow> (string \<times> dirent) list" where
  "ReadDir d = sort_key fst d"

definition isSegmentEntry :: "string \<times> dirent \<Rightarrow> bool" where
  "isSegmentEntry entry \<longleftrightarrow> snd entry \<noteq> SubDir \<and> HasSuffix (fst entry) ''.spdx''"

section \<open>Startup\<close>

text \<open>Open the named segments in order; failures are skipped, a panic (\<open>None\<close>) is not.\<close>

fun openSegments :: "open_fault \<Rightarrow> dir \<Rightarrow> string list \<Rightarrow> Reader list option" where
  "openSegments flt d [] = Some []"
| "openSegments flt d (name # names) =
     (case tryOpen flt d name of
        Inl ErrPanic \<Rightarrow> None
      | Inl _ \<Rightarrow> openSegments flt d names
      | Inr reader \<Rightarrow> map_option ((#) reader) (openSegments flt d names))"

definition loadExistingSegments ::
  "readdir_fault option \<Rightarrow> open_fault \<Rightarrow> dir \<Rightarrow> engine \<Rightarrow> engine_error + engine" where
  "loadExistingSegments rdErr flt d e =
     (case rdErr of
        Some NotExist \<Rightarrow> Inr e
      | Some ReadFault \<Rightarrow> Inl ReadingDataDir
      | None \<Rightarrow>
          (let segFiles = sort (map fst (filter isSegmentEntry (ReadDir d)))
           in case openSegments flt d segFiles of
                None \<Rightarrow> Inl EnginePanic
              | Some rs \<Rightarrow> Inr (e\<lparr>readers := readers e @ rs\<rparr>)))"

definition NewEngine ::
  "bool \<Rightarrow> readdir_fault option \<Rightarrow> open_fault \<Rightarrow> int \<Rightarrow> dir \<Rightarrow> engine_error + engine" where
  "NewEngine mkdirOk rdErr flt segmentMaxSize d =
     (if \<not> mkdirOk then Inl CreatingDataDir
      else
        (let e = \<lparr>memIndex = NewMemoryIndex, readers = [], SegmentMaxSize = segmentMaxSize,
                  docLengths = [], totalDocs = 0, totalTokens = 0\<rparr>
         in case loadExistingSegments rdErr flt d e of
              Inl EnginePanic \<Rightarrow> Inl EnginePanic
            | Inl err \<Rightarrow> Inl (LoadingSegments err)
            | Inr e' \<Rightarrow> Inr e'))"

section \<open>Indexing and flushing\<close>

text \<open>The Go error result is the first component: \<open>None\<close> for \<open>nil\<close>.\<close>

definition Flush ::
  "io \<Rightarrow> open_fault \<Rightarrow> int \<Rightarrow> dir \<Rightarrow> engine \<Rightarrow> engine_error option \<times> engine \<times> dir" where
  "Flush io flt nano d e =
     (let snapshot = Snapshot (memIndex e)
      in if snapshot = [] then (None, e, d)
         else
           (case Write io nano d snapshot of
              (Inl err, d') \<Rightarrow> (Some (WritingSegment err), e, d')
            | (Inr name, d') \<Rightarrow>
                (case tryOpen flt d' name of
                   Inl ErrPanic \<Rightarrow> (Some EnginePanic, e, d')
                 | Inl err \<Rightarrow> (Some (OpeningSegment err), e, d')
                 | Inr reader \<Rightarrow>
                     (None, e\<lparr>readers := readers e @ [reader], memIndex := Reset (memIndex e)\<rparr>, d'))))"

definition IndexDocument ::
  "io \<Rightarrow> open_fault \<Rightarrow> int \<Rightarrow> dir \<Rightarrow> engine \<Rightarrow> string \<Rightarrow> string \<Rightarrow> string \<Rightarrow>
   engine_error option \<times> engine \<times> dir" where
  "IndexDocument io flt nano d e docID title body =
     (let fullText = title @ '' '' @ body;
          tokens = Tokenize fullText;
          e1 = e\<lparr>docLengths := AList.update docID (int (length tokens)) (docLengths e),
                 totalDocs := totalDocs e + 1,
                 totalTokens := totalTokens e + int (length tokens)\<rparr>;
          e2 = e1\<lparr>memIndex := AddDocument (memIndex e1) docID title body\<rparr>
      in if SegmentMaxSize e2 \<le> Size (memIndex e2) then
           (case Flush io flt nano d e2 of
              (Some EnginePanic, e3, d') \<Rightarrow> (Some EnginePanic, e3, d')
            | (Some err, e3, d') \<Rightarrow> (Some (FlushingIndex err), e3, d')
            | (None, e3, d') \<Rightarrow> (None, e3, d'))
         else (None, e2, d))"

section \<open>Searching\<close>

fun dedupLoop :: "(string \<times> nat) list \<Rightarrow> PostingList \<Rightarrow> PostingList \<Rightarrow> PostingList" where
  "dedupLoop seen result [] = result"
| "dedupLoop seen result (p # ps) =
     (case map_of seen (DocID p) of
        Some idx \<Rightarrow>
          dedupLoop seen (if Frequency (result ! idx) < Frequency p then result[idx := p] else result) ps
      | None \<Rightarrow> dedupLoop (AList.update (DocID p) (length result) seen) (result @ [p]) ps)"

definition deduplicatePostings :: "PostingList \<Rightarrow> PostingList" where
  "deduplicatePostings postings =
     (if length postings \<le> 1 then postings
      else sort_key DocID (dedupLoop [] [] postings))"

text \<open>The loop over the readers of \<open>Search\<close>.\<close>

fun collectPostings :: "string \<Rightarrow> PostingList \<Rightarrow> Reader list \<Rightarrow> engine_error + PostingList" where
  "collectPostings normalizedTerm allPostings [] = Inr allPostings"
| "collectPostings normalizedTerm allPostings (reader # rs) =
     (case readerSearch reader normalizedTerm of
        Inl ErrPanic \<Rightarrow> Inl EnginePanic
      | Inl _ \<Rightarrow> collectPostings normalizedTerm allPostings rs
      | Inr postings \<Rightarrow> collectPostings normalizedTerm (allPostings @ postings) rs)"

definition searchTerm :: "engine \<Rightarrow> string \<Rightarrow> engine_error + PostingList" where
  "searchTerm e normalizedTerm =
     (case collectPostings normalizedTerm (memSearch (memIndex e) normalizedTerm) (readers e) of
        Inl err \<Rightarrow> Inl err
      | Inr allPostings \<Rightarrow> Inr (deduplicatePostings allPostings))"

definition Search :: "engine \<Rightarrow> string \<Rightarrow> engine_error + PostingList" where
  "Search e term =
     (case Tokenize term of
        [] \<Rightarrow> Inr []
      | tok # _ \<Rightarrow> searchTerm e (Term tok))"

definition GetDocLength :: "engine \<Rightarrow> string \<Rightarrow> int" where
  "GetDocLength e docID = (case map_of (docLengths e) docID of None \<Rightarrow> 0 | Some n \<Rightarrow> n)"

definition GetAvgDocLength :: "engine \<Rightarrow> real" where
  "GetAvgDocLength e =
     (if totalDocs e = 0 then 0 else real_of_int (totalTokens e) / real_of_int (totalDocs e))"

definition GetTotalDocs :: "engine \<Rightarrow> int" where
  "GetTotalDocs e = totalDocs e"

section \<open>Background flush, shutdown and reload\<close>

text \<open>The events of the flush loop's \<open>select\<close>, each with the outcome of the system calls it makes.\<close>

datatype loop_event = Ticked io open_fault int | Cancelled io open_fault int

fun flushLoop :: "loop_event list \<Rightarrow> dir \<Rightarrow> engine \<Rightarrow> engine \<times> dir" where
  "flushLoop [] d e = (e, d)"
| "flushLoop (Cancelled io flt nano # evs) d e = (case Flush io flt nano d e of (_, e', d') \<Rightarrow> (e', d'))"
| "flushLoop (Ticked io flt nano # evs) d e =
     (if 0 < DocCount (memIndex e)
      then (case Flush io flt nano d e of (_, e', d') \<Rightarrow> flushLoop evs d' e')
      else flushLoop evs d e)"

definition Close :: "io \<Rightarrow> open_fault \<Rightarrow> int \<Rightarrow> dir \<Rightarrow> engine \<Rightarrow> engine \<times> dir" where
  "Close io flt nano d e =
     (case Flush io flt nano d e of (_, e', d') \<Rightarrow> (e'\<lparr>readers := []\<rparr>, d'))"

definition ReloadSegments ::
  "readdir_fault option \<Rightarrow> open_fault \<Rightarrow> dir \<Rightarrow> engine \<Rightarrow> engine_error + (int \<times> engine)" where
  "ReloadSegments rdErr flt d e =
     (if rdErr \<noteq> None then Inr (0, e)
      else
        (let known = map Name (readers e);
             names = filter (\<lambda>n. n \<notin> set known) (map fst (filter isSegmentEntry (ReadDir d)))
         in case openSegments flt d names of
              None \<Rightarrow> Inl EnginePanic
            | Some newReaders \<Rightarrow>
                Inr (int (length newReaders), e\<lparr>readers := readers e @ newReaders\<rparr>)))"

section \<open>Deduplication\<close>

definition posting_of :: "string \<Rightarrow> PostingList \<Rightarrow> posting option" where
  "posting_of d ps = find (\<lambda>p. DocID p = d) ps"

text \<open>One step of the loop, seen from the document \<open>d\<close>.\<close>

definition keepBest :: "string \<Rightarrow> posting option \<Rightarrow> posting \<Rightarrow> posting option" where
  "keepBest d acc p =
     (if DocID p \<noteq> d then acc
      else case acc of None \<Rightarrow> Some p | Some b \<Rightarrow> Some (if Frequency b < Frequency p then p else b))"

definition bestOf :: "PostingList \<Rightarrow> string \<Rightarrow> posting option" where
  "bestOf ps d = foldl (keepBest d) None ps"

lemma posting_of_snoc:
  "posting_of d (xs @ [p]) =
     (case posting_of d xs of None \<Rightarrow> if DocID p = d then Some p else None | Some q \<Rightarrow> Some q)"
  by (induction xs) (auto simp: posting_of_def)

lemma posting_of_update:
  "distinct (map DocID xs) \<Longrightarrow> i < length xs \<Longrightarrow> DocID p = DocID (xs ! i) \<Longrightarrow>
   posting_of d (xs[i := p]) = (if d = DocID p then Some p else posting_of d xs)"
proof (induction xs arbitrary: i)
  case (Cons x xs)
  then show ?case by (cases i) (auto simp: posting_of_def)
qed simp

lemma posting_of_nth:
  "distinct (map DocID xs) \<Longrightarrow> i < length xs \<Longrightarrow> posting_of (DocID (xs ! i)) xs = Some (xs ! i)"
  by (simp add: posting_of_def find_DocID)

text \<open>\<open>seen\<close> maps each document of the result to its index.\<close>

definition seen_ok :: "(string \<times> nat) list \<Rightarrow> string list \<Rightarrow> bool" where
  "seen_ok seen docs \<longleftrightarrow> distinct docs \<and> (\<forall>d. map_of seen d = None \<longrightarrow> d \<notin> set docs) \<and>
     (\<forall>d i. map_of seen d = Some i \<longrightarrow> i < length docs \<and> docs ! i = d)"

lemma seen_ok_append:
  assumes "seen_ok seen docs" and "map_of seen d = None"
  shows "seen_ok (AList.update d (length docs) seen) (docs @ [d])"
proof -
  have "map_of seen d' = Some i \<Longrightarrow> i < Suc (length docs) \<and> (docs @ [d]) ! i = d'" for d' i
    using assms(1) by (fastforce simp: seen_ok_def nth_append)
  with assms show ?thesis by (simp add: seen_ok_def update_conv')
qed

lemma map_DocID_update: "DocID p = DocID (xs ! i) \<Longrightarrow> map DocID (xs[i := p]) = map DocID xs"
  by (metis list_update_id map_update)

lemma dedupLoop_spec:
  "seen_ok seen (map DocID result) \<Longrightarrow> distinct (map DocID (dedupLoop seen result ps)) \<and>
   posting_of d (dedupLoop seen result ps) = foldl (keepBest d) (posting_of d result) ps"
proof (induction ps arbitrary: seen result)
  case Nil
  then show ?case by (simp add: seen_ok_def)
next
  case (Cons p ps)
  have dist: "distinct (map DocID result)" using Cons.prems by (simp add: seen_ok_def)
  show ?case
  proof (cases "map_of seen (DocID p)")
    case None
    then have "DocID p \<notin> set (map DocID result)" using Cons.prems unfolding seen_ok_def by blast
    then have "posting_of (DocID p) result = None"
      by (auto simp: posting_of_def find_None_iff image_iff)
    then have "posting_of d (result @ [p]) = keepBest d (posting_of d result) p"
      by (auto simp: posting_of_snoc keepBest_def split: option.splits)
    with None Cons.IH [of _ "result @ [p]"] seen_ok_append [OF Cons.prems None] show ?thesis by simp
  next
    case (Some i)
    then have "i < length (map DocID result) \<and> map DocID result ! i = DocID p"
      using Cons.prems unfolding seen_ok_def by blast
    then have i: "i < length result" "DocID p = DocID (result ! i)" by auto
    define r where "r = (if Frequency (result ! i) < Frequency p then result[i := p] else result)"
    have ok: "seen_ok seen (map DocID r)"
      unfolding r_def using map_DocID_update [OF i(2)] Cons.prems by simp
    have "posting_of d r = keepBest d (posting_of d result) p"
      unfolding r_def using posting_of_update [OF dist i, of d] posting_of_nth [OF dist i(1)] i(2)
      by (auto simp: keepBest_def)
    with Some Cons.IH [OF ok] show ?thesis by (simp add: r_def)
  qed
qed

lemma bestOf_snoc: "bestOf (ps @ [x]) d = keepBest d (bestOf ps d) x"
  by (simp add: bestOf_def)

lemma bestOf_None: "bestOf ps d = None \<longleftrightarrow> d \<notin> DocID ` set ps"
  by (induction ps rule: rev_induct) (auto simp: bestOf_def keepBest_def split: option.splits)

lemma bestOf_max:
  "bestOf ps d = Some p \<Longrightarrow> p \<in> set ps \<and> DocID p = d \<and> (\<forall>q \<in> set ps. DocID q = d \<longrightarrow> Frequency q \<le> Frequency p)"
proof (induction ps arbitrary: p rule: rev_induct)
  case (snoc x ps)
  show ?case
  proof (cases "bestOf ps d")
    case None
    then have "\<forall>q \<in> set ps. DocID q \<noteq> d" by (auto simp: bestOf_None)
    with snoc.prems None show ?thesis by (auto simp: bestOf_snoc keepBest_def split: if_splits)
  next
    case (Some b)
    with snoc.prems snoc.IH [OF Some] show ?thesis
      by (auto simp: bestOf_snoc keepBest_def split: if_splits)
  qed
qed (simp add: bestOf_def)

lemma deduplicatePostings_short: "length ps \<le> 1 \<Longrightarrow> ps = [] \<or> (\<exists>p. ps = [p])"
  by (cases ps) auto

lemma deduplicatePostings_spec:
  "sorted_wrt (<) (map DocID (deduplicatePostings ps))" (is ?sorted)
  "p \<in> set (deduplicatePostings ps) \<longleftrightarrow> bestOf ps (DocID p) = Some p" (is ?view)
proof -
  have ok: "seen_ok [] (map DocID [])" by (simp add: seen_ok_def)
  have dist: "distinct (map DocID (dedupLoop [] [] ps))" using dedupLoop_spec [OF ok] by blast
  have "posting_of d (dedupLoop [] [] ps) = bestOf ps d" for d
    using dedupLoop_spec [OF ok, of ps d] by (simp add: bestOf_def posting_of_def)
  then have view: "p \<in> set (dedupLoop [] [] ps) \<longleftrightarrow> bestOf ps (DocID p) = Some p"
    by (metis dist find_DocID posting_of_def)
  have "sorted_wrt (<) (map DocID (sort_key DocID (dedupLoop [] [] ps)))"
    using dist by (intro sorted_map_strict) (simp_all add: distinct_map_sort_key)
  then show ?sorted
    using deduplicatePostings_short [of ps] by (auto simp: deduplicatePostings_def)
  show ?view
    using view deduplicatePostings_short [of ps]
    by (auto simp: deduplicatePostings_def bestOf_def keepBest_def)
qed

text \<open>A search result without its positions: the documents and their term frequencies.\<close>

definition hits :: "PostingList \<Rightarrow> (string \<times> int) list" where
  "hits ps = map (\<lambda>p. (DocID p, Frequency p)) ps"

definition bestHits :: "posting set \<Rightarrow> (string \<times> int) list" where
  "bestHits P = map (\<lambda>d. (d, Max (Frequency ` {p \<in> P. DocID p = d}))) (sorted_list_of_set (DocID ` P))"

lemma hits_deduplicatePostings: "hits (deduplicatePostings ps) = bestHits (set ps)"
proof -
  let ?r = "deduplicatePostings ps"
  have docs: "DocID ` set ?r = DocID ` set ps"
  proof (intro set_eqI iffI)
    fix d assume "d \<in> DocID ` set ps"
    then obtain p where p: "bestOf ps d = Some p" using bestOf_None [of ps d] by auto
    with bestOf_max have "DocID p = d" by blast
    with p deduplicatePostings_spec(2) [of p ps] show "d \<in> DocID ` set ?r" by auto
  qed (use bestOf_max deduplicatePostings_spec(2) in blast)
  have "map DocID ?r = sorted_list_of_set (set (map DocID ?r))"
    using deduplicatePostings_spec(1) [of ps]
    by (metis sorted_list_of_set.idem_if_sorted_distinct strict_sorted_iff)
  then have m: "map DocID ?r = sorted_list_of_set (DocID ` set ps)" by (simp add: docs)
  have "Frequency p = Max (Frequency ` {q \<in> set ps. DocID q = DocID p})" if "p \<in> set ?r" for p
    using bestOf_max [of ps "DocID p" p] that deduplicatePostings_spec(2)
    by (intro Max_eqI [symmetric]) auto
  then have "hits ?r = map (\<lambda>d. (d, Max (Frequency ` {q \<in> set ps. DocID q = d}))) (map DocID ?r)"
    by (simp add: hits_def)
  then show ?thesis by (simp add: bestHits_def m)
qed

section \<open>Searching\<close>

definition wf_engine :: "engine \<Rightarrow> bool" where
  "wf_engine e \<longleftrightarrow> wf_mem (memIndex e) \<and> (\<forall>r \<in> set (readers e). wf_reader r)"

text \<open>All postings of a term the engine holds, before deduplication.\<close>

definition allPostings :: "engine \<Rightarrow> string \<Rightarrow> PostingList" where
  "allPostings e t = memSearch (memIndex e) t @ concat (map (\<lambda>r. readerPostings r t) (readers e))"

definition postingsFor :: "engine \<Rightarrow> string \<Rightarrow> PostingList" where
  "postingsFor e t = deduplicatePostings (allPostings e t)"

lemma collectPostings_wf:
  "\<forall>r \<in> set rs. wf_reader r \<Longrightarrow>
   collectPostings t acc rs = Inr (acc @ concat (map (\<lambda>r. readerPostings r t) rs))"
  by (induction rs arbitrary: acc) (auto simp: readerSearch_ok)

lemma searchTerm_wf: "wf_engine e \<Longrightarrow> searchTerm e t = Inr (postingsFor e t)"
  by (simp add: searchTerm_def wf_engine_def collectPostings_wf postingsFor_def allPostings_def)

lemma hits_postingsFor: "hits (postingsFor e t) = bestHits (set (allPostings e t))"
  by (simp add: postingsFor_def hits_deduplicatePostings)

interpretation eng: posting_source wf_engine postingsFor "\<lambda>e t. bestOf (allPostings e t)"
proof
  show "sorted_wrt (<) (map DocID (postingsFor e t))" for e t
    unfolding postingsFor_def by (rule deduplicatePostings_spec)
  show "p \<in> set (postingsFor e t) \<longleftrightarrow> bestOf (allPostings e t) (DocID p) = Some p" for e t p
    unfolding postingsFor_def by (rule deduplicatePostings_spec)
  show "bestOf (allPostings e t) d = Some p \<Longrightarrow> DocID p = d" for e t d p
    using bestOf_max by blast
qed

text \<open>What the engine knows of a term, in terms of its two kinds of sources.\<close>

lemma set_allPostings:
  "set (allPostings e t) = set (memSearch (memIndex e) t) \<union> (\<Union>r \<in> set (readers e). set (readerPostings r t))"
  by (simp add: allPostings_def)

lemma mem_set: "wf_mem m \<Longrightarrow> set (memSearch m t) = {p. mem_lookup m t (DocID p) = Some p}"
  by (auto simp: mem.search_view)

section \<open>Flushing\<close>

text \<open>The memory index fits a segment (lengths, frequencies and positions within 64 bits).\<close>

definition mem_fits :: "mem_index \<Rightarrow> bool" where
  "mem_fits m \<longleftrightarrow> int64_entries (Snapshot m) \<and> segment_fits (Snapshot m)"

lemma wf_entries_Snapshot:
  assumes "wf_mem m" and "mem_fits m"
  shows "wf_entries (Snapshot m)"
proof -
  have "sorted_wrt (<) (map DocID (Postings e))" if "e \<in> set (Snapshot m)" for e
    using Snapshot_entry [OF assms(1) that] mem.search_sorted [OF assms(1)] by simp
  with assms show ?thesis by (simp add: wf_entries_def sorted_Snapshot mem_fits_def)
qed

lemma entryPostings_Snapshot:
  assumes "wf_mem m"
  shows "entryPostings (Snapshot m) t = memSearch m t"
  using map_of_Snapshot [OF assms, of t]
  by (auto simp: entryPostings_def memSearch_def domIff split: option.splits)

lemma memSearch_empty: "index m = [] \<Longrightarrow> memSearch m t = []"
  by (simp add: memSearch_def)

definition newSegment :: "int \<Rightarrow> mem_index \<Rightarrow> Reader" where
  "newSegment nano m = imageReader (segmentName nano) (Snapshot m)"

lemma readerPostings_newSegment:
  "wf_mem m \<Longrightarrow> mem_fits m \<Longrightarrow> readerPostings (newSegment nano m) t = memSearch m t"
  by (simp add: newSegment_def wf_entries_Snapshot entryPostings_Snapshot)

lemma OpenReader_Write:
  assumes "wf_entries es" and "Write io nano d es = (Inr name, d')"
  shows "OpenReader d' name = Inr (imageReader name es)"
  using assms Write_Inr(2) [OF assms(2)] by (intro OpenReader_image) (auto simp: wf_entries_def)

text \<open>The outcomes of \<open>Flush\<close>: nothing to do, a failure that leaves the engine alone, a new segment.\<close>

lemma Flush_cases:
  assumes "wf_mem (memIndex e)" and "mem_fits (memIndex e)" and "Flush io flt nano d e = (err, e', d')"
  obtains (empty) "Snapshot (memIndex e) = []" "err = None" "e' = e" "d' = d"
  | (failed) werr where "err = Some (WritingSegment werr)" "e' = e"
      "Write io nano d (Snapshot (memIndex e)) = (Inl werr, d')"
  | (unopened) "err \<noteq> None" "e' = e" "flt (segmentName nano) \<noteq> None"
      "Write io nano d (Snapshot (memIndex e)) = (Inr (segmentName nano), d')"
  | (written) "err = None" "Write io nano d (Snapshot (memIndex e)) = (Inr (segmentName nano), d')"
      "e' = e\<lparr>readers := readers e @ [newSegment nano (memIndex e)], memIndex := Reset (memIndex e)\<rparr>"
proof (cases "Snapshot (memIndex e) = []")
  case True
  with assms(3) have "err = None \<and> e' = e \<and> d' = d" by (auto simp: Flush_def)
  with True show ?thesis by (intro empty) auto
next
  case False
  obtain res d1 where w: "Write io nano d (Snapshot (memIndex e)) = (res, d1)" by fastforce
  show ?thesis
  proof (cases res)
    case (Inl werr)
    with w assms(3) False have "err = Some (WritingSegment werr) \<and> e' = e \<and> d' = d1"
      by (auto simp: Flush_def)
    with w Inl show ?thesis by (intro failed) auto
  next
    case (Inr name)
    note w' = w [unfolded Inr]
    note n = Write_Inr(1) [OF w'] and o = OpenReader_Write [OF wf_entries_Snapshot [OF assms(1,2)] w']
    show ?thesis
    proof (cases "flt name")
      case None
      with w' o n assms(3) False have "err = None \<and> d' = d1 \<and>
        e' = e\<lparr>readers := readers e @ [newSegment nano (memIndex e)], memIndex := Reset (memIndex e)\<rparr>"
        by (auto simp: Flush_def tryOpen_def newSegment_def)
      with w' n show ?thesis by (intro written) auto
    next
      case (Some ferr)
      with w' n assms(3) False have "err \<noteq> None \<and> e' = e \<and> d' = d1"
        by (cases ferr) (auto simp: Flush_def tryOpen_def)
      with Some w' n show ?thesis by (intro unopened) auto
    qed
  qed
qed

lemma wf_engine_Flush [wf_intros]:
  assumes "wf_engine e" and "mem_fits (memIndex e)" and "Flush io flt nano d e = (err, e', d')"
  shows "wf_engine e'"
proof -
  have m: "wf_mem (memIndex e)" using assms(1) by (simp add: wf_engine_def)
  have "wf_reader (newSegment nano (memIndex e))"
    unfolding newSegment_def by (intro wf_intros wf_entries_Snapshot m assms(2))
  with m assms(2,3) show ?thesis
    using assms(1) by (cases rule: Flush_cases) (auto simp: wf_engine_def intro: wf_Reset)
qed

lemma set_allPostings_Flush:
  assumes "wf_engine e" and "mem_fits (memIndex e)" and "Flush io flt nano d e = (err, e', d')"
  shows "set (allPostings e' t) = set (allPostings e t)"
proof -
  have m: "wf_mem (memIndex e)" using assms(1) by (simp add: wf_engine_def)
  from m assms(2,3) show ?thesis
    by (cases rule: Flush_cases)
      (auto simp: set_allPostings readerPostings_newSegment m assms(2) memSearch_empty Reset_def)
qed

lemma Flush_None_empty:
  assumes "wf_engine e" and "mem_fits (memIndex e)" and "Flush io flt nano d e = (None, e', d')"
  shows "index (memIndex e') = []"
proof -
  have m: "wf_mem (memIndex e)" using assms(1) by (simp add: wf_engine_def)
  from m assms(2,3) show ?thesis by (cases rule: Flush_cases) (auto simp: Reset_def)
qed

section \<open>Indexing\<close>

lemma set_bestHits:
  "finite P \<Longrightarrow> (d, f) \<in> set (bestHits P) \<longleftrightarrow> d \<in> DocID ` P \<and> f = Max (Frequency ` {p \<in> P. DocID p = d})"
  by (auto simp: bestHits_def)

lemma filter_sorted_list_of_set:
  fixes A :: "'a :: linorder set"
  assumes "finite A"
  shows "filter Q (sorted_list_of_set A) = sorted_list_of_set {a \<in> A. Q a}"
proof (rule sorted_distinct_set_unique)
  show "sorted (filter Q (sorted_list_of_set A))" by (simp add: sorted_wrt_filter)
qed (use assms in auto)

lemma filter_bestHits:
  assumes "finite P"
  shows "filter (\<lambda>h. fst h \<noteq> d) (bestHits P) = bestHits {p \<in> P. DocID p \<noteq> d}"
proof -
  have eq: "{x \<in> DocID ` P. x \<noteq> d} = DocID ` {p \<in> P. DocID p \<noteq> d}" by auto
  have "Max (Frequency ` {p \<in> P. DocID p = x}) =
      Max (Frequency ` {p \<in> {p \<in> P. DocID p \<noteq> d}. DocID p = x})"
    if "x \<noteq> d" for x
    using that by (intro arg_cong [where f = Max]) auto
  then show ?thesis
    using assms by (auto simp: bestHits_def filter_map comp_def filter_sorted_list_of_set eq)
qed

lemma Frequency_doc_posting:
  "Frequency (doc_posting docID t s) = int (count_list (termsOf s) t)"
  by (simp add: doc_posting_def occurrences_def termsOf_def count_list_eq_length_filter
      filter_map comp_def eq_commute)

text \<open>The postings of a term after a document was added, old ones of the same document included.\<close>

lemma set_memSearch_AddDocument:
  assumes "wf_mem m"
  shows "set (memSearch (AddDocument m docID title body) t) =
    (if t \<in> set (termsOf (title @ '' '' @ body))
     then insert (doc_posting docID t (title @ '' '' @ body)) {p \<in> set (memSearch m t). DocID p \<noteq> docID}
     else set (memSearch m t))"
  using assms wf_AddDocument [OF assms]
  by (auto simp: mem_set mem_lookup_AddDocument doc_posting_def)

lemma IndexDocument_cases:
  assumes "IndexDocument io flt nano d e docID title body = (err, e', d')"
  defines "e2 \<equiv> e\<lparr>docLengths := AList.update docID (int (length (Tokenize (title @ '' '' @ body)))) (docLengths e),
       totalDocs := totalDocs e + 1,
       totalTokens := totalTokens e + int (length (Tokenize (title @ '' '' @ body))),
       memIndex := AddDocument (memIndex e) docID title body\<rparr>"
  obtains (buffered) "err = None" "e' = e2" "d' = d" "Size (memIndex e2) < SegmentMaxSize e2"
  | (flushed) err' where "Flush io flt nano d e2 = (err', e', d')" "err = None \<longleftrightarrow> err' = None"
proof (cases "SegmentMaxSize e2 \<le> Size (memIndex e2)")
  case True
  obtain err' e3 d3 where f: "Flush io flt nano d e2 = (err', e3, d3)" by (metis prod_cases3)
  with True assms(1) have "e' = e3 \<and> d' = d3 \<and> (err = None \<longleftrightarrow> err' = None)"
    by (auto simp: IndexDocument_def Let_def e2_def split: option.splits engine_error.splits)
  with f show ?thesis by (intro flushed) auto
next
  case False
  with assms(1) have "err = None \<and> e' = e2 \<and> d' = d"
    by (auto simp: IndexDocument_def Let_def e2_def)
  with False show ?thesis by (intro buffered) auto
qed

lemma IndexDocument_postings:
  assumes "wf_engine e" and "mem_fits (AddDocument (memIndex e) docID title body)"
    and "IndexDocument io flt nano d e docID title body = (err, e', d')"
  shows "wf_engine e'" and
    "set (allPostings e' t) =
      set (memSearch (AddDocument (memIndex e) docID title body) t) \<union>
      (\<Union>r \<in> set (readers e). set (readerPostings r t))"
proof -
  let ?e2 = "e\<lparr>docLengths := AList.update docID (int (length (Tokenize (title @ '' '' @ body)))) (docLengths e),
       totalDocs := totalDocs e + 1,
       totalTokens := totalTokens e + int (length (Tokenize (title @ '' '' @ body))),
       memIndex := AddDocument (memIndex e) docID title body\<rparr>"
  have w: "wf_engine ?e2" using assms(1) by (simp add: wf_engine_def wf_AddDocument)
  have f: "mem_fits (memIndex ?e2)" using assms(2) by simp
  have "wf_engine e' \<and> set (allPostings e' t) = set (allPostings ?e2 t)"
    using assms(3)
    by (cases rule: IndexDocument_cases)
      (use w f wf_engine_Flush [OF w f] set_allPostings_Flush [OF w f] in auto)
  then show "wf_engine e'" and
    "set (allPostings e' t) =
      set (memSearch (AddDocument (memIndex e) docID title body) t) \<union>
      (\<Union>r \<in> set (readers e). set (readerPostings r t))"
    by (simp_all add: set_allPostings)
qed

lemma allPostings_IndexDocument:
  assumes "wf_engine e" and "mem_fits (AddDocument (memIndex e) docID title body)"
    and "IndexDocument io flt nano d e docID title body = (err, e', d')"
  shows "if t \<in> set (termsOf title @ termsOf body)
    then \<exists>B. set (allPostings e' t) = insert (doc_posting docID t (title @ '' '' @ body)) B \<and>
      B \<subseteq> set (allPostings e t) \<and> {q \<in> set (allPostings e t). DocID q \<noteq> docID} \<subseteq> B
    else set (allPostings e' t) = set (allPostings e t)"
proof -
  have m: "wf_mem (memIndex e)" using assms(1) by (simp add: wf_engine_def)
  note P = IndexDocument_postings(2) [OF assms, of t, unfolded set_memSearch_AddDocument [OF m] termsOf_join]
  let ?B = "{q \<in> set (memSearch (memIndex e) t). DocID q \<noteq> docID} \<union>
    (\<Union>r \<in> set (readers e). set (readerPostings r t))"
  have "?B \<subseteq> set (allPostings e t)" "{q \<in> set (allPostings e t). DocID q \<noteq> docID} \<subseteq> ?B"
    by (auto simp: set_allPostings)
  with P show ?thesis by (auto simp: set_allPostings [of e] intro!: exI [of _ ?B])
qed

lemma bestHits_insert:
  assumes "finite A" and "DocID p = x" and "\<exists>B. A' = insert p B \<and> B \<subseteq> A \<and> {q \<in> A. DocID q \<noteq> x} \<subseteq> B"
  shows "filter (\<lambda>h. fst h \<noteq> x) (bestHits A') = filter (\<lambda>h. fst h \<noteq> x) (bestHits A) \<and>
    (\<exists>f. (x, f) \<in> set (bestHits A') \<and> Frequency p \<le> f \<and>
      (x \<in> fst ` set (bestHits A) \<or> f = Frequency p))"
proof -
  obtain B where B: "A' = insert p B" "B \<subseteq> A" "{q \<in> A. DocID q \<noteq> x} \<subseteq> B" using assms(3) by blast
  have fin: "finite A'" using B(1,2) assms(1) by (simp add: finite_subset)
  let ?f = "Max (Frequency ` {q \<in> A'. DocID q = x})"
  have "{q \<in> A'. DocID q \<noteq> x} = {q \<in> A. DocID q \<noteq> x}" using B assms(2) by auto
  then have "filter (\<lambda>h. fst h \<noteq> x) (bestHits A') = filter (\<lambda>h. fst h \<noteq> x) (bestHits A)"
    by (simp add: filter_bestHits fin assms(1))
  moreover have "(x, ?f) \<in> set (bestHits A')" using B(1) assms(2) fin by (auto simp: set_bestHits)
  moreover have "Frequency p \<le> ?f" using B(1) assms(2) fin by (intro Max_ge) auto
  moreover have "x \<in> fst ` set (bestHits A) \<or> ?f = Frequency p"
  proof (cases "\<exists>q \<in> A. DocID q = x")
    case True
    then show ?thesis using assms(1) by (force simp: bestHits_def)
  next
    case False
    then have "{q \<in> A'. DocID q = x} = {p}" using B assms(2) by auto
    then show ?thesis by simp
  qed
  ultimately show ?thesis by blast
qed

lemma IndexDocument_counters:
  assumes "IndexDocument io flt nano d e docID title body = (err, e', d')"
  shows "GetTotalDocs e' = GetTotalDocs e + 1"
    and "totalTokens e' = totalTokens e + int (length (termsOf title @ termsOf body))"
    and "GetDocLength e' x = (if x = docID then int (length (termsOf title @ termsOf body)) else GetDocLength e x)"
proof -
  have "length (Tokenize (title @ '' '' @ body)) = length (termsOf title @ termsOf body)"
    by (metis length_map termsOf_def termsOf_join)
  then have l: "length (Tokenize (title @ CHR '' '' # body)) = length (termsOf title @ termsOf body)"
    by simp
  have fl: "totalDocs b = totalDocs a \<and> totalTokens b = totalTokens a \<and> docLengths b = docLengths a"
    if "Flush io flt nano d a = (er, b, dd)" for er a b dd
    using that
    by (auto simp: Flush_def Let_def split: if_splits prod.splits sum.splits seg_error.splits)
  from assms have "totalDocs e' = totalDocs e + 1 \<and>
      totalTokens e' = totalTokens e + int (length (termsOf title @ termsOf body)) \<and>
      docLengths e' = AList.update docID (int (length (termsOf title @ termsOf body))) (docLengths e)"
    by (cases rule: IndexDocument_cases) (auto simp: l dest!: fl)
  then show "GetTotalDocs e' = GetTotalDocs e + 1"
    and "totalTokens e' = totalTokens e + int (length (termsOf title @ termsOf body))"
    and "GetDocLength e' x = (if x = docID then int (length (termsOf title @ termsOf body)) else GetDocLength e x)"
    by (simp_all add: GetTotalDocs_def GetDocLength_def update_conv')
qed

section \<open>Segments on disk\<close>

definition segNames :: "dir \<Rightarrow> string list" where
  "segNames d = map fst (filter isSegmentEntry (ReadDir d))"

text \<open>The readers are exactly the segments of the directory, all of which can be opened.\<close>

definition synced :: "dir \<Rightarrow> engine \<Rightarrow> bool" where
  "synced d e \<longleftrightarrow> distinct (map fst d) \<and>
     (\<forall>n \<in> set (segNames d). \<exists>r. OpenReader d n = Inr r) \<and>
     set (readers e) = {r. \<exists>n \<in> set (segNames d). OpenReader d n = Inr r}"

lemma set_segNames:
  "distinct (map fst d) \<Longrightarrow>
   n \<in> set (segNames d) \<longleftrightarrow> (\<exists>f. map_of d n = Some (RegFile f)) \<and> HasSuffix n ''.spdx''"
  by (auto simp: segNames_def ReadDir_def isSegmentEntry_def image_iff)
    (metis dirent.exhaust eq_snd_iff)+

lemma OpenReader_Name: "OpenReader d n = Inr r \<Longrightarrow> Name r = n"
  by (auto simp: OpenReader_def Name_def Let_def split: option.splits dirent.splits if_splits)

lemma OpenReader_cong: "map_of d n = map_of d' n \<Longrightarrow> OpenReader d n = OpenReader d' n"
  by (simp add: OpenReader_def)

lemma openSegments_all:
  "\<forall>n \<in> set ns. \<exists>r. tryOpen flt d n = Inr r \<Longrightarrow>
   \<exists>rs. openSegments flt d ns = Some rs \<and> map Inr rs = map (tryOpen flt d) ns"
  by (induction ns) auto

lemma openSegments_Some:
  "openSegments flt d ns = Some rs \<Longrightarrow> set rs = {r. \<exists>n \<in> set ns. tryOpen flt d n = Inr r} \<and>
   subseq (map Name rs) ns"
proof (induction ns arbitrary: rs)
  case (Cons n ns)
  show ?case
  proof (cases "tryOpen flt d n")
    case (Inl err)
    with Cons have "openSegments flt d ns = Some rs" by (auto split: seg_error.splits)
    with Cons.IH Inl show ?thesis by (auto intro: subseq_Cons')
  next
    case (Inr r)
    with Cons.prems obtain rs' where rs': "rs = r # rs'" "openSegments flt d ns = Some rs'" by auto
    have "Name r = n" using Inr by (auto simp: tryOpen_def OpenReader_Name split: option.splits)
    with rs' Cons.IH [OF rs'(2)] Inr show ?thesis by auto
  qed
qed simp

lemma HasSuffix_segmentName: "HasSuffix (segmentName nano) ''.spdx''"
  by (simp add: HasSuffix_def segmentName_def)

lemma not_HasSuffix_tmp: "\<not> HasSuffix (n @ ''.tmp'') ''.spdx''"
  by (simp add: HasSuffix_def)

lemma distinct_Write:
  "distinct (map fst d) \<Longrightarrow> Write io nano d es = (res, d') \<Longrightarrow> distinct (map fst d')"
  by (auto simp: Write_cases distinct_update distinct_delete split: if_splits prod.splits sum.splits)

text \<open>Every outcome of \<open>Flush\<close> with a fresh segment name keeps memory and directory in step.\<close>

lemma synced_Flush:
  assumes "wf_engine e" and "mem_fits (memIndex e)" and "synced d e"
    and "segmentName nano \<notin> fst ` set d" and "\<And>n. flt n = None"
    and "Flush io flt nano d e = (err, e', d')"
  shows "synced d' e'"
proof -
  have m: "wf_mem (memIndex e)" using assms(1) by (simp add: wf_engine_def)
  have dd: "distinct (map fst d)" using assms(3) by (simp add: synced_def)
  from m assms(2,6) show ?thesis
  proof (cases rule: Flush_cases)
    case empty
    then show ?thesis using assms(3) by simp
  next
    case (failed werr)
    note dd' = distinct_Write [OF dd failed(3)]
    have same: "map_of d' n = map_of d n" if "HasSuffix n ''.spdx''" for n
      using Write_Inl [OF failed(3), of n] that not_HasSuffix_tmp by metis
    have "set (segNames d') = set (segNames d)"
      using same by (auto simp: set_segNames [OF dd] set_segNames [OF dd'])
    moreover have "OpenReader d' n = OpenReader d n" if "n \<in> set (segNames d)" for n
      using that same by (intro OpenReader_cong) (simp add: set_segNames [OF dd])
    ultimately show ?thesis using assms(3) dd' failed(2) by (simp add: synced_def)
  next
    case unopened
    then show ?thesis using assms(5) by simp
  next
    case written
    note dd' = distinct_Write [OF dd written(2)]
    have w: "map_of d' = (map_of d)(segmentName nano @ ''.tmp'' := None,
        segmentName nano \<mapsto> RegFile (segmentImage (Snapshot (memIndex e))))"
      by (rule Write_Inr(2) [OF written(2)])
    have fresh: "map_of d (segmentName nano) = None" using assms(4) by (simp add: map_of_eq_None_iff)
    have names: "set (segNames d') = insert (segmentName nano) (set (segNames d))"
      using HasSuffix_segmentName [of nano] not_HasSuffix_tmp [of "segmentName nano"]
      by (auto simp: set_segNames [OF dd] set_segNames [OF dd'] w split: if_splits)
    have new: "OpenReader d' (segmentName nano) = Inr (newSegment nano (memIndex e))"
      using OpenReader_Write [OF wf_entries_Snapshot [OF m assms(2)] written(2)]
      by (simp add: newSegment_def)
    have old: "OpenReader d' n = OpenReader d n" if "n \<in> set (segNames d)" for n
      using that fresh not_HasSuffix_tmp
      by (intro OpenReader_cong) (auto simp: set_segNames [OF dd] w)
    show ?thesis using assms(3) dd' names new old written(3) by (auto simp: synced_def)
  qed
qed

lemma NewEngine_synced:
  assumes "synced d e"
  obtains e2 where "NewEngine True None (\<lambda>_. None) mx d = Inr e2" "set (readers e2) = set (readers e)"
    "memIndex e2 = NewMemoryIndex" "docLengths e2 = []" "totalDocs e2 = 0" "totalTokens e2 = 0"
proof -
  let ?ns = "sort (map fst (filter isSegmentEntry (ReadDir d)))"
  have ns: "set ?ns = set (segNames d)" by (simp add: segNames_def)
  have "\<forall>n \<in> set ?ns. \<exists>r. tryOpen (\<lambda>_. None) d n = Inr r"
    using assms unfolding ns by (simp add: tryOpen_def synced_def)
  then obtain rs where rs: "openSegments (\<lambda>_. None) d ?ns = Some rs" using openSegments_all by blast
  have "set rs = set (readers e)"
    using openSegments_Some [OF rs] assms unfolding ns by (simp add: tryOpen_def synced_def)
  with rs that show ?thesis by (simp add: NewEngine_def loadExistingSegments_def Let_def)
qed

text \<open>Two well-formed engines without buffered documents and with the same readers answer alike.\<close>

lemma Search_same_postings:
  assumes "wf_engine e" and "wf_engine e'" and "\<And>t. set (allPostings e' t) = set (allPostings e t)"
  shows "\<exists>ps ps'. Search e q = Inr ps \<and> Search e' q = Inr ps' \<and> hits ps' = hits ps"
proof -
  have "hits (postingsFor e' t) = hits (postingsFor e t)" for t
    by (simp add: hits_postingsFor assms(3))
  then show ?thesis by (auto simp: Search_def searchTerm_wf assms(1,2) split: list.splits)
qed

lemma set_allPostings_readers:
  "index (memIndex e) = [] \<Longrightarrow> set (allPostings e t) = (\<Union>r \<in> set (readers e). set (readerPostings r t))"
  by (simp add: set_allPostings memSearch_empty)

lemma openSegments_no_panic:
  "openSegments flt d ns = Some rs \<Longrightarrow> n \<in> set ns \<Longrightarrow> tryOpen flt d n \<noteq> Inl ErrPanic"
  by (induction ns arbitrary: rs) (auto split: sum.splits seg_error.splits)

lemma openSegments_none:
  "\<forall>n \<in> set ns. isl (tryOpen flt d n) \<and> tryOpen flt d n \<noteq> Inl ErrPanic \<Longrightarrow> openSegments flt d ns = Some []"
  by (induction ns) (auto split: sum.splits seg_error.splits)

lemma ReloadSegments_alt:
  "ReloadSegments None flt d e =
     (case openSegments flt d (filter (\<lambda>n. n \<notin> Name ` set (readers e)) (segNames d)) of
        None \<Rightarrow> Inl EnginePanic
      | Some new \<Rightarrow> Inr (int (length new), e\<lparr>readers := readers e @ new\<rparr>))"
  by (simp add: ReloadSegments_def segNames_def Let_def)

lemma distinct_segNames: "distinct (map fst d) \<Longrightarrow> distinct (segNames d)"
  by (simp add: segNames_def ReadDir_def distinct_map_filter distinct_map_sort_key)

lemma distinct_subseq: "subseq xs ys \<Longrightarrow> distinct ys \<Longrightarrow> distinct xs"
  by (metis distinct_nthsI subseq_conv_nths)

lemma subseq_set: "subseq xs ys \<Longrightarrow> set xs \<subseteq> set ys"
  by (metis set_nths_subset subseq_conv_nths)

lemma ReloadSegments_readers:
  assumes "ReloadSegments None flt d e = Inr (n, e')"
  obtains new where "e' = e\<lparr>readers := readers e @ new\<rparr>" "n = int (length new)"
    "set new = {r. \<exists>s \<in> set (segNames d) - Name ` set (readers e). tryOpen flt d s = Inr r}"
    "subseq (map Name new) (filter (\<lambda>n. n \<notin> Name ` set (readers e)) (segNames d))"
    "openSegments flt d (filter (\<lambda>n. n \<notin> Name ` set (readers e)) (segNames d)) = Some new"
proof -
  from assms obtain new where n:
    "openSegments flt d (filter (\<lambda>n. n \<notin> Name ` set (readers e)) (segNames d)) = Some new"
    and e': "e' = e\<lparr>readers := readers e @ new\<rparr>" "n = int (length new)"
    by (auto simp: ReloadSegments_alt split: option.splits)
  show ?thesis
    by (rule that [OF e' _ _ n]) (use openSegments_Some [OF n] in auto)
qed

section \<open>Properties\<close>

text \<open>The kept posting is the first of the most frequent ones of its document.\<close>

definition firstBest :: "PostingList \<Rightarrow> posting \<Rightarrow> bool" where
  "firstBest ps p \<longleftrightarrow> (\<exists>ys zs. ps = ys @ p # zs \<and>
     (\<forall>q \<in> set ys. DocID q = DocID p \<longrightarrow> Frequency q < Frequency p) \<and>
     (\<forall>q \<in> set zs. DocID q = DocID p \<longrightarrow> Frequency q \<le> Frequency p))"

lemma foldl_keepBest_low:
  "(\<forall>q \<in> set zs. DocID q = DocID p \<longrightarrow> Frequency q \<le> Frequency p) \<Longrightarrow>
   foldl (keepBest (DocID p)) (Some p) zs = Some p"
  by (induction zs) (auto simp: keepBest_def)

lemma bestOf_firstBest: "bestOf ps (DocID p) = Some p \<longleftrightarrow> firstBest ps p"
proof
  assume "firstBest ps p"
  then obtain ys zs where s: "ps = ys @ p # zs"
    and lt: "\<forall>q \<in> set ys. DocID q = DocID p \<longrightarrow> Frequency q < Frequency p"
    and le: "\<forall>q \<in> set zs. DocID q = DocID p \<longrightarrow> Frequency q \<le> Frequency p"
    unfolding firstBest_def by blast
  have "keepBest (DocID p) (bestOf ys (DocID p)) p = Some p"
    using bestOf_max [of ys "DocID p"] lt
    by (cases "bestOf ys (DocID p)") (auto simp: keepBest_def)
  then show "bestOf ps (DocID p) = Some p"
    using foldl_keepBest_low [OF le] by (simp add: s bestOf_def)
next
  assume "bestOf ps (DocID p) = Some p"
  then show "firstBest ps p"
  proof (induction ps rule: rev_induct)
    case Nil
    then show ?case by (simp add: bestOf_def)
  next
    case (snoc x ps)
    show ?case
    proof (cases "bestOf ps (DocID p) = Some p")
      case True
      then obtain ys zs where "ps = ys @ p # zs"
        "\<forall>q \<in> set ys. DocID q = DocID p \<longrightarrow> Frequency q < Frequency p"
        "\<forall>q \<in> set zs. DocID q = DocID p \<longrightarrow> Frequency q \<le> Frequency p"
        using snoc.IH unfolding firstBest_def by blast
      moreover have "DocID x = DocID p \<longrightarrow> Frequency x \<le> Frequency p"
        using snoc.prems True by (auto simp: bestOf_snoc keepBest_def split: if_splits)
      ultimately show ?thesis
        unfolding firstBest_def by (intro exI [of _ ys] exI [of _ "zs @ [x]"]) auto
    next
      case False
      then have x: "x = p" and b: "\<forall>b. bestOf ps (DocID p) = Some b \<longrightarrow> Frequency b < Frequency p"
        using snoc.prems by (auto simp: bestOf_snoc keepBest_def split: if_splits option.splits)
      have "Frequency q < Frequency p" if "q \<in> set ps" "DocID q = DocID p" for q
      proof (cases "bestOf ps (DocID p)")
        case None
        with that show ?thesis by (metis bestOf_None imageI)
      next
        case (Some b)
        with bestOf_max [OF Some] that have "Frequency q \<le> Frequency b" by metis
        also have "Frequency b < Frequency p" using Some b by blast
        finally show ?thesis .
      qed
      then show ?thesis
        unfolding firstBest_def x by (intro exI [of _ ps] exI [of _ "[]"]) auto
    qed
  qed
qed

text \<open>
  C6. Deduplication: the result has every document of the input exactly once, by increasing
  document ID, with the first posting of the highest frequency; and without positions it depends
  only on the set of postings: for each document the maximal frequency.
\<close>

theorem deduplicatePostings_correct:
  "sorted_wrt (<) (map DocID (deduplicatePostings ps)) \<and>
   set (deduplicatePostings ps) = {p. firstBest ps p} \<and>
   hits (deduplicatePostings ps) =
     map (\<lambda>d. (d, Max (Frequency ` {p \<in> set ps. DocID p = d}))) (sorted_list_of_set (DocID ` set ps))"
proof (intro conjI)
  show "set (deduplicatePostings ps) = {p. firstBest ps p}"
    by (simp add: set_eq_iff deduplicatePostings_spec(2) bestOf_firstBest)
qed (simp_all add: deduplicatePostings_spec(1) hits_deduplicatePostings bestHits_def)

text \<open>
  C7. Flushing is invisible to searches: whatever the disk does, after \<open>Flush\<close> every query returns the
  same documents with the same frequencies; on success the memory index is empty, on an error
  the engine is unchanged.
\<close>

theorem Flush_preserves_Search:
  assumes "wf_engine e" and "mem_fits (memIndex e)" and "Flush io flt nano d e = (err, e', d')"
  shows "wf_engine e' \<and>
    (\<forall>q. \<exists>ps ps'. Search e q = Inr ps \<and> Search e' q = Inr ps' \<and> hits ps' = hits ps) \<and>
    (if err = None then index (memIndex e') = [] else e' = e)"
proof (intro conjI allI)
  show w: "wf_engine e'" by (rule wf_engine_Flush [OF assms])
  show "\<exists>ps ps'. Search e q = Inr ps \<and> Search e' q = Inr ps' \<and> hits ps' = hits ps" for q
    by (rule Search_same_postings [OF assms(1) w set_allPostings_Flush [OF assms]])
  have m: "wf_mem (memIndex e)" using assms(1) by (simp add: wf_engine_def)
  show "if err = None then index (memIndex e') = [] else e' = e"
    using m assms(2,3) by (cases rule: Flush_cases) (auto simp: Reset_def)
qed

definition sampleEngine :: engine where
  "sampleEngine = \<lparr>memIndex = AddDocument NewMemoryIndex ''d1'' ''Go'' ''index'', readers = [],
     SegmentMaxSize = 1000, docLengths = [(''d1'', 2)], totalDocs = 1, totalTokens = 2\<rparr>"

lemma wf_sampleEngine: "wf_engine sampleEngine"
  by (simp add: wf_engine_def sampleEngine_def wf_AddDocument wf_NewMemoryIndex)

lemma mem_fits_sampleEngine: "mem_fits (memIndex sampleEngine)"
proof -
  have "int64_entries (Snapshot (memIndex sampleEngine))" by code_simp
  moreover have "length (postingsImage (Snapshot (memIndex sampleEngine))) < 200"
    "length (dictImage (Snapshot (memIndex sampleEngine))) < 200" by code_simp+
  ultimately show ?thesis by (simp add: mem_fits_def segment_fits_iff)
qed

lemma synced_sampleEngine: "synced [] sampleEngine"
  by (simp add: synced_def sampleEngine_def segNames_def ReadDir_def)

text \<open>Without faults the sample engine flushes.\<close>

lemma Flush_sampleEngine: "fst (Flush (\<lambda>_. None) (\<lambda>_. None) nano [] sampleEngine) = None"
proof -
  have "Snapshot (memIndex sampleEngine) \<noteq> []" by code_simp
  then obtain d' where w: "Write (\<lambda>_. None) nano [] (Snapshot (memIndex sampleEngine)) = (Inr (segmentName nano), d')"
    using Write_no_fault [of "Snapshot (memIndex sampleEngine)" "\<lambda>_. None"] by auto
  have m: "wf_mem (memIndex sampleEngine)" using wf_sampleEngine by (simp add: wf_engine_def)
  obtain err e' d'' where f: "Flush (\<lambda>_. None) (\<lambda>_. None) nano [] sampleEngine = (err, e', d'')"
    by (metis prod_cases3)
  have "err = None"
    using w by (cases rule: Flush_cases [OF m mem_fits_sampleEngine f]) auto
  then show ?thesis by (simp add: f)
qed

lemma Search_sampleEngine: "Search sampleEngine ''Go'' = Inr [\<lparr>DocID = ''d1'', Frequency = 1, Positions = [0]\<rparr>]"
  by code_simp

theorem Flush_preserves_Search_witness:
  "\<exists>e' d' ps. Flush (\<lambda>_. None) (\<lambda>_. None) 17 [] sampleEngine = (None, e', d') \<and>
     index (memIndex e') = [] \<and> Search e' ''Go'' = Inr ps \<and> hits ps = [(''d1'', 1)]"
proof -
  obtain e' d' where f: "Flush (\<lambda>_. None) (\<lambda>_. None) 17 [] sampleEngine = (None, e', d')"
    using Flush_sampleEngine [of 17] by (metis prod_cases3 fst_conv)
  note F = Flush_preserves_Search [OF wf_sampleEngine mem_fits_sampleEngine f]
  then obtain ps where "Search e' ''Go'' = Inr ps"
    "hits ps = hits [\<lparr>DocID = ''d1'', Frequency = 1, Positions = [0]\<rparr>]"
    using Search_sampleEngine by (metis Inr_inject)
  with F f show ?thesis by (simp add: hits_def)
qed

text \<open>
  C8. Indexing a document makes it searchable at once, flushed or not: for each of its terms the
  search returns it, with a frequency of at least the number of occurrences (exactly that for a
  document not indexed under the term before); results for other terms and for other documents
  do not change; the length statistics count the document.
\<close>

theorem IndexDocument_searchable:
  assumes "wf_engine e" and "mem_fits (AddDocument (memIndex e) docID title body)"
    and "IndexDocument io flt nano d e docID title body = (err, e', d')"
  shows "wf_engine e' \<and>
    (\<forall>t. \<exists>ps ps'. searchTerm e t = Inr ps \<and> searchTerm e' t = Inr ps' \<and>
       filter (\<lambda>h. fst h \<noteq> docID) (hits ps') = filter (\<lambda>h. fst h \<noteq> docID) (hits ps) \<and>
       (if t \<in> set (termsOf title @ termsOf body)
        then \<exists>f. (docID, f) \<in> set (hits ps') \<and> int (count_list (termsOf title @ termsOf body) t) \<le> f \<and>
          (docID \<in> fst ` set (hits ps) \<or> f = int (count_list (termsOf title @ termsOf body) t))
        else hits ps' = hits ps)) \<and>
    GetTotalDocs e' = GetTotalDocs e + 1 \<and>
    totalTokens e' = totalTokens e + int (length (termsOf title @ termsOf body)) \<and>
    GetDocLength e' docID = int (length (termsOf title @ termsOf body))"
proof (intro conjI allI)
  show w: "wf_engine e'" by (rule IndexDocument_postings(1) [OF assms])
  fix t
  let ?T = "termsOf title @ termsOf body" and ?p = "doc_posting docID t (title @ '' '' @ body)"
  have p: "DocID ?p = docID" "Frequency ?p = int (count_list ?T t)"
    unfolding Frequency_doc_posting termsOf_join by (simp_all add: doc_posting_def)
  note I = allPostings_IndexDocument [OF assms, of t]
  show "\<exists>ps ps'. searchTerm e t = Inr ps \<and> searchTerm e' t = Inr ps' \<and>
       filter (\<lambda>h. fst h \<noteq> docID) (hits ps') = filter (\<lambda>h. fst h \<noteq> docID) (hits ps) \<and>
       (if t \<in> set ?T
        then \<exists>f. (docID, f) \<in> set (hits ps') \<and> int (count_list ?T t) \<le> f \<and>
          (docID \<in> fst ` set (hits ps) \<or> f = int (count_list ?T t))
        else hits ps' = hits ps)"
  proof (cases "t \<in> set ?T")
    case True
    with I have "\<exists>B. set (allPostings e' t) = insert ?p B \<and>
      B \<subseteq> set (allPostings e t) \<and> {q \<in> set (allPostings e t). DocID q \<noteq> docID} \<subseteq> B"
      by (simp only: if_True)
    from bestHits_insert [OF _ p(1) this, unfolded p(2)] show ?thesis
      unfolding searchTerm_wf [OF w] searchTerm_wf [OF assms(1)] if_P [OF True]
      by (intro exI [of _ "postingsFor e t"] exI [of _ "postingsFor e' t"])
        (simp only: hits_postingsFor finite_set simp_thms)
  next
    case False
    then show ?thesis using I by (simp add: searchTerm_wf w assms(1) hits_postingsFor)
  qed
qed (use IndexDocument_counters [OF assms(3)] in simp_all)

theorem IndexDocument_searchable_witness:
  "\<exists>e' ps. IndexDocument (\<lambda>_. None) (\<lambda>_. None) 17 [] (sampleEngine\<lparr>memIndex := NewMemoryIndex\<rparr>) ''d1'' ''Go'' ''index'' =
     (None, e', []) \<and> searchTerm e' ''go'' = Inr ps \<and> (''d1'', 1) \<in> set (hits ps)"
proof -
  let ?e = "sampleEngine\<lparr>memIndex := NewMemoryIndex\<rparr>"
  have w: "wf_engine ?e" by (simp add: wf_engine_def sampleEngine_def wf_NewMemoryIndex)
  have m: "mem_fits (AddDocument (memIndex ?e) ''d1'' ''Go'' ''index'')"
    using mem_fits_sampleEngine by (simp add: sampleEngine_def)
  have sz: "Size (AddDocument NewMemoryIndex ''d1'' ''Go'' ''index'') < 1000" by code_simp
  then obtain e' where i: "IndexDocument (\<lambda>_. None) (\<lambda>_. None) 17 [] ?e ''d1'' ''Go'' ''index'' = (None, e', [])"
    by (auto simp: IndexDocument_def Let_def sampleEngine_def)
  have c: "''go'' \<in> set (termsOf ''Go'' @ termsOf ''index'')"
    "count_list (termsOf ''Go'' @ termsOf ''index'') ''go'' = 1" by code_simp+
  have old: "searchTerm ?e ''go'' = Inr []" by code_simp
  from IndexDocument_searchable [OF w m i] c old obtain ps where
    "searchTerm e' ''go'' = Inr ps" "\<exists>f. (''d1'', f) \<in> set (hits ps) \<and> (''d1'' \<in> fst ` set (hits []) \<or> f = int 1)"
    by (metis Inr_inject)
  with i show ?thesis by (auto simp: hits_def)
qed

text \<open>
  C9. Restart: an engine whose final flush succeeds can be reopened on its data directory, and the
  new engine answers every query with the same documents and frequencies. The document
  statistics are not restored: the new engine counts no documents and an average length of 0.
\<close>

theorem restart_preserves_Search:
  assumes "wf_engine e" and "mem_fits (memIndex e)" and "synced d e"
    and "segmentName nano \<notin> fst ` set d"
    and "fst (Flush io (\<lambda>_. None) nano d e) = None" and "Close io (\<lambda>_. None) nano d e = (e1, d1)"
  shows "\<exists>e2. NewEngine True None (\<lambda>_. None) mx d1 = Inr e2 \<and> wf_engine e2 \<and> synced d1 e2 \<and>
    (\<forall>q. \<exists>ps ps2. Search e q = Inr ps \<and> Search e2 q = Inr ps2 \<and> hits ps2 = hits ps) \<and>
    GetTotalDocs e2 = 0 \<and> GetAvgDocLength e2 = 0"
proof -
  obtain ef where f: "Flush io (\<lambda>_. None) nano d e = (None, ef, d1)"
    using assms(5,6) by (auto simp: Close_def split: prod.splits)
  have sy: "synced d1 ef" by (rule synced_Flush [OF assms(1-4) _ f]) simp
  obtain e2 where e2: "NewEngine True None (\<lambda>_. None) mx d1 = Inr e2" "set (readers e2) = set (readers ef)"
    "memIndex e2 = NewMemoryIndex" "totalDocs e2 = 0"
    using NewEngine_synced [OF sy] by metis
  have wf: "wf_engine ef" by (rule wf_engine_Flush [OF assms(1,2) f])
  then have w2: "wf_engine e2" using e2(2,3) by (simp add: wf_engine_def wf_NewMemoryIndex)
  have "set (allPostings e2 t) = set (allPostings e t)" for t
    using set_allPostings_Flush [OF assms(1,2) f, of t] Flush_None_empty [OF assms(1,2) f] e2(2,3)
    by (simp add: set_allPostings_readers NewMemoryIndex_def)
  then have "\<exists>ps ps2. Search e q = Inr ps \<and> Search e2 q = Inr ps2 \<and> hits ps2 = hits ps" for q
    by (rule Search_same_postings [OF assms(1) w2])
  moreover have "synced d1 e2" using sy e2(2) by (simp add: synced_def)
  ultimately show ?thesis
    using e2 w2 by (intro exI [of _ e2]) (simp add: GetTotalDocs_def GetAvgDocLength_def)
qed

theorem restart_preserves_Search_witness:
  "\<exists>e2 ps. NewEngine True None (\<lambda>_. None) 1000 (snd (Close (\<lambda>_. None) (\<lambda>_. None) 17 [] sampleEngine)) = Inr e2 \<and>
     Search e2 ''Go'' = Inr ps \<and> hits ps = [(''d1'', 1)] \<and>
     GetTotalDocs sampleEngine = 1 \<and> GetTotalDocs e2 = 0"
proof -
  obtain e1 d1 where c: "Close (\<lambda>_. None) (\<lambda>_. None) 17 [] sampleEngine = (e1, d1)" by fastforce
  have fresh: "segmentName 17 \<notin> fst ` set []" by simp
  obtain e2 where e2: "NewEngine True None (\<lambda>_. None) 1000 d1 = Inr e2" "GetTotalDocs e2 = 0"
    "\<forall>q. \<exists>ps ps2. Search sampleEngine q = Inr ps \<and> Search e2 q = Inr ps2 \<and> hits ps2 = hits ps"
    using restart_preserves_Search [OF wf_sampleEngine mem_fits_sampleEngine synced_sampleEngine fresh
      Flush_sampleEngine c, of 1000] by auto
  obtain ps where "Search e2 ''Go'' = Inr ps"
    "hits ps = hits [\<lparr>DocID = ''d1'', Frequency = 1, Positions = [0]\<rparr>]"
    using e2(3) Search_sampleEngine by (metis Inr_inject)
  with e2 c show ?thesis by (simp add: hits_def GetTotalDocs_def sampleEngine_def)
qed

text \<open>
  Reloading adds exactly the segments that were not loaded: afterwards every segment that can
  be opened is loaded, none is loaded twice, and reloading again finds nothing new.
\<close>

theorem ReloadSegments_correct:
  assumes "distinct (map fst d)" and "distinct (map Name (readers e))"
    and "ReloadSegments None flt d e = Inr (n, e')"
  shows "(\<exists>new. e' = e\<lparr>readers := readers e @ new\<rparr> \<and> n = int (length new)) \<and>
    distinct (map Name (readers e')) \<and>
    (\<forall>s \<in> set (segNames d). \<not> isl (tryOpen flt d s) \<longrightarrow> s \<in> Name ` set (readers e')) \<and>
    ReloadSegments None flt d e' = Inr (0, e')"
proof -
  obtain new where new: "e' = e\<lparr>readers := readers e @ new\<rparr>" "n = int (length new)"
    "set new = {r. \<exists>s \<in> set (segNames d) - Name ` set (readers e). tryOpen flt d s = Inr r}"
    "subseq (map Name new) (filter (\<lambda>n. n \<notin> Name ` set (readers e)) (segNames d))"
    "openSegments flt d (filter (\<lambda>n. n \<notin> Name ` set (readers e)) (segNames d)) = Some new"
    by (rule ReloadSegments_readers [OF assms(3)])
  have tn: "Name r = s" if "tryOpen flt d s = Inr r" for s r
    using that by (auto simp: tryOpen_def OpenReader_Name split: option.splits)
  have loaded: "s \<in> Name ` set (readers e')" if "s \<in> set (segNames d)" "tryOpen flt d s = Inr r" for s r
    using that tn [OF that(2)] new(1,3) by (cases "s \<in> Name ` set (readers e)") auto
  have "distinct (map Name new)"
    using distinct_subseq [OF new(4)] distinct_segNames [OF assms(1)] by simp
  moreover have "set (map Name new) \<inter> Name ` set (readers e) = {}"
    using subseq_set [OF new(4)] by auto
  ultimately have "distinct (map Name (readers e'))" using assms(2) new(1) by auto
  moreover have "openSegments flt d (filter (\<lambda>n. n \<notin> Name ` set (readers e')) (segNames d)) = Some []"
  proof (rule openSegments_none, intro ballI conjI)
    fix s assume s: "s \<in> set (filter (\<lambda>n. n \<notin> Name ` set (readers e')) (segNames d))"
    then show "isl (tryOpen flt d s)" using loaded [of s] by (cases "tryOpen flt d s") auto
    show "tryOpen flt d s \<noteq> Inl ErrPanic"
      using openSegments_no_panic [OF new(5), of s] s new(1) by auto
  qed
  ultimately show ?thesis
    using loaded new(1,2) by (auto simp: ReloadSegments_alt isl_def) (metis obj_sumE)
qed

theorem ReloadSegments_correct_witness:
  "\<exists>n e'. ReloadSegments None (\<lambda>_. None) [(''seg_1.spdx'', RegFile []), (''x.tmp'', RegFile [])] sampleEngine = Inr (n, e') \<and>
     ReloadSegments None (\<lambda>_. None) [(''seg_1.spdx'', RegFile []), (''x.tmp'', RegFile [])] e' = Inr (0, e')"
proof -
  let ?d = "[(''seg_1.spdx'', RegFile []), (''x.tmp'', RegFile [])]"
  have dist: "distinct (map fst ?d)" "distinct (map Name (readers sampleEngine))"
    by (simp_all add: sampleEngine_def)
  have "isl (tryOpen (\<lambda>_. None) ?d n) \<and> tryOpen (\<lambda>_. None) ?d n \<noteq> Inl ErrPanic" for n
    by (simp add: tryOpen_def OpenReader_def readAt_def HeaderSize_def)
  then have "openSegments (\<lambda>_. None) ?d ns = Some []" for ns by (intro openSegments_none) blast
  then obtain n e' where "ReloadSegments None (\<lambda>_. None) ?d sampleEngine = Inr (n, e')"
    by (simp add: ReloadSegments_alt)
  with ReloadSegments_correct [OF dist this] show ?thesis by blast
qed

text \<open>
  Shared data volume: once the indexing process has flushed, a search process that reloads
  answers every query as the indexing process does.
\<close>

theorem reload_sees_flushed:
  assumes "wf_engine e" and "mem_fits (memIndex e)" and "synced d e"
    and "segmentName nano \<notin> fst ` set d"
    and "Flush io (\<lambda>_. None) nano d e = (None, e1, d1)"
    and "wf_engine s" and "index (memIndex s) = []"
    and "\<forall>r \<in> set (readers s). Name r \<in> set (segNames d1) \<and> OpenReader d1 (Name r) = Inr r"
    and "ReloadSegments None (\<lambda>_. None) d1 s = Inr (n, s')"
  shows "wf_engine s' \<and>
    (\<forall>q. \<exists>ps ps'. Search e q = Inr ps \<and> Search s' q = Inr ps' \<and> hits ps' = hits ps)"
proof -
  obtain new where new: "s' = s\<lparr>readers := readers s @ new\<rparr>"
    "set new = {r. \<exists>m \<in> set (segNames d1) - Name ` set (readers s). tryOpen (\<lambda>_. None) d1 m = Inr r}"
    by (rule ReloadSegments_readers [OF assms(9)])
  have sy: "synced d1 e1" by (rule synced_Flush [OF assms(1-4) _ assms(5)]) simp
  have wf: "wf_engine e1" by (rule wf_engine_Flush [OF assms(1,2,5)])
  have rs: "set (readers s') = set (readers e1)"
    using sy new assms(8) by (fastforce simp: synced_def tryOpen_def)
  then have ws: "wf_engine s'" using wf assms(6) new(1) by (simp add: wf_engine_def)
  have "set (allPostings s' t) = set (allPostings e t)" for t
    using set_allPostings_Flush [OF assms(1,2,5), of t] Flush_None_empty [OF assms(1,2,5)] rs
      assms(7) new(1)
    by (simp add: set_allPostings_readers)
  then show ?thesis using Search_same_postings [OF assms(1) ws] ws by blast
qed

theorem reload_sees_flushed_witness:
  "\<exists>e1 d1 n s' ps. Flush (\<lambda>_. None) (\<lambda>_. None) 17 [] sampleEngine = (None, e1, d1) \<and>
     ReloadSegments None (\<lambda>_. None) d1 (sampleEngine\<lparr>memIndex := NewMemoryIndex\<rparr>) = Inr (n, s') \<and>
     Search s' ''Go'' = Inr ps \<and> hits ps = [(''d1'', 1)]"
proof -
  let ?s = "sampleEngine\<lparr>memIndex := NewMemoryIndex\<rparr>"
  obtain e1 d1 where f: "Flush (\<lambda>_. None) (\<lambda>_. None) 17 [] sampleEngine = (None, e1, d1)"
    using Flush_sampleEngine [of 17] by (metis prod_cases3 fst_conv)
  have fresh: "segmentName 17 \<notin> fst ` set []" by simp
  have sy: "synced d1 e1"
    by (rule synced_Flush [OF wf_sampleEngine mem_fits_sampleEngine synced_sampleEngine fresh _ f]) simp
  have s: "wf_engine ?s" "index (memIndex ?s) = []"
    "\<forall>r \<in> set (readers ?s). Name r \<in> set (segNames d1) \<and> OpenReader d1 (Name r) = Inr r"
    by (simp_all add: wf_engine_def sampleEngine_def wf_NewMemoryIndex NewMemoryIndex_def [THEN arg_cong [where f = index]])
  have "\<forall>m \<in> set (segNames d1). \<exists>r. tryOpen (\<lambda>_. None) d1 m = Inr r"
    using sy by (simp add: synced_def tryOpen_def)
  then obtain n s' where r: "ReloadSegments None (\<lambda>_. None) d1 ?s = Inr (n, s')"
    using openSegments_all [of "segNames d1" "\<lambda>_. None" d1]
    by (auto simp: ReloadSegments_alt sampleEngine_def)
  obtain ps where "Search s' ''Go'' = Inr ps"
    "hits ps = hits [\<lparr>DocID = ''d1'', Frequency = 1, Positions = [0]\<rparr>]"
    using reload_sees_flushed [OF wf_sampleEngine mem_fits_sampleEngine synced_sampleEngine fresh f s r]
      Search_sampleEngine by (metis Inr_inject)
  with f r show ?thesis by (simp add: hits_def)
qed

end
