(* ===== verification/Query_Parser.thy ===== *)
theory Query_Parser
  imports Tokenizer
begin

text \<open>
  \<open>internal/searcher/parser/parser.go\<close>: raw query strings to query plans. The operators AND, OR
  and NOT are recognised in any case; every other word contributes its first token, as an exclude
  term when a NOT is pending.
\<close>

datatype QueryType = QueryAND | QueryOR

record QueryPlan =
  planTerms :: "string list"
  Type :: QueryType
  ExcludeTerms :: "string list"
  RawQuery :: string

text \<open>The loop over the words; \<open>excludeNext\<close> is the pending NOT.\<close>

fun parseLoop :: "bool \<Rightarrow> QueryPlan \<Rightarrow> string list \<Rightarrow> QueryPlan" where
  "parseLoop excludeNext plan [] = plan"
| "parseLoop excludeNext plan (word # words) =
     (let upper = ToUpper word
      in if upper = ''AND'' then parseLoop excludeNext (plan\<lparr>Type := QueryAND\<rparr>) words
         else if upper = ''OR'' then parseLoop excludeNext (plan\<lparr>Type := QueryOR\<rparr>) words
         else if upper = ''NOT'' then parseLoop True plan words
         else
           (case Tokenize word of
              [] \<Rightarrow> parseLoop excludeNext plan words
            | tok # _ \<Rightarrow>
                (if excludeNext
                 then parseLoop False (plan\<lparr>ExcludeTerms := ExcludeTerms plan @ [Term tok]\<rparr>) words
                 else parseLoop False (plan\<lparr>planTerms := planTerms plan @ [Term tok]\<rparr>) words)))"

definition Parse :: "string \<Rightarrow> QueryPlan" where
  "Parse query =
     (let plan = \<lparr>planTerms = [], Type = QueryAND, ExcludeTerms = [], RawQuery = query\<rparr>
      in if TrimSpace query = [] then plan
         else parseLoop False plan (Fields query))"

section \<open>Operators and terms of a query\<close>

definition isOperator :: "string \<Rightarrow> bool" where
  "isOperator w \<longleftrightarrow> ToUpper w \<in> {''AND'', ''OR'', ''NOT''}"

text \<open>The terms a query's words stand for, in order.\<close>

definition wordTerms :: "string list \<Rightarrow> string list" where
  "wordTerms ws = concat (map (\<lambda>w. take 1 (termsOf w)) (filter (\<lambda>w. \<not> isOperator w) ws))"

text \<open>The last AND or OR decides; AND when there is none.\<close>

definition lastType :: "QueryType \<Rightarrow> string list \<Rightarrow> QueryType" where
  "lastType ty ws = foldl (\<lambda>ty w. if ToUpper w = ''AND'' then QueryAND
     else if ToUpper w = ''OR'' then QueryOR else ty) ty ws"

lemma Term_hd_termsOf: "Tokenize w = tok # toks \<Longrightarrow> take 1 (termsOf w) = [Term tok]"
  by (simp add: termsOf_def)

lemma wordTerms_Cons:
  "wordTerms (w # ws) = (if isOperator w then [] else take 1 (termsOf w)) @ wordTerms ws"
  by (simp add: wordTerms_def)

lemma parseLoop_Type: "Type (parseLoop ex plan ws) = lastType (Type plan) ws"
  by (induction ex plan ws rule: parseLoop.induct)
    (auto simp: lastType_def Let_def split: list.splits)

lemma parseLoop_RawQuery: "RawQuery (parseLoop ex plan ws) = RawQuery plan"
  by (induction ex plan ws rule: parseLoop.induct) (auto simp: Let_def split: list.splits)

lemma parseLoop_mset:
  "mset (planTerms (parseLoop ex plan ws)) + mset (ExcludeTerms (parseLoop ex plan ws)) =
   mset (planTerms plan) + mset (ExcludeTerms plan) + mset (wordTerms ws)"
proof (induction ex plan ws rule: parseLoop.induct)
  case (1 ex plan)
  then show ?case by (simp add: wordTerms_def)
next
  case (2 ex plan w ws)
  then show ?case
    by (auto simp: wordTerms_Cons isOperator_def Let_def Term_hd_termsOf termsOf_def split: list.splits)
qed

lemma parseLoop_excludes:
  "length (ExcludeTerms (parseLoop ex plan ws)) \<le>
   length (ExcludeTerms plan) + length (filter (\<lambda>w. ToUpper w = ''NOT'') ws) + (if ex then 1 else 0)"
  by (induction ex plan ws rule: parseLoop.induct) (auto simp: Let_def split: list.splits if_splits)

lemma parseLoop_no_NOT:
  "\<forall>w \<in> set ws. ToUpper w \<noteq> ''NOT'' \<Longrightarrow>
   planTerms (parseLoop False plan ws) = planTerms plan @ wordTerms ws \<and>
   ExcludeTerms (parseLoop False plan ws) = ExcludeTerms plan"
proof (induction ws arbitrary: plan)
  case (Cons w ws)
  then show ?case
    by (auto simp: wordTerms_Cons isOperator_def Let_def Term_hd_termsOf termsOf_def split: list.splits)
qed (simp add: wordTerms_def)

lemma parseLoop_append:
  assumes "\<forall>w \<in> set ws. ToUpper w \<noteq> ''NOT''"
  shows "parseLoop False plan (ws @ vs) = parseLoop False (parseLoop False plan ws) vs"
  using assms by (induction ws arbitrary: plan) (auto simp: Let_def split: list.splits)

lemma Fields_blank: "TrimSpace s = [] \<Longrightarrow> Fields s = []"
proof -
  assume "TrimSpace s = []"
  then have "dropWhile IsSpace s = []"
    by (auto simp: TrimSpace_def dropWhile_eq_Nil_conv dropWhile_eq_self_iff)
       (metis dropWhile_eq_Nil_conv hd_dropWhile hd_in_set)
  then have "\<forall>c \<in> set s. IsSpace c" by (simp add: dropWhile_eq_Nil_conv)
  then have "fieldsLoop IsSpace [] s = []" by (induction s) auto
  then show ?thesis by (simp add: Fields_def FieldsFunc_def)
qed

lemma Parse_alt:
  "Parse q = parseLoop False \<lparr>planTerms = [], Type = QueryAND, ExcludeTerms = [], RawQuery = q\<rparr> (Fields q)"
  by (simp add: Parse_def Fields_blank Let_def)

section \<open>Writing a plan as a query\<close>

definition planWords :: "QueryType \<Rightarrow> string list \<Rightarrow> string list \<Rightarrow> string list" where
  "planWords ty ts xs =
     (case ty of QueryAND \<Rightarrow> ''AND'' | QueryOR \<Rightarrow> ''OR'') # ts @ concat (map (\<lambda>x. [''NOT'', x]) xs)"

definition fieldWord :: "string \<Rightarrow> bool" where
  "fieldWord w \<longleftrightarrow> w \<noteq> [] \<and> (\<forall>c \<in> set w. \<not> IsSpace c)"

lemma Fields_word: "fieldWord w \<Longrightarrow> Fields w = [w]"
  by (simp add: fieldWord_def Fields_def FieldsFunc_word)

lemma Fields_Join: "\<forall>w \<in> set ws. fieldWord w \<Longrightarrow> Fields (Join ws '' '') = ws"
proof (induction ws "'' ''" rule: Join.induct)
  case 1
  then show ?case by (simp add: Fields_def FieldsFunc_def)
next
  case (2 x)
  then show ?case by (simp add: Fields_word)
next
  case (3 x y ys)
  have "IsSpace CHR '' ''" by (simp add: IsSpace_def)
  then have "Fields (Join (x # y # ys) '' '') = Fields x @ Fields (Join (y # ys) '' '')"
    by (simp add: Fields_def FieldsFunc_app)
  with 3 show ?case by (simp add: Fields_word)
qed

lemma lowerWord_not_space: "lowerWord w \<Longrightarrow> c \<in> set w \<Longrightarrow> \<not> IsSpace c"
  by (auto simp: lowerWord_def list_all_iff IsSpace_def isLowerAscii_def IsDigit_def char_le_nat)

lemma lower_upper: "lowerChar (upperChar c) = lowerChar c"
proof (cases "isLowerAscii c")
  case True
  then have c: "97 \<le> (of_char c :: nat)" "(of_char c :: nat) \<le> 122"
    by (auto simp: isLowerAscii_def char_le_nat)
  then have "of_char (char_of (of_char c - 32 :: nat)) = (of_char c - 32 :: nat)"
    by (simp add: of_char_of)
  moreover have "65 \<le> (of_char c - 32 :: nat)" "(of_char c - 32 :: nat) \<le> 90" using c by arith+
  ultimately show ?thesis
    using c True by (simp add: lowerChar_def upperChar_def isUpperAscii_def char_le_nat)
qed (simp add: upperChar_def)

text \<open>A term that indexing leaves as it is, so that it can stand for itself in a query.\<close>

definition normalTerm :: "string \<Rightarrow> bool" where
  "normalTerm t \<longleftrightarrow> termsOf t = [t]"

lemma normalTerm_not_operator:
  assumes "normalTerm t"
  shows "\<not> isOperator t"
proof
  assume "isOperator t"
  have low: "lowerWord t" using termsOf_ok [of t t] assms by (simp add: normalTerm_def)
  have "ToLower (ToUpper t) = t"
    using lowerWord_ToLower [OF low] by (simp add: ToLower_def ToUpper_def comp_def lower_upper)
  moreover have "ToLower ''AND'' = ''and''" "ToLower ''OR'' = ''or''" "ToLower ''NOT'' = ''not''"
    by code_simp+
  ultimately have "t \<in> {''and'', ''or'', ''not''}"
    using \<open>isOperator t\<close> unfolding isOperator_def by (metis insert_iff singletonD)
  moreover have "termsOf ''and'' = []" "termsOf ''or'' = []" "termsOf ''not'' = []" by code_simp+
  ultimately show False using assms by (auto simp: normalTerm_def)
qed

lemma normalTerm_word: "normalTerm t \<Longrightarrow> fieldWord t"
  using termsOf_ok [of t t] lowerWord_not_space [of t] by (auto simp: normalTerm_def fieldWord_def)

lemma fieldWord_operator: "fieldWord ''AND''" "fieldWord ''OR''" "fieldWord ''NOT''"
  by code_simp+

lemma wordTerms_normal: "\<forall>t \<in> set ts. normalTerm t \<Longrightarrow> wordTerms ts = ts"
  by (induction ts) (auto simp: wordTerms_Cons normalTerm_not_operator, auto simp: wordTerms_def normalTerm_def)

lemma parseLoop_NOTs:
  "\<forall>x \<in> set xs. normalTerm x \<Longrightarrow>
   parseLoop False plan (concat (map (\<lambda>x. [''NOT'', x]) xs)) = plan\<lparr>ExcludeTerms := ExcludeTerms plan @ xs\<rparr>"
proof (induction xs arbitrary: plan)
  case (Cons x xs)
  have "ToUpper ''NOT'' = ''NOT''" by code_simp
  moreover have "\<exists>tok. Tokenize x = [tok] \<and> Term tok = x"
    using Cons.prems by (auto simp: normalTerm_def termsOf_def)
  ultimately show ?case
    using Cons normalTerm_not_operator [of x] by (auto simp: isOperator_def Let_def)
qed simp

section \<open>Properties\<close>


text \<open>
  C13. Round trip: every plan over normalised terms is the parse of a query that spells it out, the
  mode first, then the terms, then each exclude term after a NOT.
\<close>

theorem Parse_planWords:
  assumes "\<forall>t \<in> set ts. normalTerm t" and "\<forall>x \<in> set xs. normalTerm x"
  shows "Parse (Join (planWords ty ts xs) '' '') =
    \<lparr>planTerms = ts, Type = ty, ExcludeTerms = xs, RawQuery = Join (planWords ty ts xs) '' ''\<rparr>"
proof -
  let ?op = "case ty of QueryAND \<Rightarrow> ''AND'' | QueryOR \<Rightarrow> ''OR''"
  have nots: "\<forall>w \<in> set (?op # ts). ToUpper w \<noteq> ''NOT''"
    using assms(1) normalTerm_not_operator
    by (auto simp: isOperator_def ToUpper_def upperChar_def isLowerAscii_def char_le_nat split: QueryType.splits)
  have "\<forall>w \<in> set (planWords ty ts xs). fieldWord w"
    using assms normalTerm_word fieldWord_operator by (cases ty) (auto simp: planWords_def)
  note F = Fields_Join [OF this]
  have "parseLoop False plan (?op # ts) = plan\<lparr>Type := ty, planTerms := planTerms plan @ ts\<rparr>" for plan
  proof (rule QueryPlan.equality)
    show "Type (parseLoop False plan (?op # ts)) = Type (plan\<lparr>Type := ty, planTerms := planTerms plan @ ts\<rparr>)"
      using assms(1) normalTerm_not_operator unfolding parseLoop_Type lastType_def
      by (induction ts rule: rev_induct)
        (auto simp: isOperator_def ToUpper_def upperChar_def isLowerAscii_def char_le_nat split: QueryType.splits)
    have "isOperator ?op" by (cases ty) (simp_all add: isOperator_def ToUpper_def upperChar_def isLowerAscii_def char_le_nat)
    then show "planTerms (parseLoop False plan (?op # ts)) = planTerms (plan\<lparr>Type := ty, planTerms := planTerms plan @ ts\<rparr>)"
      "ExcludeTerms (parseLoop False plan (?op # ts)) = ExcludeTerms (plan\<lparr>Type := ty, planTerms := planTerms plan @ ts\<rparr>)"
      using parseLoop_no_NOT [OF nots, of plan] wordTerms_normal [OF assms(1)]
      by (simp_all add: wordTerms_Cons del: parseLoop.simps)
    show "RawQuery (parseLoop False plan (?op # ts)) = RawQuery (plan\<lparr>Type := ty, planTerms := planTerms plan @ ts\<rparr>)"
      by (simp add: parseLoop_RawQuery del: parseLoop.simps)
  qed simp
  then have "parseLoop False plan (planWords ty ts xs) =
    plan\<lparr>Type := ty, planTerms := planTerms plan @ ts, ExcludeTerms := ExcludeTerms plan @ xs\<rparr>" for plan
    using parseLoop_append [OF nots, of plan "concat (map (\<lambda>x. [''NOT'', x]) xs)"] parseLoop_NOTs [OF assms(2)]
    by (simp add: planWords_def del: parseLoop.simps)
  then show ?thesis unfolding Parse_alt F by simp
qed

theorem Parse_planWords_witness:
  "Parse ''OR go index NOT rust'' =
     \<lparr>planTerms = [''go'', ''index''], Type = QueryOR, ExcludeTerms = [''rust''], RawQuery = ''OR go index NOT rust''\<rparr>"
proof -
  have "normalTerm ''go''" "normalTerm ''index''" "normalTerm ''rust''" by code_simp+
  then show ?thesis
    using Parse_planWords [of "[''go'', ''index'']" "[''rust'']" QueryOR] by (simp add: planWords_def)
qed

end
