(* ===== verification/Executor.thy ===== *)
theory Executor
  imports Engine Query_Parser Ranker
begin

text \<open>
  \<open>internal/searcher/executor\<close>: running query plans. \<open>Execute\<close> works on one engine, \<open>shardedExecute\<close>
  fans out over the shard engines and merges their postings. Both apply the Boolean filter and
  rank with BM25. The goroutines of the fan-out only read their own engine and write their own
  result cell, so the fan-out is a map over the shards in the order of the \<open>range\<close> loop.
\<close>

record SearchResult =
  srQuery :: string
  TotalHits :: int
  Results :: "ScoredDoc list"
  TermStats :: "(string \<times> int) list"

datatype exec_error = SearchingTerm string engine_error | AllShardsFailed nat | ExecPanic

definition emptyResult :: "QueryPlan \<Rightarrow> SearchResult" where
  "emptyResult plan = \<lparr>srQuery = RawQuery plan, TotalHits = 0, Results = [], TermStats = []\<rparr>"

section \<open>Boolean filtering\<close>

definition maxInt :: int where
  "maxInt = 2 ^ 63 - 1"

fun shortestLoop :: "string \<Rightarrow> int \<Rightarrow> postings_map \<Rightarrow> string" where
  "shortestLoop shortestTerm shortestLen [] = shortestTerm"
| "shortestLoop shortestTerm shortestLen ((term, postings) # rest) =
     (if int (length postings) < shortestLen then shortestLoop term (int (length postings)) rest
      else shortestLoop shortestTerm shortestLen rest)"

fun intersectLoop :: "string \<Rightarrow> string set \<Rightarrow> postings_map \<Rightarrow> string set" where
  "intersectLoop shortestTerm candidates [] = candidates"
| "intersectLoop shortestTerm candidates ((term, postings) # rest) =
     (if term = shortestTerm then intersectLoop shortestTerm candidates rest
      else intersectLoop shortestTerm (Set.filter (\<lambda>d. d \<in> set (map DocID postings)) candidates) rest)"

definition lookupPostings :: "postings_map \<Rightarrow> string \<Rightarrow> PostingList" where
  "lookupPostings m term = (case map_of m term of None \<Rightarrow> [] | Some ps \<Rightarrow> ps)"

definition intersectPostings :: "postings_map \<Rightarrow> string set" where
  "intersectPostings postingsPerTerm =
     (if postingsPerTerm = [] then {}
      else
        (let shortestTerm = shortestLoop [] maxInt postingsPerTerm;
             candidates = set (map DocID (lookupPostings postingsPerTerm shortestTerm))
         in intersectLoop shortestTerm candidates postingsPerTerm))"

definition unionPostings :: "postings_map \<Rightarrow> string set" where
  "unionPostings postingsPerTerm =
     foldl (\<lambda>result (_, postings). result \<union> set (map DocID postings)) {} postingsPerTerm"

definition candidateDocs :: "QueryType \<Rightarrow> postings_map \<Rightarrow> string set \<Rightarrow> string set" where
  "candidateDocs ty postings excludeDocIDs =
     (case ty of QueryAND \<Rightarrow> intersectPostings postings | QueryOR \<Rightarrow> unionPostings postings) - excludeDocIDs"

definition filterPostings :: "string set \<Rightarrow> postings_map \<Rightarrow> postings_map" where
  "filterPostings candidates postingsPerTerm =
     filter (\<lambda>(_, filtered). filtered \<noteq> [])
       (map (\<lambda>(term, postings). (term, filter (\<lambda>p. DocID p \<in> candidates) postings)) postingsPerTerm)"

section \<open>One engine\<close>

fun termLoop ::
  "engine \<Rightarrow> postings_map \<Rightarrow> (string \<times> int) list \<Rightarrow> string list \<Rightarrow>
   exec_error + postings_map \<times> (string \<times> int) list"
where
  "termLoop e postingsPerTerm termStats [] = Inr (postingsPerTerm, termStats)"
| "termLoop e postingsPerTerm termStats (term # terms) =
     (case Search e term of
        Inl EnginePanic \<Rightarrow> Inl ExecPanic
      | Inl err \<Rightarrow> Inl (SearchingTerm term err)
      | Inr postings \<Rightarrow>
          (if postings \<noteq> []
           then termLoop e (AList.update term postings postingsPerTerm)
                  (AList.update term (int (length postings)) termStats) terms
           else termLoop e postingsPerTerm termStats terms))"

fun excludeLoop :: "engine \<Rightarrow> string set \<Rightarrow> string list \<Rightarrow> exec_error + string set" where
  "excludeLoop e excludeDocIDs [] = Inr excludeDocIDs"
| "excludeLoop e excludeDocIDs (term # terms) =
     (case Search e term of
        Inl EnginePanic \<Rightarrow> Inl ExecPanic
      | Inl err \<Rightarrow> excludeLoop e excludeDocIDs terms
      | Inr postings \<Rightarrow> excludeLoop e (excludeDocIDs \<union> set (map DocID postings)) terms)"

definition Execute :: "engine \<Rightarrow> QueryPlan \<Rightarrow> int \<Rightarrow> exec_error + SearchResult" where
  "Execute e plan limit =
     (if planTerms plan = [] then Inr (emptyResult plan)
      else
        (case termLoop e [] [] (planTerms plan) of
           Inl err \<Rightarrow> Inl err
         | Inr (postingsPerTerm, termStats) \<Rightarrow>
             (case excludeLoop e {} (ExcludeTerms plan) of
                Inl err \<Rightarrow> Inl err
              | Inr excludeDocIDs \<Rightarrow>
                  (let candidateDocIDs = candidateDocs (Type plan) postingsPerTerm excludeDocIDs;
                       filteredPostings = filterPostings candidateDocIDs postingsPerTerm;
                       params = \<lparr>prTotalDocs = GetTotalDocs e, AvgDocLength = GetAvgDocLength e\<rparr>;
                       ranked = Rank filteredPostings params (GetDocLength e) limit
                   in Inr \<lparr>srQuery = RawQuery plan, TotalHits = int (card candidateDocIDs),
                           Results = ranked, TermStats = termStats\<rparr>))))"

section \<open>Many shards\<close>

record ShardResult =
  ShardID :: int
  shPostings :: postings_map
  shTotalDocs :: int
  AvgDocLen :: real
  shEngine :: engine

fun shardTerms :: "engine \<Rightarrow> postings_map \<Rightarrow> string list \<Rightarrow> exec_error + postings_map" where
  "shardTerms eng postings [] = Inr postings"
| "shardTerms eng postings (term # terms) =
     (case Search eng term of
        Inl EnginePanic \<Rightarrow> Inl ExecPanic
      | Inl err \<Rightarrow> Inl (SearchingTerm term err)
      | Inr ps \<Rightarrow> shardTerms eng (if ps \<noteq> [] then AList.update term ps postings else postings) terms)"

definition shardQuery :: "string list \<Rightarrow> int \<times> engine \<Rightarrow> exec_error + ShardResult" where
  "shardQuery allTerms shard =
     (case shardTerms (snd shard) [] allTerms of
        Inl err \<Rightarrow> Inl err
      | Inr postings \<Rightarrow>
          Inr \<lparr>ShardID = fst shard, shPostings = postings, shTotalDocs = GetTotalDocs (snd shard),
               AvgDocLen = GetAvgDocLength (snd shard), shEngine = snd shard\<rparr>)"

definition fanOut :: "(int \<times> engine) list \<Rightarrow> QueryPlan \<Rightarrow> exec_error + ShardResult list" where
  "fanOut engines plan =
     (let allTerms = planTerms plan @ ExcludeTerms plan;
          results = map (shardQuery allTerms) engines;
          shardResults = concat (map (\<lambda>r. case r of Inl _ \<Rightarrow> [] | Inr sr \<Rightarrow> [sr]) results)
      in if Inl ExecPanic \<in> set results then Inl ExecPanic
         else if shardResults = [] \<and> engines \<noteq> [] then Inl (AllShardsFailed (length engines))
         else Inr shardResults)"

text \<open>Merging the postings of one shard into the maps of all.\<close>

fun mergeTerms ::
  "postings_map \<Rightarrow> (string \<times> int) list \<Rightarrow> postings_map \<Rightarrow> postings_map \<times> (string \<times> int) list"
where
  "mergeTerms merged termStats [] = (merged, termStats)"
| "mergeTerms merged termStats ((term, postings) # rest) =
     mergeTerms (AList.update term (lookupPostings merged term @ postings) merged)
       (AList.update term ((case map_of termStats term of None \<Rightarrow> 0 | Some n \<Rightarrow> n) + int (length postings)) termStats)
       rest"

fun mergeShards ::
  "postings_map \<Rightarrow> (string \<times> int) list \<Rightarrow> int \<Rightarrow> real \<Rightarrow> (string \<rightharpoonup> engine) \<Rightarrow> ShardResult list \<Rightarrow>
   postings_map \<times> (string \<times> int) list \<times> int \<times> real \<times> (string \<rightharpoonup> engine)"
where
  "mergeShards merged termStats globalTotalDocs globalTotalTokens engineLookup [] =
     (merged, termStats, globalTotalDocs, globalTotalTokens, engineLookup)"
| "mergeShards merged termStats globalTotalDocs globalTotalTokens engineLookup (sr # rest) =
     (case mergeTerms merged termStats (shPostings sr) of (merged', termStats') \<Rightarrow>
        mergeShards merged' termStats' (globalTotalDocs + shTotalDocs sr)
          (globalTotalTokens + AvgDocLen sr * real_of_int (shTotalDocs sr))
          (\<lambda>d. if \<exists>(t, ps) \<in> set (shPostings sr). d \<in> set (map DocID ps) then Some (shEngine sr) else engineLookup d)
          rest)"

definition shardExcludes :: "ShardResult list \<Rightarrow> string list \<Rightarrow> string set" where
  "shardExcludes shardResults excludeTerms =
     foldl (\<lambda>acc sr. foldl (\<lambda>acc term. acc \<union> set (map DocID (lookupPostings (shPostings sr) term))) acc excludeTerms)
       {} shardResults"

fun searchLoop :: "postings_map \<Rightarrow> postings_map \<Rightarrow> string list \<Rightarrow> postings_map" where
  "searchLoop merged searchPostings [] = searchPostings"
| "searchLoop merged searchPostings (term # terms) =
     (case map_of merged term of
        None \<Rightarrow> searchLoop merged searchPostings terms
      | Some postings \<Rightarrow> searchLoop merged (AList.update term postings searchPostings) terms)"

definition shardedExecute :: "(int \<times> engine) list \<Rightarrow> QueryPlan \<Rightarrow> int \<Rightarrow> exec_error + SearchResult" where
  "shardedExecute engines plan limit =
     (if planTerms plan = [] then Inr (emptyResult plan)
      else
        (case fanOut engines plan of
           Inl err \<Rightarrow> Inl err
         | Inr shardResults \<Rightarrow>
             (case mergeShards [] [] 0 0 Map.empty shardResults of
                (mergedPostings, termStats, globalTotalDocs, globalTotalTokens, engineLookup) \<Rightarrow>
                  (let globalAvgDocLen =
                         (if 0 < globalTotalDocs then globalTotalTokens / real_of_int globalTotalDocs else 0);
                       excludeDocIDs = shardExcludes shardResults (ExcludeTerms plan);
                       searchPostings = searchLoop mergedPostings [] (planTerms plan);
                       candidateDocIDs = candidateDocs (Type plan) searchPostings excludeDocIDs;
                       filteredPostings = filterPostings candidateDocIDs searchPostings;
                       params = \<lparr>prTotalDocs = globalTotalDocs, AvgDocLength = globalAvgDocLen\<rparr>;
                       getDocInfo = (\<lambda>docID. case engineLookup docID of
                         Some eng \<Rightarrow> GetDocLength eng docID | None \<Rightarrow> 0);
                       ranked = Rank filteredPostings params getDocInfo limit
                   in Inr \<lparr>srQuery = RawQuery plan, TotalHits = int (card candidateDocIDs),
                           Results = ranked, TermStats = termStats\<rparr>))))"

section \<open>Boolean filtering, abstractly\<close>

text \<open>
  \<open>H t\<close> are the documents a search for \<open>t\<close> returns. A plan matches the documents of all (AND) or some
  (OR) of those include terms that return anything, less the documents of the exclude terms.
\<close>

definition matchSet :: "(string \<Rightarrow> string set) \<Rightarrow> QueryPlan \<Rightarrow> string set" where
  "matchSet H plan =
     (let S = {t \<in> set (planTerms plan). H t \<noteq> {}}
      in if S = {} then {} else case Type plan of QueryAND \<Rightarrow> \<Inter> (H ` S) | QueryOR \<Rightarrow> \<Union> (H ` S)) -
     \<Union> (H ` set (ExcludeTerms plan))"

lemma shortestLoop_in: "shortestLoop t n m \<in> insert t (fst ` set m)"
  by (induction t n m rule: shortestLoop.induct) auto

lemma shortestLoop_key:
  assumes "m \<noteq> []" and "\<forall>(t, ps) \<in> set m. int (length ps) < n"
  shows "shortestLoop s n m \<in> fst ` set m"
proof (cases m)
  case (Cons x xs)
  obtain t ps where x: "x = (t, ps)" by fastforce
  with assms(2) Cons have "shortestLoop s n m = shortestLoop t (int (length ps)) xs" by auto
  then show ?thesis using shortestLoop_in [of t "int (length ps)" xs] Cons x by auto
qed (use assms in simp)

lemma intersectLoop_alt:
  "intersectLoop s C m = {d \<in> C. \<forall>(t, ps) \<in> set m. t \<noteq> s \<longrightarrow> d \<in> DocID ` set ps}"
  by (induction s C m rule: intersectLoop.induct) auto

lemma intersectPostings_alt:
  assumes "distinct (map fst m)" and "\<forall>(t, ps) \<in> set m. int (length ps) < maxInt"
  shows "intersectPostings m = (if m = [] then {} else {d. \<forall>(t, ps) \<in> set m. d \<in> DocID ` set ps})"
proof (cases "m = []")
  case False
  define s where "s = shortestLoop [] maxInt m"
  obtain qs where q: "(s, qs) \<in> set m" using shortestLoop_key [OF False assms(2)] unfolding s_def by force
  have l: "lookupPostings m s = qs" using assms(1) q by (simp add: lookupPostings_def)
  have uniq: "ps = qs" if "(s, ps) \<in> set m" for ps
    using map_of_is_SomeI [OF assms(1) that] map_of_is_SomeI [OF assms(1) q] by simp
  have "d \<in> DocID ` set qs \<and> (\<forall>(t, ps) \<in> set m. t \<noteq> s \<longrightarrow> d \<in> DocID ` set ps) \<longleftrightarrow>
      (\<forall>(t, ps) \<in> set m. d \<in> DocID ` set ps)" for d
  proof
    assume L: "d \<in> DocID ` set qs \<and> (\<forall>(t, ps) \<in> set m. t \<noteq> s \<longrightarrow> d \<in> DocID ` set ps)"
    have "d \<in> DocID ` set (snd x)" if "x \<in> set m" for x
    proof (cases "fst x = s")
      case True
      with that have "(s, snd x) \<in> set m" by (metis prod.collapse)
      then show ?thesis using L uniq by blast
    next
      case False
      with L that show ?thesis by (simp add: case_prod_beta)
    qed
    then show "\<forall>(t, ps) \<in> set m. d \<in> DocID ` set ps" by (simp add: case_prod_beta)
  next
    assume "\<forall>(t, ps) \<in> set m. d \<in> DocID ` set ps"
    then show "d \<in> DocID ` set qs \<and> (\<forall>(t, ps) \<in> set m. t \<noteq> s \<longrightarrow> d \<in> DocID ` set ps)"
      using q by (auto simp: case_prod_beta dest: bspec [OF _ q])
  qed
  then show ?thesis
    using False by (simp add: intersectPostings_def Let_def l intersectLoop_alt s_def [symmetric])
qed (simp add: intersectPostings_def)

lemma unionPostings_alt: "unionPostings m = docsOf m"
proof -
  have "foldl (\<lambda>r (_, ps). r \<union> set (map DocID ps)) A m = A \<union> docsOf m" for A
    by (induction m arbitrary: A) (auto simp: docsOf_def)
  then show ?thesis by (simp add: unionPostings_def)
qed

text \<open>A map of postings that holds \<open>P t\<close> for exactly the terms with a result.\<close>

definition holds :: "string set \<Rightarrow> (string \<Rightarrow> PostingList) \<Rightarrow> postings_map \<Rightarrow> bool" where
  "holds T P m \<longleftrightarrow> distinct (map fst m) \<and>
     (\<forall>t. map_of m t = (if t \<in> T \<and> P t \<noteq> [] then Some (P t) else None))"

lemma holds_set: "holds T P m \<Longrightarrow> (t, ps) \<in> set m \<longleftrightarrow> t \<in> T \<and> P t \<noteq> [] \<and> ps = P t"
  unfolding holds_def by (metis map_of_eq_Some_iff option.distinct(1) option.inject)

lemma candidateDocs_match:
  assumes "holds (set (planTerms plan)) P m" and "\<forall>t \<in> set (planTerms plan). int (length (P t)) < maxInt"
  shows "candidateDocs (Type plan) m (\<Union>t \<in> set (ExcludeTerms plan). DocID ` set (P t)) =
    matchSet (\<lambda>t. DocID ` set (P t)) plan"
proof -
  let ?S = "{t \<in> set (planTerms plan). DocID ` set (P t) \<noteq> {}}"
  have m: "set m = (\<lambda>t. (t, P t)) ` ?S" using holds_set [OF assms(1)] by auto
  have d: "distinct (map fst m)" using assms(1) by (simp add: holds_def)
  have "m = [] \<longleftrightarrow> set m = {}" by simp
  also have "\<dots> \<longleftrightarrow> ?S = {}" unfolding m by (rule image_is_empty)
  finally have nil: "m = [] \<longleftrightarrow> ?S = {}" .
  have "intersectPostings m = (if ?S = {} then {} else \<Inter>t \<in> ?S. DocID ` set (P t))"
  proof -
    have "\<forall>(t, ps) \<in> set m. int (length ps) < maxInt" using assms(2) by (auto simp: m)
    from intersectPostings_alt [OF d this] have
      "intersectPostings m = (if ?S = {} then {} else {d. \<forall>(t, ps) \<in> set m. d \<in> DocID ` set ps})"
      by (simp only: nil)
    also have "{d. \<forall>(t, ps) \<in> set m. d \<in> DocID ` set ps} = (\<Inter>t \<in> ?S. DocID ` set (P t))"
      unfolding m by auto
    finally show ?thesis .
  qed
  moreover have "unionPostings m = (\<Union>t \<in> ?S. DocID ` set (P t))"
    unfolding unionPostings_alt docsOf_def m by auto
  ultimately show ?thesis
    unfolding candidateDocs_def matchSet_def Let_def by (cases "Type plan") auto
qed

lemma docsOf_filterPostings: "docsOf (filterPostings C m) = C \<inter> docsOf m"
  by (induction m) (auto simp: docsOf_def filterPostings_def filter_empty_conv)

lemma matchSet_subset: "holds (set (planTerms plan)) P m \<Longrightarrow> matchSet (\<lambda>t. DocID ` set (P t)) plan \<subseteq> docsOf m"
  using holds_set [of "set (planTerms plan)" P m]
  by (cases "Type plan") (force simp: matchSet_def docsOf_def Let_def split: if_splits)+

section \<open>One engine\<close>

definition postingsOf :: "engine \<Rightarrow> string \<Rightarrow> PostingList" where
  "postingsOf e q = (case Search e q of Inl _ \<Rightarrow> [] | Inr ps \<Rightarrow> ps)"

lemma Search_wf: "wf_engine e \<Longrightarrow> Search e q = Inr (postingsOf e q)"
  by (auto simp: postingsOf_def Search_def searchTerm_wf split: list.splits)

lemma termLoop_wf:
  assumes "wf_engine e" and "distinct (map fst m)" and "distinct (map fst st)"
  shows "\<exists>m' st'. termLoop e m st ts = Inr (m', st') \<and> distinct (map fst m') \<and>
    (\<forall>t. map_of m' t = (if t \<in> set ts \<and> postingsOf e t \<noteq> [] then Some (postingsOf e t) else map_of m t)) \<and>
    (\<forall>t. map_of st' t = (if t \<in> set ts \<and> postingsOf e t \<noteq> [] then Some (int (length (postingsOf e t))) else map_of st t))"
  using assms(2,3)
proof (induction ts arbitrary: m st)
  case (Cons t ts)
  show ?case
  proof (cases "postingsOf e t = []")
    case True
    then have "termLoop e m st (t # ts) = termLoop e m st ts" by (simp add: Search_wf [OF assms(1)])
    moreover obtain m' st' where "termLoop e m st ts = Inr (m', st')" "distinct (map fst m')"
      "\<forall>x. map_of m' x = (if x \<in> set ts \<and> postingsOf e x \<noteq> [] then Some (postingsOf e x) else map_of m x)"
      "\<forall>x. map_of st' x = (if x \<in> set ts \<and> postingsOf e x \<noteq> [] then Some (int (length (postingsOf e x))) else map_of st x)"
      using Cons.IH [OF Cons.prems] by blast
    ultimately show ?thesis using True by auto
  next
    case False
    let ?m = "AList.update t (postingsOf e t) m" and ?st = "AList.update t (int (length (postingsOf e t))) st"
    have "termLoop e m st (t # ts) = termLoop e ?m ?st ts" using False by (simp add: Search_wf [OF assms(1)])
    moreover obtain m' st' where "termLoop e ?m ?st ts = Inr (m', st')" "distinct (map fst m')"
      "\<forall>x. map_of m' x = (if x \<in> set ts \<and> postingsOf e x \<noteq> [] then Some (postingsOf e x) else map_of ?m x)"
      "\<forall>x. map_of st' x = (if x \<in> set ts \<and> postingsOf e x \<noteq> [] then Some (int (length (postingsOf e x))) else map_of ?st x)"
      using Cons.IH [OF distinct_update [OF Cons.prems(1)] distinct_update [OF Cons.prems(2)]] by blast
    ultimately show ?thesis using False by (auto simp: update_conv')
  qed
qed simp

lemma excludeLoop_wf:
  "wf_engine e \<Longrightarrow> excludeLoop e X ts = Inr (X \<union> (\<Union>t \<in> set ts. DocID ` set (postingsOf e t)))"
  by (induction ts arbitrary: X) (auto simp: Search_wf)

definition execParams :: "engine \<Rightarrow> RankParams" where
  "execParams e = \<lparr>prTotalDocs = GetTotalDocs e, AvgDocLength = GetAvgDocLength e\<rparr>"

lemma Execute_wf:
  assumes "wf_engine e" and "\<forall>t \<in> set (planTerms plan). int (length (postingsOf e t)) < maxInt" and "planTerms plan \<noteq> []"
  obtains m st where "holds (set (planTerms plan)) (postingsOf e) m"
    "\<forall>t. map_of st t = (if t \<in> set (planTerms plan) \<and> postingsOf e t \<noteq> [] then Some (int (length (postingsOf e t))) else None)"
    "Execute e plan limit =
      Inr \<lparr>srQuery = RawQuery plan, TotalHits = int (card (matchSet (\<lambda>t. DocID ` set (postingsOf e t)) plan)),
        Results = Rank (filterPostings (matchSet (\<lambda>t. DocID ` set (postingsOf e t)) plan) m) (execParams e) (GetDocLength e) limit,
        TermStats = st\<rparr>"
proof -
  obtain m st where T: "termLoop e [] [] (planTerms plan) = Inr (m, st)" "distinct (map fst m)"
    "\<forall>t. map_of m t = (if t \<in> set (planTerms plan) \<and> postingsOf e t \<noteq> [] then Some (postingsOf e t) else map_of [] t)"
    "\<forall>t. map_of st t = (if t \<in> set (planTerms plan) \<and> postingsOf e t \<noteq> [] then Some (int (length (postingsOf e t))) else map_of [] t)"
    using termLoop_wf [OF assms(1), of "[]" "[]" "planTerms plan"] by auto
  have h: "holds (set (planTerms plan)) (postingsOf e) m" using T(2,3) by (simp add: holds_def)
  note c = candidateDocs_match [OF h assms(2)]
  have x: "excludeLoop e {} (ExcludeTerms plan) = Inr (\<Union>t \<in> set (ExcludeTerms plan). DocID ` set (postingsOf e t))"
    using excludeLoop_wf [OF assms(1), of "{}"] by simp
  show ?thesis
    by (rule that [OF h, of st]) (use T(4) in simp, simp add: Execute_def assms(3) T(1) x c execParams_def Let_def)
qed

section \<open>Many shards\<close>

lemma shardTerms_wf:
  assumes "wf_engine e" and "distinct (map fst m)"
  shows "\<exists>m'. shardTerms e m ts = Inr m' \<and> distinct (map fst m') \<and>
    (\<forall>t. map_of m' t = (if t \<in> set ts \<and> postingsOf e t \<noteq> [] then Some (postingsOf e t) else map_of m t))"
  using assms(2)
proof (induction ts arbitrary: m)
  case (Cons t ts)
  let ?m = "if postingsOf e t \<noteq> [] then AList.update t (postingsOf e t) m else m"
  have "shardTerms e m (t # ts) = shardTerms e ?m ts" by (simp add: Search_wf [OF assms(1)])
  moreover have "distinct (map fst ?m)"
    using Cons.prems distinct_update [of m t] by (cases "postingsOf e t = []") auto
  then obtain m' where "shardTerms e ?m ts = Inr m'" "distinct (map fst m')"
    "\<forall>x. map_of m' x = (if x \<in> set ts \<and> postingsOf e x \<noteq> [] then Some (postingsOf e x) else map_of ?m x)"
    using Cons.IH [of ?m] by blast
  ultimately show ?case by (auto simp: update_conv')
qed simp

definition shard_ok :: "string set \<Rightarrow> ShardResult \<Rightarrow> int \<times> engine \<Rightarrow> bool" where
  "shard_ok T sr s \<longleftrightarrow> holds T (postingsOf (snd s)) (shPostings sr) \<and> shTotalDocs sr = GetTotalDocs (snd s) \<and>
     AvgDocLen sr = GetAvgDocLength (snd s) \<and> shEngine sr = snd s"

lemma fanOut_wf:
  assumes "\<forall>s \<in> set shards. wf_engine (snd s)"
  obtains srs where "fanOut shards plan = Inr srs"
    "list_all2 (shard_ok (set (planTerms plan @ ExcludeTerms plan))) srs shards"
proof -
  let ?T = "planTerms plan @ ExcludeTerms plan"
  have one: "\<exists>sr. shardQuery ?T s = Inr sr \<and> shard_ok (set ?T) sr s" if "wf_engine (snd s)" for s
    using shardTerms_wf [OF that, of "[]" ?T] by (auto simp: shardQuery_def shard_ok_def holds_def)
  from assms have "\<exists>srs. map (shardQuery ?T) shards = map Inr srs \<and> list_all2 (shard_ok (set ?T)) srs shards"
  proof (induction shards)
    case (Cons s shards)
    obtain sr where "shardQuery ?T s = Inr sr" "shard_ok (set ?T) sr s" using one [of s] Cons.prems by auto
    moreover obtain srs where "map (shardQuery ?T) shards = map Inr srs" "list_all2 (shard_ok (set ?T)) srs shards"
      using Cons by auto
    ultimately show ?case by (intro exI [of _ "sr # srs"]) simp
  qed simp
  then obtain srs where srs: "map (shardQuery ?T) shards = map Inr srs" "list_all2 (shard_ok (set ?T)) srs shards"
    by blast
  have "srs = [] \<longleftrightarrow> shards = []" using list_all2_lengthD [OF srs(2)] by auto
  then have "fanOut shards plan = Inr srs"
    unfolding fanOut_def Let_def srs(1) by (auto simp: comp_def)
  with srs(2) that show ?thesis by blast
qed

text \<open>The postings of all shards for a term.\<close>

definition allShardPostings :: "(int \<times> engine) list \<Rightarrow> string \<Rightarrow> PostingList" where
  "allShardPostings shards t = concat (map (\<lambda>s. postingsOf (snd s) t) shards)"

lemma allShardPostings_Cons:
  "allShardPostings (s # shards) t = postingsOf (snd s) t @ allShardPostings shards t"
  by (simp add: allShardPostings_def)

lemma mergeTerms_spec:
  "distinct (map fst m) \<Longrightarrow> distinct (map fst sp) \<Longrightarrow>
   distinct (map fst (fst (mergeTerms m st sp))) \<and>
   (\<forall>t. map_of (fst (mergeTerms m st sp)) t =
     (case map_of sp t of None \<Rightarrow> map_of m t | Some ps \<Rightarrow> Some (lookupPostings m t @ ps)))"
proof (induction m st sp rule: mergeTerms.induct)
  case (2 m st t ps rest)
  have t: "map_of rest t = None" using 2(3) by (simp add: map_of_eq_None_iff)
  have l: "lookupPostings (AList.update t v m) x = (if x = t then v else lookupPostings m x)" for v x
    by (simp add: lookupPostings_def update_conv')
  from 2(1) [OF distinct_update [OF 2(2)]] 2(3) t show ?case
    by (auto simp: update_conv' l split: option.splits)
qed simp

lemma holds_lookup: "holds T P m \<Longrightarrow> lookupPostings m t = (if t \<in> T then P t else [])"
  by (auto simp: holds_def lookupPostings_def)

lemma holds_extend:
  assumes "holds T P m" and "holds T Q sp"
  shows "holds T (\<lambda>t. P t @ Q t) (fst (mergeTerms m st sp))"
proof -
  have "distinct (map fst m)" "distinct (map fst sp)" using assms by (simp_all add: holds_def)
  from mergeTerms_spec [OF this, of st] show ?thesis
    using assms by (auto simp: holds_def holds_lookup [OF assms(1)])
qed

lemma mergeShards_Cons:
  assumes "mergeShards m st n tok el (sr # srs) = r"
  obtains m1 st1 where "mergeTerms m st (shPostings sr) = (m1, st1)"
    "mergeShards m1 st1 (n + shTotalDocs sr) (tok + AvgDocLen sr * real_of_int (shTotalDocs sr))
       (\<lambda>d. if \<exists>(t, ps) \<in> set (shPostings sr). d \<in> set (map DocID ps) then Some (shEngine sr) else el d) srs = r"
  using assms by (auto split: prod.splits)

lemma mergeShards_totals:
  "list_all2 (shard_ok T) srs shards \<Longrightarrow> holds T P m \<Longrightarrow>
   mergeShards m st n tok el srs = (m', st', n', tok', el') \<Longrightarrow>
   holds T (\<lambda>t. P t @ allShardPostings shards t) m' \<and>
   n' = n + (\<Sum>s \<leftarrow> shards. GetTotalDocs (snd s)) \<and>
   tok' = tok + (\<Sum>s \<leftarrow> shards. GetAvgDocLength (snd s) * real_of_int (GetTotalDocs (snd s)))"
proof (induction srs shards arbitrary: m st n tok el P rule: list_all2_induct)
  case Nil
  then show ?case by (simp add: allShardPostings_def)
next
  case (Cons sr srs s shards)
  have ok: "holds T (postingsOf (snd s)) (shPostings sr)" "shTotalDocs sr = GetTotalDocs (snd s)"
    "AvgDocLen sr = GetAvgDocLength (snd s)"
    using Cons.hyps(1) by (simp_all add: shard_ok_def)
  obtain m1 st1 where m1: "mergeTerms m st (shPostings sr) = (m1, st1)"
    and r: "mergeShards m1 st1 (n + shTotalDocs sr) (tok + AvgDocLen sr * real_of_int (shTotalDocs sr))
       (\<lambda>d. if \<exists>(t, ps) \<in> set (shPostings sr). d \<in> set (map DocID ps) then Some (shEngine sr) else el d) srs =
       (m', st', n', tok', el')"
    by (rule mergeShards_Cons [OF Cons.prems(2)])
  have h1: "holds T (\<lambda>t. P t @ postingsOf (snd s) t) m1"
    using holds_extend [OF Cons.prems(1) ok(1), of st] m1 by simp
  from Cons.IH [OF h1 r] show ?case by (simp add: ok(2,3) allShardPostings_def)
qed

lemma holds_docs:
  assumes "holds T P m"
  shows "(\<exists>(t, ps) \<in> set m. d \<in> set (map DocID ps)) \<longleftrightarrow> (\<exists>t \<in> T. d \<in> DocID ` set (P t))"
proof
  assume "\<exists>(t, ps) \<in> set m. d \<in> set (map DocID ps)"
  then obtain t ps where m: "(t, ps) \<in> set m" and d: "d \<in> DocID ` set ps" by auto
  have "t \<in> T" "ps = P t" using holds_set [OF assms, of t ps] m by simp_all
  with d show "\<exists>t \<in> T. d \<in> DocID ` set (P t)" by blast
next
  assume "\<exists>t \<in> T. d \<in> DocID ` set (P t)"
  then obtain t where t: "t \<in> T" "d \<in> DocID ` set (P t)" by blast
  then have "P t \<noteq> []" by auto
  then have "(t, P t) \<in> set m" using t holds_set [OF assms, of t "P t"] by simp
  then show "\<exists>(t, ps) \<in> set m. d \<in> set (map DocID ps)" using t(2) by force
qed

lemma holds_docsOf:
  assumes "holds T P m"
  shows "docsOf m = (\<Union>t \<in> T. DocID ` set (P t))"
proof -
  have "d \<in> docsOf m \<longleftrightarrow> (\<exists>(t, ps) \<in> set m. d \<in> set (map DocID ps))" for d
    by (auto simp: docsOf_def)
  then show ?thesis unfolding holds_docs [OF assms] by auto
qed

definition inShard :: "string set \<Rightarrow> int \<times> engine \<Rightarrow> string \<Rightarrow> bool" where
  "inShard T s d \<longleftrightarrow> (\<exists>t \<in> T. d \<in> DocID ` set (postingsOf (snd s) t))"

lemma mergeShards_lookup:
  "list_all2 (shard_ok T) srs shards \<Longrightarrow>
   mergeShards m st n tok el srs = (m', st', n', tok', el') \<Longrightarrow>
   (\<exists>s \<in> set shards. inShard T s d \<and> el' d = Some (snd s)) \<or>
   (el' d = el d \<and> (\<forall>s \<in> set shards. \<not> inShard T s d))"
proof (induction srs shards arbitrary: m st n tok el rule: list_all2_induct)
  case Nil
  then show ?case by simp
next
  case (Cons sr srs s shards)
  let ?el = "\<lambda>d. if \<exists>(t, ps) \<in> set (shPostings sr). d \<in> set (map DocID ps) then Some (shEngine sr) else el d"
  have h: "holds T (postingsOf (snd s)) (shPostings sr)" and e: "shEngine sr = snd s"
    using Cons.hyps(1) by (simp_all add: shard_ok_def)
  obtain m1 st1 where
    r: "mergeShards m1 st1 (n + shTotalDocs sr) (tok + AvgDocLen sr * real_of_int (shTotalDocs sr)) ?el srs =
       (m', st', n', tok', el')"
    by (rule mergeShards_Cons [OF Cons.prems])
  have "(\<exists>(t, ps) \<in> set (shPostings sr). d \<in> set (map DocID ps)) \<longleftrightarrow> inShard T s d"
    unfolding inShard_def by (rule holds_docs [OF h])
  then have "?el d = (if inShard T s d then Some (snd s) else el d)" by (simp only: e)
  with Cons.IH [OF r] show ?case by (auto split: if_splits)
qed

lemma shardExcludes_alt:
  assumes "list_all2 (shard_ok T) srs shards" and "set xs \<subseteq> T"
  shows "shardExcludes srs xs = (\<Union>t \<in> set xs. DocID ` set (allShardPostings shards t))"
proof -
  have inner: "foldl (\<lambda>acc t. acc \<union> set (map DocID (lookupPostings p t))) A xs =
      A \<union> (\<Union>t \<in> set xs. DocID ` set (lookupPostings p t))" for A p
    by (induction xs arbitrary: A) auto
  have "foldl (\<lambda>acc sr. acc \<union> (\<Union>t \<in> set xs. DocID ` set (lookupPostings (shPostings sr) t))) A srs =
      A \<union> (\<Union>t \<in> set xs. DocID ` set (allShardPostings shards t))" for A
    using assms(1)
  proof (induction srs shards arbitrary: A rule: list_all2_induct)
    case (Cons sr srs s shards)
    have "lookupPostings (shPostings sr) t = postingsOf (snd s) t" if "t \<in> set xs" for t
      using Cons.hyps(1) that assms(2) holds_lookup [of T] by (auto simp: shard_ok_def)
    then have "(\<Union>t \<in> set xs. DocID ` set (lookupPostings (shPostings sr) t)) =
        (\<Union>t \<in> set xs. DocID ` set (postingsOf (snd s) t))" by auto
    with Cons.IH show ?case
      by (simp only: foldl_Cons allShardPostings_Cons set_append image_Un UN_Un_distrib Un_assoc)
  qed (simp add: allShardPostings_def)
  then show ?thesis unfolding shardExcludes_def inner by simp
qed

lemma searchLoop_spec:
  "distinct (map fst sp) \<Longrightarrow> distinct (map fst (searchLoop m sp ts)) \<and>
   (\<forall>t. map_of (searchLoop m sp ts) t = (if t \<in> set ts \<and> map_of m t \<noteq> None then map_of m t else map_of sp t))"
proof (induction ts arbitrary: sp)
  case (Cons t ts)
  show ?case
  proof (cases "map_of m t")
    case None
    with Cons.IH [OF Cons.prems] show ?thesis by auto
  next
    case (Some ps)
    with Cons.IH [OF distinct_update [OF Cons.prems]] show ?thesis by (auto simp: update_conv')
  qed
qed simp

lemma holds_searchLoop:
  assumes "holds T P m" and "set ts \<subseteq> T"
  shows "holds (set ts) P (searchLoop m [] ts)"
  using assms searchLoop_spec [of "[]" m ts] by (auto simp: holds_def)

text \<open>The corpus statistics and document lengths a sharded query ranks with.\<close>

definition globalParams :: "(int \<times> engine) list \<Rightarrow> RankParams" where
  "globalParams shards =
     (let n = (\<Sum>s \<leftarrow> shards. GetTotalDocs (snd s));
          tok = (\<Sum>s \<leftarrow> shards. GetAvgDocLength (snd s) * real_of_int (GetTotalDocs (snd s)))
      in \<lparr>prTotalDocs = n, AvgDocLength = (if 0 < n then tok / real_of_int n else 0)\<rparr>)"

lemma shardedExecute_wf:
  fixes shards plan limit
  defines "T \<equiv> set (planTerms plan @ ExcludeTerms plan)"
    and "M \<equiv> matchSet (\<lambda>t. DocID ` set (allShardPostings shards t)) plan"
  assumes "\<forall>s \<in> set shards. wf_engine (snd s)" and "\<forall>t \<in> set (planTerms plan). int (length (allShardPostings shards t)) < maxInt"
    and "planTerms plan \<noteq> []"
  obtains m st el where "holds (set (planTerms plan)) (allShardPostings shards) m"
    "\<forall>d. (\<exists>s \<in> set shards. inShard T s d \<and> el d = Some (snd s)) \<or> (\<forall>s \<in> set shards. \<not> inShard T s d)"
    "shardedExecute shards plan limit =
      Inr \<lparr>srQuery = RawQuery plan, TotalHits = int (card M),
        Results = Rank (filterPostings M m) (globalParams shards)
          (\<lambda>docID. case el docID of Some eng \<Rightarrow> GetDocLength eng docID | None \<Rightarrow> 0) limit,
        TermStats = st\<rparr>"
proof -
  obtain srs where srs: "fanOut shards plan = Inr srs" "list_all2 (shard_ok T) srs shards"
    using fanOut_wf [OF assms(3)] unfolding T_def by blast
  obtain m st n tok el where r: "mergeShards [] [] 0 0 Map.empty srs = (m, st, n, tok, el)"
    by (metis prod_cases5)
  have "holds T (\<lambda>_. []) []" by (simp add: holds_def)
  note tot = mergeShards_totals [OF srs(2) this r, simplified]
  have hs: "holds (set (planTerms plan)) (allShardPostings shards) (searchLoop m [] (planTerms plan))"
    by (rule holds_searchLoop [of T]) (use tot in \<open>simp_all add: T_def\<close>)
  have x: "shardExcludes srs (ExcludeTerms plan) = (\<Union>t \<in> set (ExcludeTerms plan). DocID ` set (allShardPostings shards t))"
    by (rule shardExcludes_alt [OF srs(2)]) (simp add: T_def)
  have c: "candidateDocs (Type plan) (searchLoop m [] (planTerms plan)) (shardExcludes srs (ExcludeTerms plan)) = M"
    unfolding x M_def by (rule candidateDocs_match [OF hs assms(4)])
  have p: "\<lparr>prTotalDocs = n, AvgDocLength = (if 0 < n then tok / real_of_int n else 0)\<rparr> = globalParams shards"
    using tot by (simp add: globalParams_def Let_def)
  have el: "\<forall>d. (\<exists>s \<in> set shards. inShard T s d \<and> el d = Some (snd s)) \<or> (\<forall>s \<in> set shards. \<not> inShard T s d)"
    using mergeShards_lookup [OF srs(2) r] by blast
  show ?thesis
    by (rule that [OF hs el, of st])
      (simp add: shardedExecute_def assms(5) srs(1) r c p [symmetric] Let_def)
qed

section \<open>Properties\<close>

lemma Rank_match:
  assumes "holds (set (planTerms plan)) P m"
  defines "M \<equiv> matchSet (\<lambda>t. DocID ` set (P t)) plan"
  shows "docsOf (filterPostings M m) = M"
  using matchSet_subset [OF assms(1)] by (auto simp: docsOf_filterPostings M_def)

lemma matchSet_cong:
  assumes "\<And>t. t \<in> set (planTerms plan) \<union> set (ExcludeTerms plan) \<Longrightarrow> H t = H' t"
  shows "matchSet H plan = matchSet H' plan"
proof -
  have S: "{t \<in> set (planTerms plan). H t \<noteq> {}} = {t \<in> set (planTerms plan). H' t \<noteq> {}}" using assms by auto
  have "H ` {t \<in> set (planTerms plan). H' t \<noteq> {}} = H' ` {t \<in> set (planTerms plan). H' t \<noteq> {}}"
    using assms by (intro image_cong) auto
  moreover have "H ` set (ExcludeTerms plan) = H' ` set (ExcludeTerms plan)" using assms by (intro image_cong) auto
  ultimately show ?thesis by (simp only: matchSet_def Let_def S)
qed

lemma matchSet_no_terms: "planTerms plan = [] \<Longrightarrow> matchSet H plan = {}"
  by (simp add: matchSet_def)

lemma filterPostings_map_of:
  assumes "distinct (map fst m)"
  shows "distinct (map fst (filterPostings C m))"
    and "map_of (filterPostings C m) t = (case map_of m t of None \<Rightarrow> None
      | Some ps \<Rightarrow> if filter (\<lambda>p. DocID p \<in> C) ps = [] then None else Some (filter (\<lambda>p. DocID p \<in> C) ps))"
proof -
  have keys: "fst ` set (filterPostings C m) \<subseteq> fst ` set m" for m
    by (auto simp: filterPostings_def) force
  show "distinct (map fst (filterPostings C m))"
    using assms
  proof (induction m)
    case (Cons x m)
    then have "fst x \<notin> fst ` set (filterPostings C m)" using keys [of m] by auto
    moreover have "filterPostings C (x # m) = filterPostings C m \<or>
        (\<exists>ps. filterPostings C (x # m) = (fst x, ps) # filterPostings C m)"
      by (auto simp: filterPostings_def case_prod_beta)
    ultimately show ?case using Cons by auto
  qed (simp add: filterPostings_def)
  show "map_of (filterPostings C m) t = (case map_of m t of None \<Rightarrow> None
      | Some ps \<Rightarrow> if filter (\<lambda>p. DocID p \<in> C) ps = [] then None else Some (filter (\<lambda>p. DocID p \<in> C) ps))"
    using assms
  proof (induction m)
    case (Cons x m)
    obtain k ps where x: "x = (k, ps)" by fastforce
    have "k \<notin> fst ` set (filterPostings C m)" using Cons.prems keys [of m] x by auto
    then have n: "map_of (filterPostings C m) k = None" by (simp add: map_of_eq_None_iff)
    have f: "filterPostings C (x # m) =
        (if filter (\<lambda>p. DocID p \<in> C) ps = [] then [] else [(k, filter (\<lambda>p. DocID p \<in> C) ps)]) @ filterPostings C m"
      by (simp add: filterPostings_def x)
    show ?case
    proof (cases "t = k")
      case True
      then show ?thesis using n by (simp add: f [unfolded x] x)
    next
      case False
      then show ?thesis using Cons by (simp add: f [unfolded x] x)
    qed
  qed (simp add: filterPostings_def)
qed

text \<open>Ranking depends on the multisets of postings only.\<close>

lemma Rank_holds_cong:
  assumes "holds T P m" and "holds T Q m'" and "\<And>t. t \<in> T \<Longrightarrow> mset (P t) = mset (Q t)"
    and "\<And>d. d \<in> docsOf (filterPostings C m) \<Longrightarrow> info' d = info d"
  shows "Rank (filterPostings C m') params info' limit = Rank (filterPostings C m) params info limit"
proof -
  have d: "distinct (map fst m)" "distinct (map fst m')" using assms(1,2) by (simp_all add: holds_def)
  have mo: "map_of m t = (if t \<in> T \<and> P t \<noteq> [] then Some (P t) else None)"
    "map_of m' t = (if t \<in> T \<and> Q t \<noteq> [] then Some (Q t) else None)" for t
    using assms(1,2) by (simp_all add: holds_def)
  have eq: "mset (filter (\<lambda>p. DocID p \<in> C) (P t)) = mset (filter (\<lambda>p. DocID p \<in> C) (Q t))" if "t \<in> T" for t
    using assms(3) [OF that] by simp
  have nil: "P t = [] \<longleftrightarrow> Q t = []"
    "filter (\<lambda>p. DocID p \<in> C) (P t) = [] \<longleftrightarrow> filter (\<lambda>p. DocID p \<in> C) (Q t) = []" if "t \<in> T" for t
    using assms(3) [OF that] eq [OF that] by (metis mset_zero_iff)+
  note fp = filterPostings_map_of [OF d(1), of C] and fp' = filterPostings_map_of [OF d(2), of C]
  show ?thesis
  proof (rule Rank_cong [OF fp(1) fp'(1) _ _ assms(4)])
    show "dom (map_of (filterPostings C m')) = dom (map_of (filterPostings C m))"
      using nil by (auto simp: dom_def fp(2) fp'(2) mo split: if_splits)
    show "mset ps' = mset ps"
      if "map_of (filterPostings C m) t = Some ps" "map_of (filterPostings C m') t = Some ps'" for t ps ps'
      using that eq [of t] by (auto simp: fp(2) fp'(2) mo split: if_splits)
  qed
qed

lemma Execute_spec:
  assumes "wf_engine e" and "\<forall>t \<in> set (planTerms plan). int (length (postingsOf e t)) < maxInt"
  shows "\<exists>r. Execute e plan limit = Inr r \<and>
    TotalHits r = int (card (matchSet (\<lambda>t. DocID ` set (postingsOf e t)) plan)) \<and>
    distinct (map sdDocID (Results r)) \<and>
    sdDocID ` set (Results r) \<subseteq> matchSet (\<lambda>t. DocID ` set (postingsOf e t)) plan \<and>
    int (length (Results r)) = (if 0 < limit then min limit (TotalHits r) else TotalHits r) \<and>
    map_of (TermStats r) t = (if t \<in> set (planTerms plan) \<and> postingsOf e t \<noteq> []
      then Some (int (length (postingsOf e t))) else None)"
proof (cases "planTerms plan = []")
  case True
  then show ?thesis by (simp add: Execute_def emptyResult_def matchSet_no_terms)
next
  case False
  let ?M = "matchSet (\<lambda>t. DocID ` set (postingsOf e t)) plan"
  obtain m st where h: "holds (set (planTerms plan)) (postingsOf e) m"
    and st: "\<forall>t. map_of st t = (if t \<in> set (planTerms plan) \<and> postingsOf e t \<noteq> [] then Some (int (length (postingsOf e t))) else None)"
    and ex: "Execute e plan limit = Inr \<lparr>srQuery = RawQuery plan, TotalHits = int (card ?M),
        Results = Rank (filterPostings ?M m) (execParams e) (GetDocLength e) limit, TermStats = st\<rparr>"
    by (rule Execute_wf [OF assms False])
  note d = Rank_match [OF h]
  have "set (Rank (filterPostings ?M m) (execParams e) (GetDocLength e) limit) \<subseteq>
      set (Rank (filterPostings ?M m) (execParams e) (GetDocLength e) 0)"
    by (subst Rank_limit) (simp add: set_take_subset)
  then have "sdDocID ` set (Rank (filterPostings ?M m) (execParams e) (GetDocLength e) limit) \<subseteq> ?M"
    using sdDocID_Rank [of "filterPostings ?M m"] d by blast
  with ex st distinct_Rank show ?thesis
    by (auto simp: length_Rank d)
qed



lemma matchSet_all:
  assumes "planTerms plan \<noteq> []" and "ExcludeTerms plan = []" and "\<forall>t \<in> set (planTerms plan). x \<in> H t"
  shows "x \<in> matchSet H plan"
proof -
  have "{t \<in> set (planTerms plan). H t \<noteq> {}} = set (planTerms plan)" using assms(3) by auto
  then show ?thesis using assms by (cases "Type plan") (auto simp: matchSet_def Let_def neq_Nil_conv)
qed

lemma finite_matchSet: "(\<And>t. finite (H t)) \<Longrightarrow> finite (matchSet H plan)"
proof (rule finite_subset)
  show "matchSet H plan \<subseteq> \<Union> (H ` set (planTerms plan))"
    by (cases "Type plan") (auto simp: matchSet_def Let_def split: if_splits)
qed simp

lemma shardedExecute_spec:
  assumes "\<forall>s \<in> set shards. wf_engine (snd s)" and "\<forall>t \<in> set (planTerms plan). int (length (allShardPostings shards t)) < maxInt"
  shows "\<exists>r. shardedExecute shards plan limit = Inr r \<and>
    TotalHits r = int (card (matchSet (\<lambda>t. DocID ` set (allShardPostings shards t)) plan)) \<and>
    (limit \<le> 0 \<or> TotalHits r \<le> limit \<longrightarrow>
      sdDocID ` set (Results r) = matchSet (\<lambda>t. DocID ` set (allShardPostings shards t)) plan)"
proof (cases "planTerms plan = []")
  case True
  then show ?thesis by (simp add: shardedExecute_def emptyResult_def matchSet_no_terms)
next
  case False
  let ?M = "matchSet (\<lambda>t. DocID ` set (allShardPostings shards t)) plan"
  obtain m st el where h: "holds (set (planTerms plan)) (allShardPostings shards) m"
    and ex: "shardedExecute shards plan limit = Inr \<lparr>srQuery = RawQuery plan, TotalHits = int (card ?M),
        Results = Rank (filterPostings ?M m) (globalParams shards)
          (\<lambda>docID. case el docID of Some eng \<Rightarrow> GetDocLength eng docID | None \<Rightarrow> 0) limit,
        TermStats = st\<rparr>"
    by (rule shardedExecute_wf [OF assms False])
  note d = Rank_match [OF h]
  show ?thesis
    using ex Rank_limit [of "filterPostings ?M m" _ _ limit] length_Rank [of "filterPostings ?M m" _ _ 0]
    by (auto simp: sdDocID_Rank d)
qed

lemma GetAvg_mult:
  "totalDocs e \<noteq> 0 \<or> totalTokens e = 0 \<Longrightarrow>
   GetAvgDocLength e * real_of_int (GetTotalDocs e) = real_of_int (totalTokens e)"
  by (auto simp: GetAvgDocLength_def GetTotalDocs_def)

lemma globalParams_single:
  assumes "\<forall>s \<in> set shards. 0 \<le> totalDocs (snd s) \<and> (totalDocs (snd s) \<noteq> 0 \<or> totalTokens (snd s) = 0)"
    and "totalDocs e = (\<Sum>s \<leftarrow> shards. totalDocs (snd s))" and "totalTokens e = (\<Sum>s \<leftarrow> shards. totalTokens (snd s))"
  shows "globalParams shards = execParams e"
proof -
  have n: "(\<Sum>s \<leftarrow> shards. GetTotalDocs (snd s)) = totalDocs e" by (simp add: GetTotalDocs_def assms(2))
  have "map (\<lambda>s. GetAvgDocLength (snd s) * real_of_int (GetTotalDocs (snd s))) shards =
      map (\<lambda>s. real_of_int (totalTokens (snd s))) shards"
    using assms(1) GetAvg_mult by auto
  moreover have "(\<Sum>s \<leftarrow> shards. real_of_int (totalTokens (snd s))) = real_of_int (totalTokens e)"
    unfolding assms(3) by (induction shards) auto
  ultimately have tok: "(\<Sum>s \<leftarrow> shards. GetAvgDocLength (snd s) * real_of_int (GetTotalDocs (snd s))) = real_of_int (totalTokens e)"
    by (simp only:)
  have "0 \<le> totalDocs e" unfolding assms(2) using assms(1) by (auto intro!: sum_list_nonneg)
  then show ?thesis
    unfolding globalParams_def Let_def n tok
    by (auto simp: execParams_def GetAvgDocLength_def GetTotalDocs_def)
qed

text \<open>
  C19. Sharding is transparent: when the shards together hold the postings of an engine (each
  document on its shard, with the same lengths and totals), the sharded query returns the total
  hits and the ranked documents, with the same scores, as the query on the one engine.
\<close>

theorem shardedExecute_transparent:
  assumes "wf_engine e" and "\<forall>s \<in> set shards. wf_engine (snd s)"
    and "\<forall>t \<in> set (planTerms plan). int (length (postingsOf e t)) < maxInt"
    and "\<forall>t \<in> set (planTerms plan @ ExcludeTerms plan). mset (allShardPostings shards t) = mset (postingsOf e t)"
    and "\<forall>s \<in> set shards. \<forall>t. \<forall>p \<in> set (postingsOf (snd s) t). GetDocLength (snd s) (DocID p) = GetDocLength e (DocID p)"
    and "\<forall>s \<in> set shards. 0 \<le> totalDocs (snd s) \<and> (totalDocs (snd s) \<noteq> 0 \<or> totalTokens (snd s) = 0)"
    and "totalDocs e = (\<Sum>s \<leftarrow> shards. totalDocs (snd s))" and "totalTokens e = (\<Sum>s \<leftarrow> shards. totalTokens (snd s))"
  shows "\<exists>r r'. Execute e plan limit = Inr r \<and> shardedExecute shards plan limit = Inr r' \<and>
    srQuery r' = srQuery r \<and> TotalHits r' = TotalHits r \<and> Results r' = Results r"
proof (cases "planTerms plan = []")
  case True
  then show ?thesis by (simp add: Execute_def shardedExecute_def)
next
  case False
  define T where "T = set (planTerms plan @ ExcludeTerms plan)"
  define M where "M = matchSet (\<lambda>t. DocID ` set (postingsOf e t)) plan"
  define M' where "M' = matchSet (\<lambda>t. DocID ` set (allShardPostings shards t)) plan"
  have sets: "set (allShardPostings shards t) = set (postingsOf e t)" if "t \<in> T" for t
    using assms(4) that mset_eq_setD unfolding T_def by blast
  then have MM: "M' = M" unfolding M_def M'_def by (intro matchSet_cong) (simp add: T_def)
  have len: "\<forall>t \<in> set (planTerms plan). int (length (allShardPostings shards t)) < maxInt"
    using assms(3,4) by (metis UnI1 set_append size_mset)
  obtain m st where h: "holds (set (planTerms plan)) (postingsOf e) m"
    and ex: "Execute e plan limit = Inr \<lparr>srQuery = RawQuery plan, TotalHits = int (card M),
        Results = Rank (filterPostings M m) (execParams e) (GetDocLength e) limit, TermStats = st\<rparr>"
    unfolding M_def by (rule Execute_wf [OF assms(1,3) False])
  obtain m' st' el where h': "holds (set (planTerms plan)) (allShardPostings shards) m'"
    and el: "\<forall>d. (\<exists>s \<in> set shards. inShard T s d \<and> el d = Some (snd s)) \<or> (\<forall>s \<in> set shards. \<not> inShard T s d)"
    and ex': "shardedExecute shards plan limit =
      Inr \<lparr>srQuery = RawQuery plan, TotalHits = int (card M'),
        Results = Rank (filterPostings M' m') (globalParams shards)
          (\<lambda>docID. case el docID of Some eng \<Rightarrow> GetDocLength eng docID | None \<Rightarrow> 0) limit,
        TermStats = st'\<rparr>"
    unfolding M'_def T_def by (rule shardedExecute_wf [OF assms(2) len False])
  have info: "(case el d of Some eng \<Rightarrow> GetDocLength eng d | None \<Rightarrow> 0) = GetDocLength e d"
    if "d \<in> docsOf (filterPostings M m)" for d
  proof -
    have "d \<in> docsOf m" using that by (simp add: docsOf_filterPostings)
    then obtain t where "t \<in> T" "d \<in> DocID ` set (postingsOf e t)"
      unfolding holds_docsOf [OF h] T_def by auto
    then have "d \<in> DocID ` set (allShardPostings shards t)" using sets by simp
    then obtain s where "s \<in> set shards" "inShard T s d"
      using \<open>t \<in> T\<close> unfolding allShardPostings_def inShard_def by fastforce
    then obtain s' where s': "s' \<in> set shards" "inShard T s' d" "el d = Some (snd s')" using el by blast
    then show ?thesis using assms(5) by (auto simp: inShard_def)
  qed
  have "Rank (filterPostings M m') (execParams e) (\<lambda>d. case el d of Some eng \<Rightarrow> GetDocLength eng d | None \<Rightarrow> 0) limit =
      Rank (filterPostings M m) (execParams e) (GetDocLength e) limit"
    by (rule Rank_holds_cong [OF h h' _ info]) (use assms(4) in auto)
  then show ?thesis using ex ex' globalParams_single [OF assms(6-8)] by (simp add: MM)
qed

theorem shardedExecute_transparent_witness:
  "\<exists>r r'. Execute sampleEngine (Parse ''go'') 5 = Inr r \<and>
     shardedExecute [(0, sampleEngine\<lparr>memIndex := NewMemoryIndex, totalDocs := 0, totalTokens := 0\<rparr>), (1, sampleEngine)]
       (Parse ''go'') 5 = Inr r' \<and> Results r' = Results r"
proof -
  let ?e0 = "sampleEngine\<lparr>memIndex := NewMemoryIndex, totalDocs := 0, totalTokens := 0\<rparr>" and ?plan = "Parse ''go''"
  let ?shards = "[(0, ?e0), (1, sampleEngine)]"
  have p: "planTerms ?plan = [''go'']" "ExcludeTerms ?plan = []" by code_simp+
  have len: "\<forall>t \<in> set (planTerms ?plan). int (length (postingsOf sampleEngine t)) < maxInt"
    unfolding p by code_simp
  have e0: "postingsOf ?e0 t = []" for t
    by (simp add: postingsOf_def Search_def searchTerm_def sampleEngine_def memSearch_empty NewMemoryIndex_def
        deduplicatePostings_def split: list.splits)
  have w: "\<forall>s \<in> set ?shards. wf_engine (snd s)"
    using wf_sampleEngine by (simp add: wf_engine_def sampleEngine_def wf_NewMemoryIndex)
  have "totalDocs sampleEngine = 1" "totalTokens sampleEngine = 2" by (simp_all add: sampleEngine_def)
  then show ?thesis
    using shardedExecute_transparent [OF wf_sampleEngine w len, of 5] e0
    by (auto simp: p allShardPostings_def)
qed

end
