(* ===== verification/App_Errors.thy ===== *)
theory App_Errors
  imports Prelude
begin

text \<open>
  \<open>pkg/errors/errors.go\<close>: sentinel errors, \<open>AppError\<close> and the mapping of errors to HTTP status codes. An
  error value is a chain: \<open>fmt.Errorf\<close> with \<open>%w\<close> adds a \<open>Wrapped\<close> layer, an \<open>AppError\<close> unwraps to its
  sentinel, \<open>Plain\<close> is any other error.
\<close>

datatype sentinel =
  ErrDocumentNotFound | ErrDocumentExists | ErrShardUnavailable | ErrInvalidInput
| ErrIdempotencyConflict | ErrRateLimited | ErrUnauthorized | ErrInternal | ErrTimeout

datatype go_error =
  Sentinel sentinel
| AppError sentinel string int
| Wrapped string go_error
| Plain string

definition newAppError :: "sentinel \<Rightarrow> int \<Rightarrow> string \<Rightarrow> go_error" where
  "newAppError s statusCode message = AppError s message statusCode"

text \<open>\<open>errors.As\<close> for \<open>*AppError\<close> and \<open>errors.Is\<close>, along the chain.\<close>

fun asAppError :: "go_error \<Rightarrow> int option" where
  "asAppError (AppError s m c) = Some c"
| "asAppError (Wrapped m e) = asAppError e"
| "asAppError (Sentinel s) = None"
| "asAppError (Plain m) = None"

fun isErr :: "go_error \<Rightarrow> sentinel \<Rightarrow> bool" where
  "isErr (Sentinel s) t = (s = t)"
| "isErr (AppError s m c) t = (s = t)"
| "isErr (Wrapped m e) t = isErr e t"
| "isErr (Plain m) t = False"

definition HTTPStatusCode :: "go_error \<Rightarrow> int" where
  "HTTPStatusCode err =
     (case asAppError err of
        Some c \<Rightarrow> c
      | None \<Rightarrow>
          (if isErr err ErrDocumentNotFound then 404
           else if isErr err ErrDocumentExists \<or> isErr err ErrIdempotencyConflict then 409
           else if isErr err ErrInvalidInput then 400
           else if isErr err ErrRateLimited then 429
           else if isErr err ErrUnauthorized then 401
           else if isErr err ErrShardUnavailable \<or> isErr err ErrTimeout then 503
           else 500))"

lemma HTTPStatusCode_Wrapped [simp]: "HTTPStatusCode (Wrapped m e) = HTTPStatusCode e"
  by (simp add: HTTPStatusCode_def)

lemma HTTPStatusCode_AppError [simp]: "HTTPStatusCode (newAppError s c m) = c"
  by (simp add: HTTPStatusCode_def newAppError_def)

lemma HTTPStatusCode_Plain [simp]: "HTTPStatusCode (Plain m) = 500"
  by (simp add: HTTPStatusCode_def)

end
