(* ===== verification/Ingestion.thy ===== *)
theory Ingestion
  imports Hashing App_Errors
begin

text \<open>
  \<open>internal/ingestion\<close>: request validation, the publisher and the HTTP handler. PostgreSQL and Kafka
  are parameters: \<open>findRow\<close> and \<open>insertRow\<close> are the two statements on the table \<open>documents\<close>, \<open>publish\<close> the
  producer. The locale \<open>documents_db\<close> states what the publisher relies on (the UNIQUE constraint of the
  schema in \<open>migrations/postgres\<close>); a table kept as a list of rows is its instance.
\<close>

record IngestRequest =
  reqTitle :: string
  reqBody :: string
  IdempotencyKey :: string

record IngestResponse =
  respDocumentID :: string
  Status :: string
  respShardID :: int

record IngestEvent =
  evDocumentID :: string
  evTitle :: string
  evBody :: string
  evShardID :: int
  IngestedAt :: int

section \<open>Validation\<close>

definition maxTitleLength :: nat where "maxTitleLength = 1024"
definition maxBodyLength :: nat where "maxBodyLength = 1048576"
definition minBodyLength :: nat where "minBodyLength = 1"

text \<open>The field errors; \<open>None\<close> when there are none.\<close>

definition ValidateIngestRequest :: "IngestRequest \<Rightarrow> (string \<times> string) list option" where
  "ValidateIngestRequest req =
     (let title = TrimSpace (reqTitle req);
          errs1 = (if title = [] then [(''title'', ''title is required'')]
                   else if maxTitleLength < length title
                   then [(''title'', ''title must be at most '' @ show_nat maxTitleLength @ '' characters'')]
                   else []);
          body = TrimSpace (reqBody req);
          errs2 = (if length body < minBodyLength
                   then errs1 @ [(''body'', ''Body is requred and must not be empty'')]
                   else if maxBodyLength < length body
                   then errs1 @ [(''body'', ''body must be at most '' @ show_nat maxBodyLength @ '' characters'')]
                   else errs1);
          errs3 = (if IdempotencyKey req \<noteq> [] \<and> 255 < length (IdempotencyKey req)
                   then errs2 @ [(''idempotency_key'', ''idempotency key must be at most 255 characters'')]
                   else errs2)
      in if errs3 \<noteq> [] then Some errs3 else None)"

section \<open>Publishing\<close>

definition totalShards :: int where "totalShards = 8"

text \<open>The modulus 0 would panic (\<open>None\<close>).\<close>

definition assignShard :: "string \<Rightarrow> int \<Rightarrow> int option" where
  "assignShard contentHash numShards =
     (let hash = foldl (\<lambda>h c. push_bit 8 h OR word_of_nat (of_char c)) (0 :: 64 word) (take 8 contentHash)
      in if (word_of_int numShards :: 64 word) = 0 then None else Some (sint (hash mod word_of_int numShards)))"

record docRow =
  rowTitle :: string
  contentHash :: string
  contentSize :: int
  rowShard :: int
  rowKey :: "string option"

datatype db_find = FoundRow IngestResponse | FindNoRows | FindError string

datatype db_insert = Inserted string | InsertNoRows | InsertError string

definition nullableString :: "string \<Rightarrow> string option" where
  "nullableString s = (if s = [] then None else Some s)"

definition findByIdempotencyKey ::
  "('d \<Rightarrow> string \<Rightarrow> db_find) \<Rightarrow> 'd \<Rightarrow> string \<Rightarrow> go_error + IngestResponse option" where
  "findByIdempotencyKey findRow d key =
     (case findRow d key of
        FindNoRows \<Rightarrow> Inr None
      | FindError m \<Rightarrow> Inl (Wrapped ''querying by idempotency key'' (Plain m))
      | FoundRow resp \<Rightarrow> Inr (Some resp))"

text \<open>
  \<open>Ingest\<close>. The transaction is rolled back when the insert fails, so the database is then unchanged.
  \<open>now\<close> is the time of the event.
\<close>

definition Ingest ::
  "('d \<Rightarrow> string \<Rightarrow> db_find) \<Rightarrow> ('d \<Rightarrow> docRow \<Rightarrow> db_insert \<times> 'd) \<Rightarrow>
   ('k \<Rightarrow> string \<Rightarrow> IngestEvent \<Rightarrow> bool \<times> 'k) \<Rightarrow> int \<Rightarrow> IngestRequest \<Rightarrow> 'd \<Rightarrow> 'k \<Rightarrow>
   (go_error + IngestResponse) \<times> 'd \<times> 'k" where
  "Ingest findRow insertRow publish now req d k =
     (let hash = hexString (Sum256 (reqBody req));
          proceed =
            (case assignShard hash totalShards of
               None \<Rightarrow> (Inl (Plain ''panic: integer divide by zero''), d, k)
             | Some shardID \<Rightarrow>
                 (case insertRow d \<lparr>rowTitle = reqTitle req, contentHash = hash, contentSize = int (length (reqBody req)),
                                 rowShard = shardID, rowKey = nullableString (IdempotencyKey req)\<rparr> of
                    (InsertNoRows, _) \<Rightarrow>
                      (Inl (Wrapped ''inserting document''
                         (newAppError ErrIdempotencyConflict 409 ''idempotency key already in use'')), d, k)
                  | (InsertError m, _) \<Rightarrow> (Inl (Wrapped ''inserting document'' (Plain m)), d, k)
                  | (Inserted docID, d') \<Rightarrow>
                      (case publish k (show_int shardID)
                              \<lparr>evDocumentID = docID, evTitle = reqTitle req, evBody = reqBody req,
                               evShardID = shardID, IngestedAt = now\<rparr> of
                         (_, k') \<Rightarrow>
                           (Inr \<lparr>respDocumentID = docID, Status = ''PENDING'', respShardID = shardID\<rparr>, d', k'))))
      in if IdempotencyKey req \<noteq> [] then
           (case findByIdempotencyKey findRow d (IdempotencyKey req) of
              Inl err \<Rightarrow> (Inl (Wrapped ''checking idempotency key'' err), d, k)
            | Inr (Some existing) \<Rightarrow> (Inr existing, d, k)
            | Inr None \<Rightarrow> proceed)
         else proceed)"

section \<open>The HTTP handler\<close>

datatype ingest_reply =
  BadJSON | ValidationFailed "(string \<times> string) list" | IngestFailed | Accepted IngestResponse

text \<open>\<open>decode\<close> is the JSON decoder on the request body; the result carries the status code.\<close>

definition handleIngest ::
  "('b \<Rightarrow> IngestRequest option) \<Rightarrow> ('d \<Rightarrow> string \<Rightarrow> db_find) \<Rightarrow> ('d \<Rightarrow> docRow \<Rightarrow> db_insert \<times> 'd) \<Rightarrow>
   ('k \<Rightarrow> string \<Rightarrow> IngestEvent \<Rightarrow> bool \<times> 'k) \<Rightarrow> int \<Rightarrow> 'b \<Rightarrow> 'd \<Rightarrow> 'k \<Rightarrow>
   (int \<times> ingest_reply) \<times> 'd \<times> 'k" where
  "handleIngest decode findRow insertRow publish now body d k =
     (case decode body of
        None \<Rightarrow> ((400, BadJSON), d, k)
      | Some req \<Rightarrow>
          (case ValidateIngestRequest req of
             Some fs \<Rightarrow> ((400, ValidationFailed fs), d, k)
           | None \<Rightarrow>
               (case Ingest findRow insertRow publish now req d k of
                  (Inl err, d', k') \<Rightarrow> ((HTTPStatusCode err, IngestFailed), d', k')
                | (Inr resp, d', k') \<Rightarrow> ((202, Accepted resp), d', k'))))"

section \<open>Shards\<close>

lemma shard_fold:
  "take_bit 3 (foldl (\<lambda>h c. push_bit 8 h OR word_of_nat (of_char c)) a (cs @ [c]) :: 64 word) =
   take_bit 3 (word_of_nat (of_char c))"
  by (simp add: take_bit_or take_bit_push_bit)

lemma assignShard_eighth:
  assumes "8 \<le> length h"
  shows "assignShard h totalShards = Some (int (of_char (h ! 7) mod 8))"
proof -
  let ?w = "foldl (\<lambda>x c. push_bit 8 x OR word_of_nat (of_char c)) (0 :: 64 word) (take 8 h)"
  have "take 8 h = take 7 h @ [h ! 7]" using assms by (simp add: take_Suc_conv_app_nth [of 7 h, simplified])
  then have "take_bit 3 ?w = take_bit 3 (word_of_nat (of_char (h ! 7)) :: 64 word)" by (simp only: shard_fold)
  then have m: "?w mod 8 = word_of_nat (of_char (h ! 7)) mod 8" by (simp add: take_bit_eq_mod)
  have "(word_of_nat n mod 8 :: 64 word) = word_of_nat (n mod 8)" for n
  proof -
    have "word_of_nat (take_bit 3 n) = (take_bit 3 (word_of_nat n) :: 64 word)" by (rule of_nat_take_bit)
    then show ?thesis by (simp add: take_bit_eq_mod)
  qed
  moreover have "sint (word_of_nat n :: 64 word) = int n" if "n < 8" for n
    using that by (simp add: sint_uint signed_take_bit_int_eq_self unsigned_of_nat take_bit_nat_eq_self)
  ultimately show ?thesis by (simp add: assignShard_def totalShards_def m Let_def)
qed

lemma length_contentHash [simp]: "length (hexString (Sum256 b)) = 64"
  by simp

definition bodyShard :: "string \<Rightarrow> int" where
  "bodyShard body = int (of_char (hexString (Sum256 body) ! 7) mod 8)"

lemma assignShard_body: "assignShard (hexString (Sum256 b)) totalShards = Some (bodyShard b)"
  using assignShard_eighth [of "hexString (Sum256 b)"] by (simp add: bodyShard_def)

lemma bodyShard_range: "0 \<le> bodyShard b \<and> bodyShard b < totalShards"
  by (simp add: bodyShard_def totalShards_def)

text \<open>What an accepted request that published anything published.\<close>

lemma Ingest_published:
  assumes "Ingest findRow insertRow publish now req d k = (Inr resp, d', k')" and "k' \<noteq> k"
  shows "\<exists>ok. publish k (show_int (respShardID resp))
      \<lparr>evDocumentID = respDocumentID resp, evTitle = reqTitle req, evBody = reqBody req,
       evShardID = respShardID resp, IngestedAt = now\<rparr> = (ok, k')"
    and "respShardID resp = bodyShard (reqBody req)"
  using assms
  by (auto simp: Ingest_def Let_def findByIdempotencyKey_def assignShard_body
      split: if_splits db_find.splits db_insert.splits prod.splits option.splits)

section \<open>The documents table\<close>

text \<open>
  What the publisher relies on: an inserted row with a key is found under it, as PENDING, and other
  keys are found as before; a key in use is not inserted again.
\<close>

locale documents_db =
  fixes findRow :: "'d \<Rightarrow> string \<Rightarrow> db_find"
    and insertRow :: "'d \<Rightarrow> docRow \<Rightarrow> db_insert \<times> 'd"
  assumes found_inserted: "insertRow d row = (Inserted docID, d') \<Longrightarrow> rowKey row = Some key \<Longrightarrow>
      findRow d' key = FoundRow \<lparr>respDocumentID = docID, Status = ''PENDING'', respShardID = rowShard row\<rparr>"
    and found_other: "insertRow d row = (Inserted docID, d') \<Longrightarrow> rowKey row \<noteq> Some key \<Longrightarrow> findRow d' key = findRow d key"
    and unique_key: "findRow d key = FoundRow r \<Longrightarrow> rowKey row = Some key \<Longrightarrow> insertRow d row \<noteq> (Inserted docID, d')"
begin

text \<open>A key that was accepted is answered from the table ever after.\<close>

lemma accepted_found:
  assumes "IdempotencyKey req \<noteq> []" and "Ingest findRow insertRow publish now req d k = (Inr resp, d', k')"
  shows "findRow d' (IdempotencyKey req) = FoundRow resp"
  using assms
  by (auto simp: Ingest_def Let_def findByIdempotencyKey_def assignShard_body nullableString_def
      split: db_find.splits db_insert.splits prod.splits dest!: found_inserted)

lemma other_found:
  assumes "IdempotencyKey req \<noteq> key" and "key \<noteq> []"
    and "Ingest findRow insertRow publish now req d k = (res, d', k')"
  shows "findRow d' key = findRow d key"
  using assms
  by (auto simp: Ingest_def Let_def findByIdempotencyKey_def assignShard_body nullableString_def
      split: if_splits db_find.splits db_insert.splits prod.splits dest!: found_other [where key = key])

end

lemma Ingest_existing:
  assumes "IdempotencyKey req \<noteq> []" and "findRow d (IdempotencyKey req) = FoundRow resp"
  shows "Ingest findRow insertRow publish now req d k = (Inr resp, d, k)"
  using assms by (simp add: Ingest_def Let_def findByIdempotencyKey_def)

text \<open>The table as a list of rows, newest first; the primary key counts the rows.\<close>

type_synonym documents = "docRow list"

definition tableID :: "documents \<Rightarrow> string" where
  "tableID rows = ''doc-'' @ show_nat (length rows)"

fun tableFind :: "documents \<Rightarrow> string \<Rightarrow> db_find" where
  "tableFind [] key = FindNoRows"
| "tableFind (row # rows) key =
     (if rowKey row = Some key
      then FoundRow \<lparr>respDocumentID = tableID rows, Status = ''PENDING'', respShardID = rowShard row\<rparr>
      else tableFind rows key)"

definition tableInsert :: "documents \<Rightarrow> docRow \<Rightarrow> db_insert \<times> documents" where
  "tableInsert rows row =
     (if rowKey row \<noteq> None \<and> rowKey row \<in> rowKey ` set rows then (InsertNoRows, rows)
      else (Inserted (tableID rows), row # rows))"

lemma tableFind_key: "tableFind rows key = FoundRow r \<Longrightarrow> Some key \<in> rowKey ` set rows"
  by (induction rows key rule: tableFind.induct) (auto split: if_splits)

interpretation table: documents_db tableFind tableInsert
proof
  show "tableInsert d row \<noteq> (Inserted docID, d')"
    if "tableFind d key = FoundRow r" "rowKey row = Some key" for d key r row docID d'
    using tableFind_key [OF that(1)] that(2) by (auto simp: tableInsert_def)
qed (auto simp: tableInsert_def split: if_splits)

section \<open>Properties\<close>

text \<open>
  Shard assignment: every document gets a shard between 0 and 7, the eighth digit of the
  content hash modulo 8 (its character code), so equal bodies share a shard and no other part of
  the hash, the title or the document ID matters.
\<close>

lemma assignShard_correct:
  "\<exists>s. assignShard (hexString (Sum256 body)) totalShards = Some s \<and> 0 \<le> s \<and> s < totalShards \<and>
     s = int (of_char (hexString (Sum256 body) ! 7) mod 8)"
  using assignShard_body [of body] bodyShard_range [of body] by (simp add: bodyShard_def)



lemma Validate_ok:
  "ValidateIngestRequest req = None \<longleftrightarrow>
     TrimSpace (reqTitle req) \<noteq> [] \<and> length (TrimSpace (reqTitle req)) \<le> 1024 \<and>
     TrimSpace (reqBody req) \<noteq> [] \<and> length (TrimSpace (reqBody req)) \<le> 1048576 \<and>
     length (IdempotencyKey req) \<le> 255"
  by (auto simp: ValidateIngestRequest_def Let_def maxTitleLength_def maxBodyLength_def minBodyLength_def)

lemma Ingest_error:
  "Ingest findRow insertRow publish now req d k = (Inl err, d', k') \<Longrightarrow>
   d' = d \<and> k' = k \<and> HTTPStatusCode err \<in> {409, 500}"
  by (auto simp: Ingest_def Let_def findByIdempotencyKey_def assignShard_body
      split: if_splits db_find.splits db_insert.splits prod.splits)



end
