(* ===== verification/Shard_Router.thy ===== *)
theory Shard_Router
  imports Engine Ingestion
begin

text \<open>
  \<open>internal/indexer/shard/router.go\<close> and \<open>internal/indexer/consumer/consumer.go\<close>: one engine per shard,
  each on its own directory, and the Kafka handlers that index ingest events. \<open>disks i\<close> is the
  directory of shard \<open>i\<close>; \<open>sys i\<close> the outcome of the system calls made on it. Engines are shared
  pointers in the program, so operations return the router with its engines updated.
\<close>

record Router =
  rtEngines :: "(int \<times> engine) list"
  numShards :: int

type_synonym disks = "int \<Rightarrow> dir"

record sysenv =
  envIO :: io
  envOpen :: open_fault
  envNano :: int
  envMkdir :: bool
  envReadDir :: "readdir_fault option"

datatype router_error = CreatingEngine int engine_error | UnknownShard int int

section \<open>The router\<close>

fun closeLoop :: "(int \<Rightarrow> sysenv) \<Rightarrow> disks \<Rightarrow> (int \<times> engine) list \<Rightarrow> (int \<times> engine) list \<times> disks" where
  "closeLoop sys disks [] = ([], disks)"
| "closeLoop sys disks ((i, e) # es) =
     (case Close (envIO (sys i)) (envOpen (sys i)) (envNano (sys i)) (disks i) e of
        (e', d') \<Rightarrow> (case closeLoop sys (disks(i := d')) es of (es', disks') \<Rightarrow> ((i, e') # es', disks')))"

definition closeAll :: "(int \<Rightarrow> sysenv) \<Rightarrow> disks \<Rightarrow> Router \<Rightarrow> Router \<times> disks" where
  "closeAll sys disks r = (case closeLoop sys disks (rtEngines r) of (es, disks') \<Rightarrow> (r\<lparr>rtEngines := es\<rparr>, disks'))"

fun newLoop ::
  "(int \<Rightarrow> sysenv) \<Rightarrow> int \<Rightarrow> disks \<Rightarrow> Router \<Rightarrow> int list \<Rightarrow> (router_error + Router) \<times> disks" where
  "newLoop sys segmentMaxSize disks r [] = (Inr r, disks)"
| "newLoop sys segmentMaxSize disks r (i # is) =
     (case NewEngine (envMkdir (sys i)) (envReadDir (sys i)) (envOpen (sys i)) segmentMaxSize (disks i) of
        Inl err \<Rightarrow> (Inl (CreatingEngine i err), snd (closeAll sys disks r))
      | Inr e \<Rightarrow> newLoop sys segmentMaxSize disks (r\<lparr>rtEngines := AList.update i e (rtEngines r)\<rparr>) is)"

definition NewRouter ::
  "(int \<Rightarrow> sysenv) \<Rightarrow> int \<Rightarrow> int \<Rightarrow> disks \<Rightarrow> (router_error + Router) \<times> disks" where
  "NewRouter sys segmentMaxSize n disks =
     newLoop sys segmentMaxSize disks \<lparr>rtEngines = [], numShards = n\<rparr> (map int [0..<nat n])"

definition Route :: "Router \<Rightarrow> int \<Rightarrow> router_error + engine" where
  "Route r shardID =
     (case map_of (rtEngines r) shardID of
        None \<Rightarrow> Inl (UnknownShard shardID (numShards r - 1))
      | Some e \<Rightarrow> Inr e)"

definition GetAllEngines :: "Router \<Rightarrow> (int \<times> engine) list" where
  "GetAllEngines r = rtEngines r"

definition NumShards :: "Router \<Rightarrow> int" where
  "NumShards r = numShards r"

fun flushAllLoop ::
  "(int \<Rightarrow> sysenv) \<Rightarrow> disks \<Rightarrow> engine_error option \<Rightarrow> (int \<times> engine) list \<Rightarrow>
   engine_error option \<times> (int \<times> engine) list \<times> disks" where
  "flushAllLoop sys disks firstErr [] = (firstErr, [], disks)"
| "flushAllLoop sys disks firstErr ((i, e) # es) =
     (case Flush (envIO (sys i)) (envOpen (sys i)) (envNano (sys i)) (disks i) e of
        (err, e', d') \<Rightarrow>
          (case flushAllLoop sys (disks(i := d')) (if firstErr = None then err else firstErr) es of
             (res, es', disks') \<Rightarrow> (res, (i, e') # es', disks')))"

definition FlushAll :: "(int \<Rightarrow> sysenv) \<Rightarrow> disks \<Rightarrow> Router \<Rightarrow> engine_error option \<times> Router \<times> disks" where
  "FlushAll sys disks r =
     (case flushAllLoop sys disks None (rtEngines r) of (err, es, disks') \<Rightarrow> (err, r\<lparr>rtEngines := es\<rparr>, disks'))"

fun reloadLoop ::
  "(int \<Rightarrow> sysenv) \<Rightarrow> disks \<Rightarrow> int \<Rightarrow> (int \<times> engine) list \<Rightarrow> engine_error + int \<times> (int \<times> engine) list" where
  "reloadLoop sys disks tot [] = Inr (tot, [])"
| "reloadLoop sys disks tot ((i, e) # es) =
     (case ReloadSegments (envReadDir (sys i)) (envOpen (sys i)) (disks i) e of
        Inl err \<Rightarrow> Inl err
      | Inr (n, e') \<Rightarrow>
          (case reloadLoop sys disks (tot + n) es of
             Inl err \<Rightarrow> Inl err
           | Inr (tot', es') \<Rightarrow> Inr (tot', (i, e') # es')))"

definition ReloadAll :: "(int \<Rightarrow> sysenv) \<Rightarrow> disks \<Rightarrow> Router \<Rightarrow> engine_error + int \<times> Router" where
  "ReloadAll sys disks r =
     (case reloadLoop sys disks 0 (rtEngines r) of
        Inl err \<Rightarrow> Inl err
      | Inr (tot, es) \<Rightarrow> Inr (tot, r\<lparr>rtEngines := es\<rparr>))"

section \<open>The consumer\<close>

datatype consume_error =
  RoutingShard int router_error | IndexingDocument string engine_error
| IndexingInShard string int engine_error | ConsumePanic

text \<open>\<open>setStatus\<close> is the UPDATE statement; \<open>None\<close> stands for a nil database handle.\<close>

definition updateDocStatus :: "('d \<Rightarrow> string \<Rightarrow> string \<Rightarrow> 'd) option \<Rightarrow> 'd \<Rightarrow> string \<Rightarrow> string \<Rightarrow> 'd" where
  "updateDocStatus setStatus d docID status =
     (case setStatus of None \<Rightarrow> d | Some upd \<Rightarrow> upd d docID status)"

definition HandleMessage ::
  "('b \<Rightarrow> IngestEvent option) \<Rightarrow> ('d \<Rightarrow> string \<Rightarrow> string \<Rightarrow> 'd) option \<Rightarrow> sysenv \<Rightarrow> 'b \<Rightarrow>
   dir \<Rightarrow> engine \<Rightarrow> 'd \<Rightarrow> consume_error option \<times> engine \<times> dir \<times> 'd" where
  "HandleMessage decode setStatus env value disk e d =
     (case decode value of
        None \<Rightarrow> (None, e, disk, d)
      | Some ev \<Rightarrow>
          (case IndexDocument (envIO env) (envOpen env) (envNano env) disk e (evDocumentID ev) (evTitle ev) (evBody ev) of
             (Some EnginePanic, e', disk') \<Rightarrow> (Some ConsumePanic, e', disk', d)
           | (Some err, e', disk') \<Rightarrow>
               (Some (IndexingDocument (evDocumentID ev) err), e', disk',
                updateDocStatus setStatus d (evDocumentID ev) ''FAILED'')
           | (None, e', disk') \<Rightarrow>
               (None, e', disk', updateDocStatus setStatus d (evDocumentID ev) ''INDEXED'')))"

definition HandleMessageSharded ::
  "('b \<Rightarrow> IngestEvent option) \<Rightarrow> ('d \<Rightarrow> string \<Rightarrow> string \<Rightarrow> 'd) option \<Rightarrow> (int \<Rightarrow> sysenv) \<Rightarrow> 'b \<Rightarrow>
   disks \<Rightarrow> Router \<Rightarrow> 'd \<Rightarrow> consume_error option \<times> Router \<times> disks \<times> 'd" where
  "HandleMessageSharded decode setStatus sys value disks r d =
     (case decode value of
        None \<Rightarrow> (None, r, disks, d)
      | Some ev \<Rightarrow>
          (case Route r (evShardID ev) of
             Inl err \<Rightarrow> (Some (RoutingShard (evShardID ev) err), r, disks, d)
           | Inr e \<Rightarrow>
               (let i = evShardID ev; env = sys i
                in case IndexDocument (envIO env) (envOpen env) (envNano env) (disks i) e
                          (evDocumentID ev) (evTitle ev) (evBody ev) of
                     (Some EnginePanic, e', disk') \<Rightarrow>
                       (Some ConsumePanic, r\<lparr>rtEngines := AList.update i e' (rtEngines r)\<rparr>, disks(i := disk'), d)
                   | (Some err, e', disk') \<Rightarrow>
                       (Some (IndexingInShard (evDocumentID ev) i err),
                        r\<lparr>rtEngines := AList.update i e' (rtEngines r)\<rparr>, disks(i := disk'),
                        updateDocStatus setStatus d (evDocumentID ev) ''FAILED'')
                   | (None, e', disk') \<Rightarrow>
                       (None, r\<lparr>rtEngines := AList.update i e' (rtEngines r)\<rparr>, disks(i := disk'),
                        updateDocStatus setStatus d (evDocumentID ev) ''INDEXED''))))"

section \<open>Shards are independent\<close>

text \<open>
  A router on shards \<open>0 \<dots> n - 1\<close>. The order of \<open>rtEngines\<close> is the order in which Go happens to
  iterate over the map; nothing is assumed of it.
\<close>

definition wf_router :: "int \<Rightarrow> Router \<Rightarrow> bool" where
  "wf_router n r \<longleftrightarrow> numShards r = n \<and> distinct (map fst (rtEngines r)) \<and> fst ` set (rtEngines r) = {0..<n} \<and>
     (\<forall>(i, e) \<in> set (rtEngines r). wf_engine e)"

definition shardEngine :: "Router \<Rightarrow> int \<Rightarrow> engine option" where
  "shardEngine r = map_of (rtEngines r)"

lemma Route_shardEngine:
  "Route r i = (case shardEngine r i of None \<Rightarrow> Inl (UnknownShard i (numShards r - 1)) | Some e \<Rightarrow> Inr e)"
  by (simp add: Route_def shardEngine_def)

lemma wf_router_shardEngine:
  assumes "wf_router n r"
  shows "shardEngine r i = None \<longleftrightarrow> \<not> (0 \<le> i \<and> i < n)"
    and "shardEngine r i = Some e \<Longrightarrow> wf_engine e"
  using assms by (auto simp: wf_router_def shardEngine_def map_of_eq_None_iff dest!: map_of_SomeD)

text \<open>The flush of one shard, and what the loop over the map amounts to.\<close>

definition flushShard :: "(int \<Rightarrow> sysenv) \<Rightarrow> disks \<Rightarrow> int \<Rightarrow> engine \<Rightarrow> engine_error option \<times> engine \<times> dir" where
  "flushShard sys disks i = Flush (envIO (sys i)) (envOpen (sys i)) (envNano (sys i)) (disks i)"

fun firstError :: "'e option list \<Rightarrow> 'e option" where
  "firstError [] = None"
| "firstError (x # xs) = (if x = None then firstError xs else x)"

lemma firstError_None: "firstError xs = None \<longleftrightarrow> set xs \<subseteq> {None}"
  by (induction xs) auto

lemma flushAllLoop_spec:
  "distinct (map fst es) \<Longrightarrow>
   flushAllLoop sys disks fe es =
     (if fe = None then firstError (map (\<lambda>(i, e). fst (flushShard sys disks i e)) es) else fe,
      map (\<lambda>(i, e). (i, fst (snd (flushShard sys disks i e)))) es,
      \<lambda>i. case map_of es i of None \<Rightarrow> disks i | Some e \<Rightarrow> snd (snd (flushShard sys disks i e)))"
proof (induction es arbitrary: disks fe)
  case (Cons x es)
  obtain i e where x: "x = (i, e)" by fastforce
  obtain ferr e1 d1 where f: "flushShard sys disks i e = (ferr, e1, d1)" by (metis prod_cases3)
  have i: "i \<notin> fst ` set es" and d: "distinct (map fst es)" using Cons.prems x by auto
  have same: "flushShard sys (disks(i := d1)) j ej = flushShard sys disks j ej" if "(j, ej) \<in> set es" for j ej
  proof -
    have "j \<noteq> i" using i that by force
    then show ?thesis by (simp add: flushShard_def)
  qed
  have maps: "map (\<lambda>(j, ej). fst (flushShard sys (disks(i := d1)) j ej)) es =
      map (\<lambda>(j, ej). fst (flushShard sys disks j ej)) es"
    "map (\<lambda>(j, ej). (j, fst (snd (flushShard sys (disks(i := d1)) j ej)))) es =
      map (\<lambda>(j, ej). (j, fst (snd (flushShard sys disks j ej)))) es"
    by (auto simp: same simp del: fun_upd_apply)
  have disk: "(case map_of es j of None \<Rightarrow> (disks(i := d1)) j
        | Some ej \<Rightarrow> snd (snd (flushShard sys (disks(i := d1)) j ej))) =
      (case map_of (x # es) j of None \<Rightarrow> disks j | Some ej \<Rightarrow> snd (snd (flushShard sys disks j ej)))" for j
  proof (cases "map_of es j")
    case None
    then show ?thesis using f by (simp add: x)
  next
    case (Some ej)
    note m = map_of_SomeD [OF Some]
    then have "j \<noteq> i" using i by force
    then show ?thesis using Some same [OF m] by (simp add: x)
  qed
  show ?case
    unfolding x flushAllLoop.simps flushShard_def [symmetric] f
    by (simp only: prod.case Cons.IH [OF d] maps disk) (auto simp: x f)
qed auto

lemma map_of_map_indexed: "map_of (map (\<lambda>(i, e). (i, f i e)) es) i = map_option (f i) (map_of es i)"
  by (induction es) auto

lemma FlushAll_spec:
  assumes "distinct (map fst (rtEngines r))" and "FlushAll sys disks r = (err, r', disks')"
  shows "numShards r' = numShards r" and "map fst (rtEngines r') = map fst (rtEngines r)"
    and "shardEngine r' i = map_option (\<lambda>e. fst (snd (flushShard sys disks i e))) (shardEngine r i)"
    and "disks' i = (case shardEngine r i of None \<Rightarrow> disks i | Some e \<Rightarrow> snd (snd (flushShard sys disks i e)))"
    and "err = None \<longleftrightarrow> (\<forall>(i, e) \<in> set (rtEngines r). fst (flushShard sys disks i e) = None)"
  using assms(2)
  by (auto simp: FlushAll_def flushAllLoop_spec [OF assms(1)] shardEngine_def map_of_map_indexed firstError_None image_subset_iff
      split: prod.splits)

text \<open>
  The engines of a well-formed router stay well-formed when each is replaced by a well-formed one.
\<close>

lemma wf_routerI:
  assumes "wf_router n r" and "numShards r' = numShards r" and "map fst (rtEngines r') = map fst (rtEngines r)"
    and "\<And>i e. shardEngine r' i = Some e \<Longrightarrow> wf_engine e"
  shows "wf_router n r'"
proof -
  have "wf_engine e" if "(i, e) \<in> set (rtEngines r')" for i e
    using that assms(1,3) by (intro assms(4) [of i]) (simp add: shardEngine_def wf_router_def)
  moreover have "fst ` set (rtEngines r') = fst ` set (rtEngines r)"
    using arg_cong [OF assms(3), of set] by simp
  ultimately show ?thesis using assms(1-3) by (auto simp: wf_router_def)
qed

lemma flushShard_correct:
  assumes "wf_engine e" and "mem_fits (memIndex e)" and "flushShard sys disks i e = (ferr, e', d')"
  shows "wf_engine e' \<and> (ferr = None \<longrightarrow> index (memIndex e') = []) \<and>
    (\<forall>q. \<exists>ps ps'. Search e q = Inr ps \<and> Search e' q = Inr ps' \<and> hits ps' = hits ps)"
proof (intro conjI allI impI)
  note fl = assms(1,2) assms(3) [unfolded flushShard_def]
  show w: "wf_engine e'" by (rule wf_engine_Flush [OF fl])
  show "\<exists>ps ps'. Search e q = Inr ps \<and> Search e' q = Inr ps' \<and> hits ps' = hits ps" for q
    by (rule Search_same_postings [OF fl(1) w set_allPostings_Flush [OF fl]])
  show "index (memIndex e') = []" if "ferr = None"
    by (rule Flush_None_empty [OF fl(1,2)]) (use fl(3) that in simp)
qed

section \<open>Creating a router\<close>

lemma newLoop_ok:
  assumes "newLoop sys mx disks r is = (Inr r', disks')"
  shows "disks' = disks" and "numShards r' = numShards r"
    and "distinct (map fst (rtEngines r)) \<Longrightarrow> distinct (map fst (rtEngines r'))"
    and "i \<in> set is \<Longrightarrow> \<exists>e. NewEngine (envMkdir (sys i)) (envReadDir (sys i)) (envOpen (sys i)) mx (disks i) = Inr e \<and>
      shardEngine r' i = Some e"
    and "i \<notin> set is \<Longrightarrow> shardEngine r' i = shardEngine r i"
proof -
  have "disks' = disks \<and> numShards r' = numShards r \<and>
    (distinct (map fst (rtEngines r)) \<longrightarrow> distinct (map fst (rtEngines r'))) \<and>
    (\<forall>i. if i \<in> set is then \<exists>e. NewEngine (envMkdir (sys i)) (envReadDir (sys i)) (envOpen (sys i)) mx (disks i) = Inr e \<and>
      shardEngine r' i = Some e else shardEngine r' i = shardEngine r i)"
    using assms
    by (induction sys mx disks r "is" rule: newLoop.induct)
      (auto simp: shardEngine_def update_conv' distinct_update split: sum.splits if_splits)
  then show "disks' = disks" and "numShards r' = numShards r"
    and "distinct (map fst (rtEngines r)) \<Longrightarrow> distinct (map fst (rtEngines r'))"
    and "i \<in> set is \<Longrightarrow> \<exists>e. NewEngine (envMkdir (sys i)) (envReadDir (sys i)) (envOpen (sys i)) mx (disks i) = Inr e \<and>
      shardEngine r' i = Some e"
    and "i \<notin> set is \<Longrightarrow> shardEngine r' i = shardEngine r i" by auto
qed

text \<open>A router that was created has exactly the shards \<open>0 \<dots> n - 1\<close>, each the engine opened on its own directory.\<close>

lemma NewRouter_ok:
  assumes "NewRouter sys mx n disks = (Inr r, disks')" and "0 \<le> n"
  shows "disks' = disks" and "numShards r = n" and "distinct (map fst (rtEngines r))"
    and "fst ` set (rtEngines r) = {0..<n}"
    and "0 \<le> i \<and> i < n \<Longrightarrow> \<exists>e. NewEngine (envMkdir (sys i)) (envReadDir (sys i)) (envOpen (sys i)) mx (disks i) = Inr e \<and>
      shardEngine r i = Some e"
proof -
  note L = newLoop_ok [OF assms(1) [unfolded NewRouter_def], simplified]
  have "int ` {0..<nat n} = {0..<n}" using assms(2) by (simp add: image_int_atLeastLessThan)
  then have m: "x \<in> int ` {0..<nat n} \<longleftrightarrow> 0 \<le> x \<and> x < n" for x by auto
  have k: "fst ` set (rtEngines r) = dom (shardEngine r)" by (simp add: shardEngine_def dom_map_of_conv_image_fst)
  have "shardEngine r x \<noteq> None \<longleftrightarrow> 0 \<le> x \<and> x < n" for x
    using L(4,5) [of x] m [of x] by (auto simp: shardEngine_def)
  then have "x \<in> dom (shardEngine r) \<longleftrightarrow> x \<in> {0..<n}" for x by (simp only: domIff atLeastLessThan_iff)
  then show "fst ` set (rtEngines r) = {0..<n}" unfolding k by blast
  show "disks' = disks" "numShards r = n" "distinct (map fst (rtEngines r))" using L by simp_all
  show "\<exists>e. NewEngine (envMkdir (sys i)) (envReadDir (sys i)) (envOpen (sys i)) mx (disks i) = Inr e \<and>
      shardEngine r i = Some e" if "0 \<le> i \<and> i < n" using L(4) [of i] m [of i] that by simp
qed

section \<open>Indexing an event\<close>

lemma IndexDocument_found:
  assumes "wf_engine e" and "mem_fits (AddDocument (memIndex e) docID title body)"
    and "IndexDocument io flt nano d e docID title body = (err, e', d')"
    and "t \<in> set (termsOf title @ termsOf body)"
  shows "\<exists>ps. searchTerm e' t = Inr ps \<and> docID \<in> DocID ` set ps"
proof -
  note w = IndexDocument_postings(1) [OF assms(1-3)]
  have "doc_posting docID t (title @ '' '' @ body) \<in> set (allPostings e' t)"
    using allPostings_IndexDocument [OF assms(1-3), of t] assms(4) by auto
  then have "bestOf (allPostings e' t) docID \<noteq> None"
    unfolding bestOf_None by (force simp: doc_posting_def)
  then obtain p where p: "bestOf (allPostings e' t) docID = Some p" by blast
  then have "p \<in> set (postingsFor e' t) \<and> DocID p = docID"
    using bestOf_max [of "allPostings e' t" docID p] by (simp add: postingsFor_def deduplicatePostings_spec(2))
  then show ?thesis using searchTerm_wf [OF w] by blast
qed

text \<open>The engine never panics on its own segments: a panic can only come from the operating system.\<close>

lemma IndexDocument_no_panic:
  assumes "wf_engine e" and "mem_fits (AddDocument (memIndex e) docID title body)"
    and "IndexDocument io flt nano d e docID title body = (err, e', d')" and "\<And>name. flt name \<noteq> Some ErrPanic"
  shows "err \<noteq> Some EnginePanic"
proof -
  have m: "wf_mem (AddDocument (memIndex e) docID title body)"
    using assms(1) by (simp add: wf_engine_def wf_AddDocument)
  have opn: "tryOpen flt d1 name \<noteq> Inl ErrPanic"
    if "Write io nano d (Snapshot (AddDocument (memIndex e) docID title body)) = (Inr name, d1)" for name d1
    using OpenReader_Write [OF wf_entries_Snapshot [OF m assms(2)] that] assms(4) [of name]
    by (auto simp: tryOpen_def split: option.splits)
  have fl: "fst (Flush io flt nano d a) \<noteq> Some EnginePanic"
    if "memIndex a = AddDocument (memIndex e) docID title body" for a
  proof -
    obtain res d1 where w: "Write io nano d (Snapshot (AddDocument (memIndex e) docID title body)) = (res, d1)"
      by fastforce
    show ?thesis
    proof (cases res)
      case (Inr name)
      obtain x where x: "tryOpen flt d1 name = x" by blast
      with opn w Inr have "x \<noteq> Inl ErrPanic" by blast
      then show ?thesis using w Inr x
        by (cases x) (auto simp: Flush_def that Let_def split: seg_error.splits)
    qed (use w in \<open>simp add: Flush_def that Let_def\<close>)
  qed
  define e2 where "e2 = e\<lparr>docLengths := AList.update docID (int (length (Tokenize (title @ '' '' @ body)))) (docLengths e),
       totalDocs := totalDocs e + 1,
       totalTokens := totalTokens e + int (length (Tokenize (title @ '' '' @ body))),
       memIndex := AddDocument (memIndex e) docID title body\<rparr>"
  obtain ferr e3 d3 where f: "Flush io flt nano d e2 = (ferr, e3, d3)" by (metis prod_cases3)
  have "ferr \<noteq> Some EnginePanic" using fl [of e2] f by (simp add: e2_def)
  with f assms(3) show ?thesis
    unfolding e2_def by (auto simp: IndexDocument_def Let_def split: if_splits option.splits engine_error.splits)
qed

text \<open>
  What one routed event does: only the engine and the directory of its shard change, and the database
  row is marked with the outcome.
\<close>

lemma HandleMessageSharded_routed:
  assumes "decode value = Some ev" and "shardEngine r (evShardID ev) = Some e"
    and "IndexDocument (envIO (sys (evShardID ev))) (envOpen (sys (evShardID ev))) (envNano (sys (evShardID ev)))
      (disks (evShardID ev)) e (evDocumentID ev) (evTitle ev) (evBody ev) = (ierr, e', disk')"
    and "ierr \<noteq> Some EnginePanic"
  shows "HandleMessageSharded decode setStatus sys value disks r d =
    (map_option (IndexingInShard (evDocumentID ev) (evShardID ev)) ierr,
     r\<lparr>rtEngines := AList.update (evShardID ev) e' (rtEngines r)\<rparr>, disks(evShardID ev := disk'),
     updateDocStatus setStatus d (evDocumentID ev) (if ierr = None then ''INDEXED'' else ''FAILED''))"
  using assms
  by (cases ierr) (auto simp: HandleMessageSharded_def Route_shardEngine Let_def split: engine_error.splits)

lemma keys_update_old: "k \<in> set (map fst al) \<Longrightarrow> map fst (AList.update k v al) = map fst al"
  by (induction al) auto

lemma wf_router_update:
  assumes "wf_router n r" and "shardEngine r i = Some e" and "wf_engine e'"
  shows "wf_router n (r\<lparr>rtEngines := AList.update i e' (rtEngines r)\<rparr>)"
    and "shardEngine (r\<lparr>rtEngines := AList.update i e' (rtEngines r)\<rparr>) = (shardEngine r)(i \<mapsto> e')"
proof -
  show m: "shardEngine (r\<lparr>rtEngines := AList.update i e' (rtEngines r)\<rparr>) = (shardEngine r)(i \<mapsto> e')"
    by (simp add: shardEngine_def update_conv')
  have "i \<in> set (map fst (rtEngines r))"
    using map_of_SomeD [OF assms(2) [unfolded shardEngine_def]] by force
  from keys_update_old [OF this, of e'] show "wf_router n (r\<lparr>rtEngines := AList.update i e' (rtEngines r)\<rparr>)"
    by (intro wf_routerI [OF assms(1)])
      (use m assms(3) wf_router_shardEngine(2) [OF assms(1)] in \<open>auto split: if_splits\<close>)
qed

lemma HandleMessageSharded_event:
  assumes "wf_router n r" and "HandleMessageSharded decode setStatus sys value disks r d = (err, r', disks', d')"
    and "decode value = Some ev"
    and "\<forall>e. shardEngine r (evShardID ev) = Some e \<longrightarrow>
      mem_fits (AddDocument (memIndex e) (evDocumentID ev) (evTitle ev) (evBody ev))"
    and "\<forall>i name. envOpen (sys i) name \<noteq> Some ErrPanic"
  shows "if 0 \<le> evShardID ev \<and> evShardID ev < n
    then wf_router n r' \<and>
      (\<exists>e'. Route r' (evShardID ev) = Inr e' \<and>
        (\<forall>t \<in> set (termsOf (evTitle ev) @ termsOf (evBody ev)).
          \<exists>ps. searchTerm e' t = Inr ps \<and> evDocumentID ev \<in> DocID ` set ps)) \<and>
      (\<forall>i. i \<noteq> evShardID ev \<longrightarrow> Route r' i = Route r i \<and> disks' i = disks i) \<and>
      d' = updateDocStatus setStatus d (evDocumentID ev) (if err = None then ''INDEXED'' else ''FAILED'')
    else err = Some (RoutingShard (evShardID ev) (UnknownShard (evShardID ev) (n - 1))) \<and>
      r' = r \<and> disks' = disks \<and> d' = d"
proof (cases "shardEngine r (evShardID ev)")
  case None
  then have "\<not> (0 \<le> evShardID ev \<and> evShardID ev < n)" using wf_router_shardEngine(1) [OF assms(1)] by blast
  then show ?thesis
    unfolding if_not_P [OF \<open>\<not> (0 \<le> evShardID ev \<and> evShardID ev < n)\<close>]
    using None assms(1-3) by (simp add: HandleMessageSharded_def Route_shardEngine wf_router_def)
next
  case (Some e)
  then have range: "0 \<le> evShardID ev \<and> evShardID ev < n"
    using wf_router_shardEngine(1) [OF assms(1), of "evShardID ev"] by auto
  let ?env = "sys (evShardID ev)"
  obtain ierr e' disk' where i: "IndexDocument (envIO ?env) (envOpen ?env) (envNano ?env) (disks (evShardID ev)) e
      (evDocumentID ev) (evTitle ev) (evBody ev) = (ierr, e', disk')" by (metis prod_cases3)
  note e = wf_router_shardEngine(2) [OF assms(1) Some] assms(4) [rule_format, OF Some]
  have np: "ierr \<noteq> Some EnginePanic"
    by (rule IndexDocument_no_panic [OF e i]) (use assms(5) in blast)
  have H: "err = map_option (IndexingInShard (evDocumentID ev) (evShardID ev)) ierr"
    "r' = r\<lparr>rtEngines := AList.update (evShardID ev) e' (rtEngines r)\<rparr>" "disks' = disks(evShardID ev := disk')"
    "d' = updateDocStatus setStatus d (evDocumentID ev) (if ierr = None then ''INDEXED'' else ''FAILED'')"
    using HandleMessageSharded_routed [where decode = decode and sys = sys and disks = disks, OF assms(3) Some i np, of setStatus d]
      assms(2) by auto
  have w: "wf_engine e'" by (rule IndexDocument_postings(1) [OF e i])
  note U = wf_router_update [OF assms(1) Some w, folded H(2)]
  have "Route r' (evShardID ev) = Inr e'" by (simp add: Route_shardEngine U(2))
  moreover have "Route r' j = Route r j \<and> disks' j = disks j" if "j \<noteq> evShardID ev" for j
  proof -
    have "numShards r' = numShards r" unfolding H(2) by simp
    with that show ?thesis by (simp add: Route_shardEngine U(2) H(3) split: option.splits)
  qed
  ultimately show ?thesis
    unfolding if_P [OF range] using U(1) H(1,4) IndexDocument_found [OF e i] by auto
qed

section \<open>Properties\<close>

text \<open>
  Flushing all shards: whatever the disks do and in whatever order Go visits the map, every shard
  is flushed on its own directory, so that a failing shard does not stop the others; an error is
  returned exactly when some shard failed; every shard answers every query as before; the
  directories outside the router are not touched.
\<close>

theorem FlushAll_correct:
  assumes "wf_router n r" and "\<forall>i e. shardEngine r i = Some e \<longrightarrow> mem_fits (memIndex e)"
    and "FlushAll sys disks r = (err, r', disks')"
  shows "wf_router n r' \<and>
    (\<forall>i. 0 \<le> i \<and> i < n \<longrightarrow> (\<exists>e e' ferr. Route r i = Inr e \<and> Route r' i = Inr e' \<and>
       Flush (envIO (sys i)) (envOpen (sys i)) (envNano (sys i)) (disks i) e = (ferr, e', disks' i) \<and>
       (ferr = None \<longrightarrow> index (memIndex e') = []) \<and> (ferr \<noteq> None \<longrightarrow> err \<noteq> None) \<and>
       (\<forall>q. \<exists>ps ps'. Search e q = Inr ps \<and> Search e' q = Inr ps' \<and> hits ps' = hits ps))) \<and>
    (err \<noteq> None \<longrightarrow> (\<exists>i e. 0 \<le> i \<and> i < n \<and> Route r i = Inr e \<and>
       fst (Flush (envIO (sys i)) (envOpen (sys i)) (envNano (sys i)) (disks i) e) \<noteq> None)) \<and>
    (\<forall>i. \<not> (0 \<le> i \<and> i < n) \<longrightarrow> disks' i = disks i)"
proof -
  have dist: "distinct (map fst (rtEngines r))" using assms(1) by (simp add: wf_router_def)
  note F = FlushAll_spec [OF dist assms(3)]
  note R = wf_router_shardEngine [OF assms(1)]
  have err: "err = None \<longleftrightarrow> (\<forall>i e. shardEngine r i = Some e \<longrightarrow> fst (flushShard sys disks i e) = None)"
    using dist by (auto simp: F(5) shardEngine_def)
  have one: "\<exists>ferr. flushShard sys disks i e = (ferr, e', disks' i) \<and> wf_engine e' \<and>
      (ferr = None \<longrightarrow> index (memIndex e') = []) \<and> (ferr \<noteq> None \<longrightarrow> err \<noteq> None) \<and>
      (\<forall>q. \<exists>ps ps'. Search e q = Inr ps \<and> Search e' q = Inr ps' \<and> hits ps' = hits ps)"
    if e: "shardEngine r i = Some e" and e': "shardEngine r' i = Some e'" for i e e'
  proof -
    obtain ferr d' where f: "flushShard sys disks i e = (ferr, e', d')"
      using F(3) [of i] e e' by (metis option.map(2) option.inject prod.collapse)
    have "disks' i = d'" using F(4) [of i] e f by simp
    moreover have "err \<noteq> None" if "ferr \<noteq> None" using err e f that by fastforce
    ultimately show ?thesis using flushShard_correct [OF R(2) [OF e] assms(2) [rule_format, OF e] f] f by auto
  qed
  have dom: "shardEngine r' i = None \<longleftrightarrow> shardEngine r i = None" for i by (simp add: F(3))
  have "wf_router n r'"
    by (rule wf_routerI [OF assms(1) F(1,2)]) (use one dom in \<open>metis not_Some_eq\<close>)
  moreover have "\<exists>e e' ferr. Route r i = Inr e \<and> Route r' i = Inr e' \<and>
       Flush (envIO (sys i)) (envOpen (sys i)) (envNano (sys i)) (disks i) e = (ferr, e', disks' i) \<and>
       (ferr = None \<longrightarrow> index (memIndex e') = []) \<and> (ferr \<noteq> None \<longrightarrow> err \<noteq> None) \<and>
       (\<forall>q. \<exists>ps ps'. Search e q = Inr ps \<and> Search e' q = Inr ps' \<and> hits ps' = hits ps)"
    if "0 \<le> i \<and> i < n" for i
  proof -
    have "shardEngine r i \<noteq> None" using R(1) [of i] that by simp
    then obtain e where e: "shardEngine r i = Some e" by blast
    then obtain e' where e': "shardEngine r' i = Some e'" using dom [of i] by (cases "shardEngine r' i") auto
    show ?thesis using one [OF e e'] e e' by (auto simp: Route_shardEngine flushShard_def)
  qed
  moreover have "\<exists>i e. 0 \<le> i \<and> i < n \<and> Route r i = Inr e \<and>
       fst (Flush (envIO (sys i)) (envOpen (sys i)) (envNano (sys i)) (disks i) e) \<noteq> None" if failed: "err \<noteq> None"
  proof -
    obtain i e where "shardEngine r i = Some e" "fst (flushShard sys disks i e) \<noteq> None" using err failed by blast
    then show ?thesis using R(1) [of i] by (auto simp: Route_shardEngine flushShard_def)
  qed
  moreover have "disks' i = disks i" if "\<not> (0 \<le> i \<and> i < n)" for i
    using F(4) [of i] R(1) [of i] that by (auto split: option.splits)
  ultimately show ?thesis by blast
qed

definition sampleRouter :: Router where
  "sampleRouter = \<lparr>rtEngines = [(0, sampleEngine), (1, sampleEngine)], numShards = 2\<rparr>"

definition calmSys :: "int \<Rightarrow> sysenv" where
  "calmSys i = \<lparr>envIO = (\<lambda>_. None), envOpen = (\<lambda>_. None), envNano = 17, envMkdir = True, envReadDir = None\<rparr>"

lemma wf_sampleRouter: "wf_router 2 sampleRouter"
  by (auto simp: wf_router_def sampleRouter_def wf_sampleEngine)

theorem FlushAll_correct_witness:
  "\<exists>r' disks' e ps. FlushAll calmSys (\<lambda>_. []) sampleRouter = (None, r', disks') \<and> wf_router 2 r' \<and>
     Route r' 1 = Inr e \<and> Search e ''Go'' = Inr ps \<and> hits ps = [(''d1'', 1)] \<and> index (memIndex e) = []"
proof -
  obtain err r' disks' where f: "FlushAll calmSys (\<lambda>_. []) sampleRouter = (err, r', disks')" by (metis prod_cases3)
  have m: "\<forall>i e. shardEngine sampleRouter i = Some e \<longrightarrow> mem_fits (memIndex e)"
    using mem_fits_sampleEngine by (auto simp: shardEngine_def sampleRouter_def split: if_splits)
  note F = FlushAll_correct [OF wf_sampleRouter m f]
  have r: "Route sampleRouter i = Inr e \<Longrightarrow> e = sampleEngine" for i e
    by (auto simp: Route_def sampleRouter_def split: if_splits)
  have ok: "fst (Flush (envIO (calmSys i)) (envOpen (calmSys i)) (envNano (calmSys i)) [] sampleEngine) = None" for i
    using Flush_sampleEngine [of 17] by (simp add: calmSys_def)
  have err: "err = None"
  proof (rule ccontr)
    assume "err \<noteq> None"
    with F obtain i e where "Route sampleRouter i = Inr e"
      "fst (Flush (envIO (calmSys i)) (envOpen (calmSys i)) (envNano (calmSys i)) [] e) \<noteq> None" by auto
    with ok r show False by metis
  qed
  have "0 \<le> (1 :: int) \<and> (1 :: int) < 2" by simp
  from F [THEN conjunct2, THEN conjunct1, rule_format, OF this] obtain e e' ferr where e: "Route sampleRouter 1 = Inr e" "Route r' 1 = Inr e'"
      "Flush (envIO (calmSys 1)) (envOpen (calmSys 1)) (envNano (calmSys 1)) [] e = (ferr, e', disks' 1)"
      "ferr = None \<longrightarrow> index (memIndex e') = []"
      "\<forall>q. \<exists>ps ps'. Search e q = Inr ps \<and> Search e' q = Inr ps' \<and> hits ps' = hits ps"
    by blast
  from e(1) have s: "e = sampleEngine" by (rule r)
  with e(3) ok [of 1] have "ferr = None" by simp
  moreover obtain ps where "Search e' ''Go'' = Inr ps"
      "hits ps = hits [\<lparr>DocID = ''d1'', Frequency = 1, Positions = [0]\<rparr>]"
    using e(5) Search_sampleEngine unfolding s by (metis Inr_inject)
  ultimately show ?thesis using F f err e by (auto simp: hits_def)
qed

text \<open>
  Indexing an ingest event: an event for shard \<open>0 \<dots> n - 1\<close> changes the engine and the directory of that
  shard only, the document is found there under each of its terms, and its row is marked INDEXED,
  or FAILED when the flush it caused failed; an event for any other shard, or one that cannot be
  decoded, changes nothing, and only the former is reported as an error.
\<close>

theorem HandleMessageSharded_correct:
  assumes "wf_router n r" and "HandleMessageSharded decode setStatus sys value disks r d = (err, r', disks', d')"
    and "\<forall>ev e. decode value = Some ev \<and> shardEngine r (evShardID ev) = Some e \<longrightarrow>
      mem_fits (AddDocument (memIndex e) (evDocumentID ev) (evTitle ev) (evBody ev))"
    and "\<forall>i name. envOpen (sys i) name \<noteq> Some ErrPanic"
  shows "case decode value of None \<Rightarrow> err = None \<and> r' = r \<and> disks' = disks \<and> d' = d
    | Some ev \<Rightarrow>
      (if 0 \<le> evShardID ev \<and> evShardID ev < n
       then wf_router n r' \<and>
         (\<exists>e'. Route r' (evShardID ev) = Inr e' \<and>
           (\<forall>t \<in> set (termsOf (evTitle ev) @ termsOf (evBody ev)).
             \<exists>ps. searchTerm e' t = Inr ps \<and> evDocumentID ev \<in> DocID ` set ps)) \<and>
         (\<forall>i. i \<noteq> evShardID ev \<longrightarrow> Route r' i = Route r i \<and> disks' i = disks i) \<and>
         d' = updateDocStatus setStatus d (evDocumentID ev) (if err = None then ''INDEXED'' else ''FAILED'')
       else err = Some (RoutingShard (evShardID ev) (UnknownShard (evShardID ev) (n - 1))) \<and>
         r' = r \<and> disks' = disks \<and> d' = d)"
proof (cases "decode value")
  case None
  then show ?thesis using assms(2) by (simp add: HandleMessageSharded_def)
next
  case (Some ev)
  then show ?thesis
    using HandleMessageSharded_event [OF assms(1,2) Some _ assms(4)] assms(3) by simp
qed

definition sampleEvent :: IngestEvent where
  "sampleEvent = \<lparr>evDocumentID = ''d2'', evTitle = ''Go'', evBody = ''tour'', evShardID = 1, IngestedAt = 0\<rparr>"

lemma mem_fits_sampleEvent: "mem_fits (AddDocument (memIndex sampleEngine) ''d2'' ''Go'' ''tour'')"
proof -
  have "int64_entries (Snapshot (AddDocument (memIndex sampleEngine) ''d2'' ''Go'' ''tour''))" by code_simp
  moreover have "length (postingsImage (Snapshot (AddDocument (memIndex sampleEngine) ''d2'' ''Go'' ''tour''))) < 400"
    "length (dictImage (Snapshot (AddDocument (memIndex sampleEngine) ''d2'' ''Go'' ''tour''))) < 400"
    by code_simp+
  ultimately show ?thesis by (simp add: mem_fits_def segment_fits_iff)
qed

theorem HandleMessageSharded_correct_witness:
  "\<exists>err r' disks' d' e' ps. HandleMessageSharded Some (None :: (unit \<Rightarrow> string \<Rightarrow> string \<Rightarrow> unit) option) calmSys sampleEvent
     (\<lambda>_. []) sampleRouter () = (err, r', disks', d') \<and>
     Route r' 1 = Inr e' \<and> searchTerm e' ''tour'' = Inr ps \<and> ''d2'' \<in> DocID ` set ps"
proof -
  obtain err r' disks' d' where h: "HandleMessageSharded Some (None :: (unit \<Rightarrow> string \<Rightarrow> string \<Rightarrow> unit) option) calmSys
      sampleEvent (\<lambda>_. []) sampleRouter () = (err, r', disks', d')" by (metis prod_cases4)
  have ev: "evShardID sampleEvent = 1" "evDocumentID sampleEvent = ''d2''" "evTitle sampleEvent = ''Go''"
    "evBody sampleEvent = ''tour''" by (simp_all add: sampleEvent_def)
  have m: "\<forall>ev e. Some sampleEvent = Some ev \<and> shardEngine sampleRouter (evShardID ev) = Some e \<longrightarrow>
      mem_fits (AddDocument (memIndex e) (evDocumentID ev) (evTitle ev) (evBody ev))"
    using mem_fits_sampleEvent by (auto simp: shardEngine_def sampleRouter_def ev)
  have t: "''tour'' \<in> set (termsOf ''Go'' @ termsOf ''tour'')" by code_simp
  have calm: "\<forall>i name. envOpen (calmSys i) name \<noteq> Some ErrPanic" by (simp add: calmSys_def)
  have "\<exists>e'. Route r' 1 = Inr e' \<and> (\<forall>t \<in> set (termsOf ''Go'' @ termsOf ''tour'').
      \<exists>ps. searchTerm e' t = Inr ps \<and> ''d2'' \<in> DocID ` set ps)"
    using HandleMessageSharded_correct [where decode = Some, OF wf_sampleRouter h m calm]
    by (simp only: option.case ev) simp
  with h t show ?thesis by blast
qed

text \<open>A router on eight empty directories.\<close>

definition freshEngine :: engine where
  "freshEngine = \<lparr>memIndex = NewMemoryIndex, readers = [], SegmentMaxSize = 4096, docLengths = [], totalDocs = 0, totalTokens = 0\<rparr>"

lemma NewEngine_fresh: "NewEngine True None (\<lambda>_. None) 4096 [] = Inr freshEngine"
  by (simp add: NewEngine_def loadExistingSegments_def freshEngine_def ReadDir_def Let_def)

lemma NewRouter_fresh:
  "\<exists>r. NewRouter calmSys 4096 totalShards (\<lambda>_. []) = (Inr r, \<lambda>_. []) \<and> wf_router totalShards r \<and>
     (\<forall>i e. shardEngine r i = Some e \<longrightarrow> e = freshEngine)"
proof -
  have ok: "\<exists>r'. newLoop calmSys 4096 (\<lambda>_. []) r is = (Inr r', \<lambda>_. [])" for r "is"
    by (induction "is" arbitrary: r) (auto simp: calmSys_def NewEngine_fresh)
  then obtain r where r: "NewRouter calmSys 4096 totalShards (\<lambda>_. []) = (Inr r, \<lambda>_. [])"
    by (auto simp: NewRouter_def)
  note N = NewRouter_ok [OF r]
  have e: "e = freshEngine" if "shardEngine r i = Some e" for i e
  proof -
    have "i \<in> {0..<totalShards}" using that N(4) by (force simp: totalShards_def shardEngine_def dest: map_of_SomeD)
    then show ?thesis using N(5) [of i] that by (simp add: totalShards_def calmSys_def NewEngine_fresh)
  qed
  have "wf_engine e" if "(i, e) \<in> set (rtEngines r)" for i e
    using e [of i e] that N(3) by (simp add: totalShards_def shardEngine_def wf_engine_def freshEngine_def wf_NewMemoryIndex)
  then have "wf_router totalShards r" using N by (auto simp: wf_router_def totalShards_def)
  with r e show ?thesis by blast
qed

end
