(* ===== verification/Messaging.thy ===== *)
theory Messaging
  imports Prelude "HOL-Library.Sublist"
begin

text \<open>
  \<open>pkg/kafka\<close> and the transaction helper of \<open>pkg/postgres\<close>: the producer, the consumer loop and
  \<open>InTx\<close>. The client libraries are parameters. The locale \<open>kafka_reader\<close> states what the consumer loop relies on of a
  group reader: per partition it hands out the log in order, and a commit records the offset after
  the message. A log kept in memory is its instance.
\<close>

section \<open>The producer\<close>

record 'v Event =
  Key :: string
  Value :: 'v

datatype producer_error = MarshalingEvent | PublishingToKafka string | PublishingBatch string

text \<open>\<open>write\<close> is \<open>WriteMessages\<close>, which returns an error or \<open>None\<close>.\<close>

definition Publish ::
  "('v \<Rightarrow> string option) \<Rightarrow> ('k \<Rightarrow> (string \<times> string) list \<Rightarrow> string option \<times> 'k) \<Rightarrow> 'v Event \<Rightarrow> 'k \<Rightarrow>
   producer_error option \<times> 'k" where
  "Publish marshal write event k =
     (case marshal (Value event) of
        None \<Rightarrow> (Some MarshalingEvent, k)
      | Some v \<Rightarrow>
          (case write k [(Key event, v)] of
             (Some err, k') \<Rightarrow> (Some (PublishingToKafka err), k')
           | (None, k') \<Rightarrow> (None, k')))"

fun marshalLoop :: "('v \<Rightarrow> string option) \<Rightarrow> (string \<times> string) list \<Rightarrow> 'v Event list \<Rightarrow> (string \<times> string) list option" where
  "marshalLoop marshal messages [] = Some messages"
| "marshalLoop marshal messages (event # events) =
     (case marshal (Value event) of
        None \<Rightarrow> None
      | Some v \<Rightarrow> marshalLoop marshal (messages @ [(Key event, v)]) events)"

definition PublishBatch ::
  "('v \<Rightarrow> string option) \<Rightarrow> ('k \<Rightarrow> (string \<times> string) list \<Rightarrow> string option \<times> 'k) \<Rightarrow> 'v Event list \<Rightarrow> 'k \<Rightarrow>
   producer_error option \<times> 'k" where
  "PublishBatch marshal write events k =
     (case marshalLoop marshal [] events of
        None \<Rightarrow> (Some MarshalingEvent, k)
      | Some messages \<Rightarrow>
          (case write k messages of
             (Some err, k') \<Rightarrow> (Some (PublishingBatch err), k')
           | (None, k') \<Rightarrow> (None, k')))"

text \<open>A batch is written as a whole, in order, or, when one value cannot be encoded, not at all.\<close>

lemma marshalLoop_alt:
  "marshalLoop marshal ms evs =
     (if \<forall>ev \<in> set evs. marshal (Value ev) \<noteq> None
      then Some (ms @ map (\<lambda>ev. (Key ev, the (marshal (Value ev)))) evs) else None)"
  by (induction marshal ms evs rule: marshalLoop.induct) (auto split: option.splits)

lemma PublishBatch_all_or_nothing:
  "snd (PublishBatch marshal write evs k) =
     (if \<forall>ev \<in> set evs. marshal (Value ev) \<noteq> None
      then snd (write k (map (\<lambda>ev. (Key ev, the (marshal (Value ev)))) evs)) else k)"
  by (auto simp: PublishBatch_def marshalLoop_alt split: prod.splits option.splits)

lemma PublishBatch_single:
  "PublishBatch marshal write [ev] k =
     (case Publish marshal write ev k of
        (Some (PublishingToKafka err), k') \<Rightarrow> (Some (PublishingBatch err), k') | res \<Rightarrow> res)"
  by (auto simp: PublishBatch_def Publish_def split: option.splits prod.splits)

section \<open>The consumer\<close>

record message =
  Partition :: int
  Offset :: nat
  msgKey :: string
  msgValue :: string

record 'r reader_ops =
  FetchMessage :: "'r \<Rightarrow> message option \<times> 'r"
  CommitMessages :: "message \<Rightarrow> 'r \<Rightarrow> bool \<times> 'r"
  readerClose :: "'r \<Rightarrow> string option"

text \<open>
  \<open>Start\<close>. One element of the list for each iteration: whether the context is done at the \<open>select\<close>, and
  whether it is after a failed fetch. The loop has no bound of its own: it is still running at the end of the list.
  The handler returns an error or \<open>None\<close>.
\<close>

datatype consumer_outcome = StillRunning | Returned "string option"

fun consumerStart ::
  "'r reader_ops \<Rightarrow> (string \<Rightarrow> string \<Rightarrow> 's \<Rightarrow> 'e option \<times> 's) \<Rightarrow> (bool \<times> bool) list \<Rightarrow> 'r \<Rightarrow> 's \<Rightarrow>
   consumer_outcome \<times> 'r \<times> 's" where
  "consumerStart ops handler [] r s = (StillRunning, r, s)"
| "consumerStart ops handler ((ctxDone, ctxErr) # ctxs) r s =
     (if ctxDone then (Returned (readerClose ops r), r, s)
      else
        (case FetchMessage ops r of
           (None, r1) \<Rightarrow>
             (if ctxErr then (Returned None, r1, s) else consumerStart ops handler ctxs r1 s)
         | (Some msg, r1) \<Rightarrow>
             (case handler (msgKey msg) (msgValue msg) s of
                (Some err, s1) \<Rightarrow> consumerStart ops handler ctxs r1 s1
              | (None, s1) \<Rightarrow>
                  (case CommitMessages ops msg r1 of (_, r2) \<Rightarrow> consumerStart ops handler ctxs r2 s1))))"

text \<open>The messages handled, in order: each exactly once.\<close>

definition handleAll :: "(string \<Rightarrow> string \<Rightarrow> 's \<Rightarrow> 'e option \<times> 's) \<Rightarrow> message list \<Rightarrow> 's \<Rightarrow> 's" where
  "handleAll handler msgs s = fold (\<lambda>m s. snd (handler (msgKey m) (msgValue m) s)) msgs s"

definition ofPartition :: "int \<Rightarrow> message list \<Rightarrow> message list" where
  "ofPartition p = filter (\<lambda>m. Partition m = p)"

text \<open>
  From \<open>r\<close> to \<open>r'\<close> the reader handed out \<open>msgs\<close>: per partition these are the messages of the log between the two positions,
  and the committed offset does not go back, nor beyond the position.
\<close>

definition advanced ::
  "('r \<Rightarrow> int \<Rightarrow> message list) \<Rightarrow> ('r \<Rightarrow> int \<Rightarrow> nat) \<Rightarrow> ('r \<Rightarrow> int \<Rightarrow> nat) \<Rightarrow> 'r \<Rightarrow> 'r \<Rightarrow> message list \<Rightarrow> bool" where
  "advanced plog pos committed r r' msgs \<longleftrightarrow> (\<forall>p. pos r p \<le> pos r' p \<and> prefix (plog r p) (plog r' p) \<and>
     committed r p \<le> committed r' p \<and> committed r' p \<le> max (committed r p) (pos r' p) \<and>
     ofPartition p msgs = drop (pos r p) (take (pos r' p) (plog r' p)) \<and> (pos r' p \<le> length (plog r' p) \<or> pos r' p = pos r p))"

locale kafka_reader =
  fixes ops :: "'r reader_ops" and plog :: "'r \<Rightarrow> int \<Rightarrow> message list"
    and pos :: "'r \<Rightarrow> int \<Rightarrow> nat" and committed :: "'r \<Rightarrow> int \<Rightarrow> nat"
  assumes fetch_some: "FetchMessage ops r = (Some m, r') \<Longrightarrow>
      pos r (Partition m) < length (plog r' (Partition m)) \<and> m = plog r' (Partition m) ! pos r (Partition m) \<and>
      Offset m = pos r (Partition m) \<and> pos r' = (pos r)(Partition m := pos r (Partition m) + 1)"
    and fetch_none: "FetchMessage ops r = (None, r') \<Longrightarrow> pos r' = pos r"
    and fetch_keeps: "FetchMessage ops r = (res, r') \<Longrightarrow> committed r' = committed r \<and> prefix (plog r p) (plog r' p)"
    and commit: "CommitMessages ops m r = (ok, r') \<Longrightarrow>
      pos r' = pos r \<and> prefix (plog r p) (plog r' p) \<and>
      committed r' = (if ok then (committed r)(Partition m := max (committed r (Partition m)) (Offset m + 1)) else committed r)"
begin

lemma advanced_Cons:
  assumes "FetchMessage ops r = (Some m, r1)" and "r2 = r1 \<or> CommitMessages ops m r1 = (ok, r2)"
    and "advanced plog pos committed r2 r' msgs"
  shows "advanced plog pos committed r r' (m # msgs)"
  unfolding advanced_def
proof
  fix p
  note F = fetch_some [OF assms(1)] and K = fetch_keeps [OF assms(1), of p]
  have C: "pos r2 = pos r1" "prefix (plog r1 p) (plog r2 p)" "committed r1 p \<le> committed r2 p"
    "committed r2 p \<le> max (committed r1 p) (pos r2 p)"
    using assms(2) commit [of m r1 ok r2 p] F by (auto split: if_splits)
  note A = assms(3) [unfolded advanced_def, rule_format, of p]
  have pre: "prefix (plog r1 p) (plog r' p)" using C(2) A prefix_order.trans by blast
  then have nth: "plog r' p ! i = plog r1 p ! i" and len: "length (plog r1 p) \<le> length (plog r' p)"
    if "i < length (plog r1 p)" for i
    using that by (auto simp: prefix_def nth_append)
  have "ofPartition p (m # msgs) = drop (pos r p) (take (pos r' p) (plog r' p))"
  proof (cases "Partition m = p")
    case True
    have lt: "pos r p < length (plog r1 p)" using F True by auto
    have "pos r2 p = Suc (pos r p)" using F C(1) True by auto
    moreover have "m = plog r' p ! pos r p" using F True nth [OF lt] by auto
    ultimately show ?thesis
      using A lt len [OF lt] True by (simp add: ofPartition_def Cons_nth_drop_Suc [symmetric])
  next
    case False
    then show ?thesis using A F C(1) by (simp add: ofPartition_def)
  qed
  moreover have "prefix (plog r p) (plog r' p)" using K pre prefix_order.trans by blast
  moreover have "pos r' p \<le> length (plog r' p) \<or> pos r' p = pos r p"
  proof (cases "Partition m = p")
    case True
    have "pos r p < length (plog r1 p)" using F True by auto
    then have "pos r p < length (plog r' p)" using len less_le_trans by blast
    then show ?thesis using A F C(1) True by auto
  qed (use A F C(1) in auto)
  moreover have "pos r p \<le> pos r2 p" using F C(1) by auto
  ultimately show "pos r p \<le> pos r' p \<and> prefix (plog r p) (plog r' p) \<and>
     committed r p \<le> committed r' p \<and> committed r' p \<le> max (committed r p) (pos r' p) \<and>
     ofPartition p (m # msgs) = drop (pos r p) (take (pos r' p) (plog r' p)) \<and>
     (pos r' p \<le> length (plog r' p) \<or> pos r' p = pos r p)"
    using A C K by (auto simp: le_max_iff_disj)
qed

lemma advanced_refl: "pos r' = pos r \<Longrightarrow> committed r' = committed r \<Longrightarrow> \<forall>p. prefix (plog r p) (plog r' p) \<Longrightarrow> advanced plog pos committed r r' []"
  by (auto simp: advanced_def ofPartition_def)

lemma advanced_fetch_none:
  assumes "FetchMessage ops r = (None, r1)" and "advanced plog pos committed r1 r' msgs"
  shows "advanced plog pos committed r r' msgs"
  using assms(2) fetch_none [OF assms(1)] fetch_keeps [OF assms(1)]
  by (auto simp: advanced_def intro: prefix_order.trans)

lemma consumer_run:
  "consumerStart ops handler ctxs r s = (out, r', s') \<Longrightarrow>
    \<exists>msgs. advanced plog pos committed r r' msgs \<and> s' = handleAll handler msgs s"
proof (induction ctxs arbitrary: r s)
  case Nil
  then show ?case by (auto simp: handleAll_def intro!: exI [of _ "[]"] advanced_refl)
next
  case (Cons c ctxs)
  obtain d x where c: "c = (d, x)" by fastforce
  obtain res r1 where f: "FetchMessage ops r = (res, r1)" by fastforce
  consider (stop) "d" | (fail) "\<not> d" "res = None" | (msg) m where "\<not> d" "res = Some m" by blast
  then show ?case
  proof cases
    case stop
    then show ?thesis using Cons.prems by (auto simp: c handleAll_def intro!: exI [of _ "[]"] advanced_refl)
  next
    case fail
    note f' = f [unfolded fail]
    show ?thesis
    proof (cases x)
      case True
      then have "advanced plog pos committed r r' [] \<and> s' = s"
        using Cons.prems f' fail fetch_none [OF f'] fetch_keeps [OF f'] by (auto simp: c intro!: advanced_refl)
      then show ?thesis by (auto simp: handleAll_def)
    next
      case False
      then show ?thesis using Cons.prems f' fail Cons.IH advanced_fetch_none [OF f'] by (fastforce simp: c)
    qed
  next
    case (msg m)
    note f' = f [unfolded msg]
    obtain err s1 where h: "handler (msgKey m) (msgValue m) s = (err, s1)" by fastforce
    obtain ok r2 where k: "CommitMessages ops m r1 = (ok, r2)" by fastforce
    define r3 where "r3 = (if err = None then r2 else r1)"
    have "consumerStart ops handler ctxs r3 s1 = (out, r', s')"
      using Cons.prems msg f' h k by (auto simp: c r3_def split: option.splits)
    then obtain msgs where m: "advanced plog pos committed r3 r' msgs" "s' = handleAll handler msgs s1" using Cons.IH by blast
    have "r3 = r1 \<or> CommitMessages ops m r1 = (ok, r3)" using k by (auto simp: r3_def)
    from advanced_Cons [OF f' this m(1)] m(2) h show ?thesis
      by (intro exI [of _ "m # msgs"]) (simp add: handleAll_def)
  qed
qed

end

section \<open>A log in memory\<close>

record mem_reader =
  mrLog :: "int \<Rightarrow> (string \<times> string) list"
  mrPos :: "int \<Rightarrow> nat"
  mrCommitted :: "int \<Rightarrow> nat"

definition mrMessages :: "mem_reader \<Rightarrow> int \<Rightarrow> message list" where
  "mrMessages r p = map (\<lambda>(i, k, v). \<lparr>Partition = p, Offset = i, msgKey = k, msgValue = v\<rparr>) (enumerate 0 (mrLog r p))"

text \<open>The reader of the partitions \<open>ps\<close>, which serves the first partition that has messages left.\<close>

definition mrOps :: "int list \<Rightarrow> mem_reader reader_ops" where
  "mrOps ps = \<lparr>
     FetchMessage = (\<lambda>r. case filter (\<lambda>p. mrPos r p < length (mrLog r p)) ps of
        [] \<Rightarrow> (None, r)
      | p # _ \<Rightarrow> (Some (mrMessages r p ! mrPos r p), r\<lparr>mrPos := (mrPos r)(p := mrPos r p + 1)\<rparr>)),
     CommitMessages = (\<lambda>m r. (True, r\<lparr>mrCommitted := (mrCommitted r)
        (Partition m := max (mrCommitted r (Partition m)) (Offset m + 1))\<rparr>)),
     readerClose = (\<lambda>_. None)\<rparr>"

lemma nth_mrMessages:
  "i < length (mrLog r p) \<Longrightarrow> Partition (mrMessages r p ! i) = p \<and> Offset (mrMessages r p ! i) = i"
  by (simp add: mrMessages_def nth_enumerate_eq split: prod.splits)

lemma mrMessages_update: "mrMessages (r\<lparr>mrPos := x\<rparr>) = mrMessages r" "mrMessages (r\<lparr>mrCommitted := y\<rparr>) = mrMessages r"
  by (simp_all add: mrMessages_def fun_eq_iff)

lemma length_mrMessages [simp]: "length (mrMessages r p) = length (mrLog r p)"
  by (simp add: mrMessages_def)

interpretation memLog: kafka_reader "mrOps ps" mrMessages mrPos mrCommitted
proof
  fix r m r'
  assume "FetchMessage (mrOps ps) r = (Some m, r')"
  then obtain p qs where p: "filter (\<lambda>p. mrPos r p < length (mrLog r p)) ps = p # qs"
    "m = mrMessages r p ! mrPos r p" "r' = r\<lparr>mrPos := (mrPos r)(p := mrPos r p + 1)\<rparr>"
    by (auto simp: mrOps_def split: list.splits)
  then have "p \<in> set (filter (\<lambda>p. mrPos r p < length (mrLog r p)) ps)" by simp
  then have "mrPos r p < length (mrLog r p)" by simp
  with p nth_mrMessages [OF this] show "mrPos r (Partition m) < length (mrMessages r' (Partition m)) \<and>
      m = mrMessages r' (Partition m) ! mrPos r (Partition m) \<and>
      Offset m = mrPos r (Partition m) \<and> mrPos r' = (mrPos r)(Partition m := mrPos r (Partition m) + 1)"
    by (simp add: mrMessages_update)
qed (auto simp: mrOps_def mrMessages_update split: list.splits)

section \<open>Transactions\<close>

datatype ('e, 'f) tx_error = BeginningTx 'e | RollingBack 'e 'f | TxFn 'f | CommittingTx 'e

text \<open>\<open>BeginTx\<close> returns the transaction or an error; \<open>Rollback\<close> and \<open>Commit\<close> return an error or \<open>None\<close> and the database.\<close>

definition InTx ::
  "('d \<Rightarrow> 'e + 't) \<Rightarrow> ('t \<Rightarrow> 'e option \<times> 'd) \<Rightarrow> ('t \<Rightarrow> 'e option \<times> 'd) \<Rightarrow> ('t \<Rightarrow> 'f option \<times> 't) \<Rightarrow> 'd \<Rightarrow>
   ('e, 'f) tx_error option \<times> 'd" where
  "InTx begin_tx rollback commit_tx fn d =
     (case begin_tx d of
        Inl err \<Rightarrow> (Some (BeginningTx err), d)
      | Inr tx \<Rightarrow>
          (case fn tx of
             (Some err, tx') \<Rightarrow>
               (case rollback tx' of
                  (Some rbErr, d') \<Rightarrow> (Some (RollingBack rbErr err), d')
                | (None, d') \<Rightarrow> (Some (TxFn err), d'))
           | (None, tx') \<Rightarrow>
               (case commit_tx tx' of
                  (Some err, d') \<Rightarrow> (Some (CommittingTx err), d')
                | (None, d') \<Rightarrow> (None, d'))))"

text \<open>
  With a database whose transactions remember where they began, and which keeps that state when it rolls
  back or fails to commit, \<open>InTx\<close> is all or nothing.
\<close>

lemma InTx_atomic:
  assumes "\<And>d tx. begin_tx d = Inr tx \<Longrightarrow> base tx = d" and "\<And>tx err tx'. fn tx = (err, tx') \<Longrightarrow> base tx' = base tx"
    and "\<And>tx err d. rollback tx = (err, d) \<Longrightarrow> d = base tx"
    and "\<And>tx err d. commit_tx tx = (Some err, d) \<Longrightarrow> d = base tx"
    and "InTx begin_tx rollback commit_tx fn d = (err, d')"
  shows "if err = None then \<exists>tx tx'. begin_tx d = Inr tx \<and> fn tx = (None, tx') \<and> commit_tx tx' = (None, d') else d' = d"
  using assms(5)
  by (auto simp: InTx_def split: sum.splits prod.splits option.splits dest!: assms(1-4))

section \<open>Properties\<close>


text \<open>
  In the witness the first message fails and the second succeeds: both are handled, and the commit of the second
  covers the first, which is not delivered again.
\<close>

definition failFirst :: "string \<Rightarrow> string \<Rightarrow> string list \<Rightarrow> unit option \<times> string list" where
  "failFirst k v seen = (if seen = [] then Some () else None, seen @ [v])"


end
