(* ===== verification/Engine_Concurrency.thy ===== *)
theory Engine_Concurrency
  imports Engine
begin

text \<open>
  The engine under concurrency. \<open>Engine\<close> runs each method without interference; in the indexer service
  the Kafka consumer calls \<open>IndexDocument\<close> while \<open>StartFlushLoop\<close> flushes in the background, and the methods hold no
  lock from begin to end. Here their critical sections are the atomic steps:
  \<open>Flush\<close> takes a snapshot, writes and opens the segment, publishes the reader, and only then
  resets the memory index; \<open>Search\<close> reads the memory index first and the list of readers afterwards.
  The step relation allows every interleaving of any number of these calls, with any outcome of the
  system calls.
\<close>

section \<open>The critical sections\<close>

definition countDocument :: "engine \<Rightarrow> string \<Rightarrow> nat \<Rightarrow> engine" where
  "countDocument e docID n =
     e\<lparr>docLengths := AList.update docID (int n) (docLengths e), totalDocs := totalDocs e + 1,
       totalTokens := totalTokens e + int n\<rparr>"

definition addDocument :: "engine \<Rightarrow> string \<Rightarrow> string \<Rightarrow> string \<Rightarrow> engine" where
  "addDocument e docID title body = e\<lparr>memIndex := AddDocument (memIndex e) docID title body\<rparr>"

definition flushSnap :: "engine \<Rightarrow> TermEntry list option" where
  "flushSnap e = (let snapshot = Snapshot (memIndex e) in if snapshot = [] then None else Some snapshot)"

definition flushWrite ::
  "io \<Rightarrow> open_fault \<Rightarrow> int \<Rightarrow> dir \<Rightarrow> TermEntry list \<Rightarrow> (engine_error + Reader) \<times> dir" where
  "flushWrite io flt nano d snapshot =
     (case Write io nano d snapshot of
        (Inl err, d') \<Rightarrow> (Inl (WritingSegment err), d')
      | (Inr name, d') \<Rightarrow>
          (case tryOpen flt d' name of
             Inl ErrPanic \<Rightarrow> (Inl EnginePanic, d')
           | Inl err \<Rightarrow> (Inl (OpeningSegment err), d')
           | Inr reader \<Rightarrow> (Inr reader, d')))"

definition flushPublish :: "engine \<Rightarrow> Reader \<Rightarrow> engine" where
  "flushPublish e reader = e\<lparr>readers := readers e @ [reader]\<rparr>"

definition flushReset :: "engine \<Rightarrow> engine" where
  "flushReset e = e\<lparr>memIndex := Reset (memIndex e)\<rparr>"

text \<open>Without interference they compose to the methods.\<close>

lemma Flush_sections:
  "Flush io flt nano d e =
     (case flushSnap e of
        None \<Rightarrow> (None, e, d)
      | Some snapshot \<Rightarrow>
          (case flushWrite io flt nano d snapshot of
             (Inl err, d') \<Rightarrow> (Some err, e, d')
           | (Inr reader, d') \<Rightarrow> (None, flushReset (flushPublish e reader), d')))"
  by (auto simp: Flush_def flushSnap_def flushWrite_def flushPublish_def flushReset_def Let_def
      split: prod.splits sum.splits seg_error.splits)

lemma IndexDocument_sections:
  "IndexDocument io flt nano d e docID title body =
     (let e2 = addDocument (countDocument e docID (length (Tokenize (title @ '' '' @ body)))) docID title body
      in if SegmentMaxSize e2 \<le> Size (memIndex e2)
         then (case Flush io flt nano d e2 of
            (err, e3, d') \<Rightarrow> (map_option (\<lambda>x. if x = EnginePanic then x else FlushingIndex x) err, e3, d'))
         else (None, e2, d))"
  by (auto simp: IndexDocument_def addDocument_def countDocument_def Let_def
      split: prod.splits option.splits engine_error.splits)

section \<open>Interleavings\<close>

text \<open>Where a call of \<open>Flush\<close> stands: what it holds in its local variables.\<close>

datatype flight = Snapped "TermEntry list" | Written "TermEntry list" Reader | Published "TermEntry list"

text \<open>
  The shared state and the calls of \<open>Flush\<close> that are under way. The ghosts are pairs of a document and one of
  its terms: all that were indexed, and those indexed while a flush was under way.
\<close>

record engine_sys =
  shared :: engine
  disk :: dir
  flights :: "flight multiset"
  indexed :: "(string \<times> string) set"
  racing :: "(string \<times> string) set"

definition docPairs :: "string \<Rightarrow> string \<Rightarrow> string \<Rightarrow> (string \<times> string) set" where
  "docPairs docID title body = {docID} \<times> set (termsOf title @ termsOf body)"

inductive conc_step :: "engine_sys \<Rightarrow> engine_sys \<Rightarrow> bool" where
  c_count: "conc_step s (s\<lparr>shared := countDocument (shared s) docID n\<rparr>)"
| c_add: "conc_step s (s\<lparr>shared := addDocument (shared s) docID title body,
      indexed := indexed s \<union> docPairs docID title body,
      racing := (if flights s = {#} then racing s else racing s \<union> docPairs docID title body)\<rparr>)"
| c_snap: "flushSnap (shared s) = Some sn \<Longrightarrow> mem_fits (memIndex (shared s)) \<Longrightarrow>
    conc_step s (s\<lparr>flights := add_mset (Snapped sn) (flights s)\<rparr>)"
| c_write: "flights s = add_mset (Snapped sn) fs \<Longrightarrow> flushWrite io flt nano (disk s) sn = (Inr rd, d') \<Longrightarrow>
    conc_step s (s\<lparr>disk := d', flights := add_mset (Written sn rd) fs\<rparr>)"
| c_fail: "flights s = add_mset (Snapped sn) fs \<Longrightarrow> flushWrite io flt nano (disk s) sn = (Inl err, d') \<Longrightarrow>
    conc_step s (s\<lparr>disk := d', flights := fs\<rparr>)"
| c_publish: "flights s = add_mset (Written sn rd) fs \<Longrightarrow>
    conc_step s (s\<lparr>shared := flushPublish (shared s) rd, flights := add_mset (Published sn) fs\<rparr>)"
| c_reset: "flights s = add_mset (Published sn) fs \<Longrightarrow>
    conc_step s (s\<lparr>shared := flushReset (shared s), flights := fs\<rparr>)"

inductive_cases conc_stepE: "conc_step s s'"

inductive conc_steps :: "engine_sys \<Rightarrow> engine_sys \<Rightarrow> bool" where
  conc_refl: "conc_steps s s"
| conc_trans: "conc_steps s s' \<Longrightarrow> conc_step s' s'' \<Longrightarrow> conc_steps s s''"

section \<open>What can be found\<close>

definition memPairs :: "mem_index \<Rightarrow> (string \<times> string) set" where
  "memPairs m = {(d, t). d \<in> DocID ` set (memSearch m t)}"

definition readerPairs :: "Reader list \<Rightarrow> (string \<times> string) set" where
  "readerPairs rs = {(d, t). \<exists>r \<in> set rs. d \<in> DocID ` set (readerPostings r t)}"

definition entryPairs :: "TermEntry list \<Rightarrow> (string \<times> string) set" where
  "entryPairs sn = {(d, t). d \<in> DocID ` set (entryPostings sn t)}"

definition foundPairs :: "engine \<Rightarrow> (string \<times> string) set" where
  "foundPairs e = {(d, t). \<exists>ps. searchTerm e t = Inr ps \<and> d \<in> DocID ` set ps}"

text \<open>An engine before the first call; what it holds counts as indexed.\<close>

definition startSys :: "engine \<Rightarrow> dir \<Rightarrow> engine_sys" where
  "startSys e d = \<lparr>shared = e, disk = d, flights = {#}, indexed = foundPairs e, racing = {}\<rparr>"

lemma docs_postingsFor: "DocID ` set (postingsFor e t) = DocID ` set (allPostings e t)"
proof -
  have "fst ` set (hits (postingsFor e t)) = DocID ` set (allPostings e t)"
    by (simp add: hits_postingsFor bestHits_def image_image)
  then show ?thesis by (simp add: hits_def image_image)
qed

lemma foundPairs_wf: "wf_engine e \<Longrightarrow> foundPairs e = memPairs (memIndex e) \<union> readerPairs (readers e)"
  by (auto simp: foundPairs_def searchTerm_wf docs_postingsFor set_allPostings memPairs_def readerPairs_def)

lemma memPairs_add:
  assumes "wf_mem m"
  shows "memPairs (AddDocument m docID title body) = memPairs m \<union> docPairs docID title body"
  using set_memSearch_AddDocument [OF assms, of docID title body] termsOf_join [of title body]
  by (auto simp: memPairs_def docPairs_def doc_posting_def image_iff)

lemma entryPairs_Snapshot: "wf_mem m \<Longrightarrow> entryPairs (Snapshot m) = memPairs m"
  by (simp add: entryPairs_def memPairs_def entryPostings_Snapshot)

lemma memPairs_empty: "index m = [] \<Longrightarrow> memPairs m = {}"
  by (simp add: memPairs_def memSearch_empty)

lemma readerPairs_append: "readerPairs (rs @ [r]) = readerPairs rs \<union> {(d, t). d \<in> DocID ` set (readerPostings r t)}"
  by (auto simp: readerPairs_def)

text \<open>A segment that was written and opened holds its snapshot.\<close>

lemma flushWrite_Inr:
  assumes "flushWrite io flt nano d sn = (Inr rd, d')" and "wf_entries sn"
  shows "wf_reader rd" and "{(d, t). d \<in> DocID ` set (readerPostings rd t)} = entryPairs sn"
proof -
  obtain name where w: "Write io nano d sn = (Inr name, d')" and o: "tryOpen flt d' name = Inr rd"
    using assms(1) by (auto simp: flushWrite_def split: prod.splits sum.splits seg_error.splits)
  have "rd = imageReader name sn"
    using o OpenReader_Write [OF assms(2) w] by (auto simp: tryOpen_def split: option.splits)
  with assms(2) show "wf_reader rd" "{(d, t). d \<in> DocID ` set (readerPostings rd t)} = entryPairs sn"
    by (simp_all add: wf_imageReader entryPairs_def)
qed

section \<open>The invariant\<close>

fun flight_inv :: "engine_sys \<Rightarrow> flight \<Rightarrow> bool" where
  "flight_inv s (Snapped sn) \<longleftrightarrow> wf_entries sn \<and> entryPairs sn \<subseteq> indexed s \<and>
     memPairs (memIndex (shared s)) \<subseteq> entryPairs sn \<union> racing s"
| "flight_inv s (Written sn rd) \<longleftrightarrow> wf_reader rd \<and> {(d, t). d \<in> DocID ` set (readerPostings rd t)} = entryPairs sn \<and>
     entryPairs sn \<subseteq> indexed s \<and> memPairs (memIndex (shared s)) \<subseteq> entryPairs sn \<union> racing s"
| "flight_inv s (Published sn) \<longleftrightarrow> entryPairs sn \<subseteq> readerPairs (readers (shared s)) \<and>
     memPairs (memIndex (shared s)) \<subseteq> entryPairs sn \<union> racing s"

definition conc_inv :: "engine_sys \<Rightarrow> bool" where
  "conc_inv s \<longleftrightarrow> wf_engine (shared s) \<and> (\<forall>f \<in># flights s. flight_inv s f) \<and>
     memPairs (memIndex (shared s)) \<union> readerPairs (readers (shared s)) \<subseteq> indexed s \<and>
     indexed s \<subseteq> memPairs (memIndex (shared s)) \<union> readerPairs (readers (shared s)) \<union> racing s"

lemma flight_inv_mono:
  assumes "flight_inv s f" and "indexed s \<subseteq> indexed s'" and "racing s \<subseteq> racing s'"
    and "readerPairs (readers (shared s)) \<subseteq> readerPairs (readers (shared s'))"
    and "memPairs (memIndex (shared s')) \<subseteq> memPairs (memIndex (shared s)) \<union> racing s'"
  shows "flight_inv s' f"
  using assms by (cases f) auto

lemma conc_inv_frame:
  assumes "conc_inv s" and "memIndex (shared s') = memIndex (shared s)" and "readers (shared s') = readers (shared s)"
    and "indexed s' = indexed s" and "racing s' = racing s"
    and "\<And>f. f \<in># flights s' \<Longrightarrow> f \<in># flights s \<or> flight_inv s' f"
  shows "conc_inv s'"
proof -
  have "flight_inv s' f" if "f \<in># flights s" for f
  proof (rule flight_inv_mono)
    show "flight_inv s f" using assms(1) that by (simp add: conc_inv_def)
  qed (simp_all add: assms(2-5))
  then have "\<forall>f \<in># flights s'. flight_inv s' f" using assms(6) by blast
  with assms(1) show ?thesis by (simp add: conc_inv_def wf_engine_def assms(2-5))
qed

lemma conc_inv_step:
  assumes "conc_inv s" and "conc_step s s'"
  shows "conc_inv s'"
  using assms(2)
proof cases
  case (c_count docID n)
  show ?thesis by (rule conc_inv_frame [OF assms(1)]) (simp_all add: c_count countDocument_def)
next
  case (c_add docID title body)
  have m: "wf_mem (memIndex (shared s))" using assms(1) by (simp add: conc_inv_def wf_engine_def)
  have p: "memPairs (memIndex (shared s')) = memPairs (memIndex (shared s)) \<union> docPairs docID title body"
    "readers (shared s') = readers (shared s)" "indexed s' = indexed s \<union> docPairs docID title body" "flights s' = flights s"
    "racing s' = (if flights s = {#} then racing s else racing s \<union> docPairs docID title body)"
    "wf_mem (memIndex (shared s'))"
    by (simp_all add: c_add addDocument_def memPairs_add [OF m] wf_AddDocument [OF m])
  have "flight_inv s' f" if f: "f \<in># flights s" for f
  proof (rule flight_inv_mono)
    show "flight_inv s f" using assms(1) f by (simp add: conc_inv_def)
    have "flights s \<noteq> {#}" using f by auto
    then show "racing s \<subseteq> racing s'" "memPairs (memIndex (shared s')) \<subseteq> memPairs (memIndex (shared s)) \<union> racing s'"
      unfolding p by auto
  qed (simp_all add: p)
  moreover note inv = assms(1) [unfolded conc_inv_def]
  have "memPairs (memIndex (shared s')) \<union> readerPairs (readers (shared s')) \<subseteq> indexed s'"
    "indexed s' \<subseteq> memPairs (memIndex (shared s')) \<union> readerPairs (readers (shared s')) \<union> racing s'"
    unfolding p using inv by auto
  moreover have "wf_engine (shared s')" using inv p(2,6) by (simp add: wf_engine_def)
  ultimately show ?thesis by (simp add: conc_inv_def p(4))
next
  case (c_snap sn)
  have m: "wf_mem (memIndex (shared s))" using assms(1) by (simp add: conc_inv_def wf_engine_def)
  have sn: "sn = Snapshot (memIndex (shared s))" using c_snap by (auto simp: flushSnap_def Let_def split: if_splits)
  have "flight_inv s' (Snapped sn)"
    using assms(1) c_snap(1,3) wf_entries_Snapshot [OF m]
    by (auto simp: sn entryPairs_Snapshot [OF m] conc_inv_def)
  then show ?thesis by (intro conc_inv_frame [OF assms(1)]) (auto simp: c_snap(1))
next
  case (c_write sn fs io flt nano rd d')
  have "flight_inv s (Snapped sn)" using assms(1) c_write by (auto simp: conc_inv_def)
  then have "flight_inv s' (Written sn rd)" using flushWrite_Inr [OF c_write(3)] c_write(1) by simp
  then show ?thesis by (intro conc_inv_frame [OF assms(1)]) (auto simp: c_write(1,2))
next
  case (c_fail sn fs io flt nano err d')
  show ?thesis by (rule conc_inv_frame [OF assms(1)]) (simp_all add: c_fail(1,2))
next
  case (c_publish sn rd fs)
  have f: "flight_inv s (Written sn rd)" using assms(1) c_publish by (auto simp: conc_inv_def)
  then have p: "readerPairs (readers (shared s')) = readerPairs (readers (shared s)) \<union> entryPairs sn"
    using c_publish(1) by (simp add: flushPublish_def readerPairs_append)
  have q: "memIndex (shared s') = memIndex (shared s)" "indexed s' = indexed s" "racing s' = racing s"
    "flights s' = add_mset (Published sn) fs" "set (readers (shared s')) = insert rd (set (readers (shared s)))"
    by (simp_all add: c_publish(1) flushPublish_def)
  have "flight_inv s' (Published sn)" using f by (simp add: p q)
  moreover have "flight_inv s' g" if "g \<in># fs" for g
  proof (rule flight_inv_mono)
    show "flight_inv s g" using assms(1) that c_publish(2) by (simp add: conc_inv_def)
  qed (simp_all add: p q)
  moreover note inv = assms(1) [unfolded conc_inv_def]
  have "memPairs (memIndex (shared s')) \<union> readerPairs (readers (shared s')) \<subseteq> indexed s'"
    "indexed s' \<subseteq> memPairs (memIndex (shared s')) \<union> readerPairs (readers (shared s')) \<union> racing s'"
    unfolding p q using inv f by auto
  moreover have "wf_engine (shared s')" using inv f q(1,5) by (simp add: wf_engine_def)
  ultimately show ?thesis by (simp add: conc_inv_def q(4))
next
  case (c_reset sn fs)
  have f: "flight_inv s (Published sn)" using assms(1) c_reset by (auto simp: conc_inv_def)
  have e: "memPairs (memIndex (shared s')) = {}"
    using c_reset(1) by (simp add: flushReset_def Reset_def memPairs_empty)
  have q: "readers (shared s') = readers (shared s)" "indexed s' = indexed s" "racing s' = racing s" "flights s' = fs"
    "wf_mem (memIndex (shared s'))"
    using assms(1) by (simp_all add: c_reset(1) flushReset_def conc_inv_def wf_engine_def wf_Reset)
  have "flight_inv s' g" if "g \<in># fs" for g
  proof (rule flight_inv_mono)
    show "flight_inv s g" using assms(1) that c_reset(2) by (simp add: conc_inv_def)
  qed (simp_all add: e q)
  moreover note inv = assms(1) [unfolded conc_inv_def]
  have "memPairs (memIndex (shared s')) \<union> readerPairs (readers (shared s')) \<subseteq> indexed s'"
    "indexed s' \<subseteq> memPairs (memIndex (shared s')) \<union> readerPairs (readers (shared s')) \<union> racing s'"
    unfolding e q using inv f by auto
  moreover have "wf_engine (shared s')" using inv q(1,5) by (simp add: wf_engine_def)
  ultimately show ?thesis by (simp add: conc_inv_def q(4))
qed

lemma conc_inv_steps: "conc_steps s s' \<Longrightarrow> conc_inv s \<Longrightarrow> conc_inv s'"
  by (induction rule: conc_steps.induct) (auto intro: conc_inv_step)

lemma conc_inv_start: "wf_engine e \<Longrightarrow> conc_inv (startSys e d)"
  by (simp add: conc_inv_def startSys_def foundPairs_wf)

text \<open>Readers are only added, and the pairs indexed while a flush was under way only grow.\<close>

lemma conc_steps_mono:
  "conc_steps s s' \<Longrightarrow> set (readers (shared s)) \<subseteq> set (readers (shared s')) \<and> racing s \<subseteq> racing s' \<and> indexed s \<subseteq> indexed s'"
proof (induction rule: conc_steps.induct)
  case (conc_trans s s' s'')
  have "set (readers (shared s')) \<subseteq> set (readers (shared s'')) \<and> racing s' \<subseteq> racing s'' \<and> indexed s' \<subseteq> indexed s''"
    using conc_trans.hyps(2)
    by (cases rule: conc_step.cases) (auto simp: countDocument_def addDocument_def flushPublish_def flushReset_def)
  with conc_trans.IH show ?case by blast
qed simp

text \<open>
  \<open>Search\<close> reads the memory index at one time and the readers at a later one.
\<close>

definition searchBetween :: "engine \<Rightarrow> engine \<Rightarrow> string \<Rightarrow> engine_error + PostingList" where
  "searchBetween e e' t = searchTerm (e'\<lparr>memIndex := memIndex e\<rparr>) t"

lemma searchTerm_sections:
  "searchBetween e e' t =
     (case collectPostings t (memSearch (memIndex e) t) (readers e') of
        Inl err \<Rightarrow> Inl err | Inr ps \<Rightarrow> Inr (deduplicatePostings ps))"
  by (simp add: searchBetween_def searchTerm_def)

section \<open>Properties\<close>

text \<open>
  C16. Under every interleaving of indexing, flushing and searching on one engine, whatever the disk
  does: a search that reads the memory index in one state and the readers in a later one finds
  every document, under each of its terms, that was indexed by then, unless it was indexed while some flush was between its
  snapshot and its reset, and finds nothing that was not indexed. A document indexed in that
  window can be lost, as the witness shows: the reset discards it although the segment lacks it.
\<close>

theorem concurrent_search_complete:
  assumes "wf_engine e" and "conc_steps (startSys e d) s" and "conc_steps s s'"
  shows "wf_engine (shared s') \<and>
    (\<exists>ps. searchBetween (shared s) (shared s') t = Inr ps \<and>
      {docID. (docID, t) \<in> indexed s - racing s} \<subseteq> DocID ` set ps \<and>
      DocID ` set ps \<subseteq> {docID. (docID, t) \<in> indexed s'})"
proof -
  have i: "conc_inv s" by (rule conc_inv_steps [OF assms(2) conc_inv_start [OF assms(1)]])
  have i': "conc_inv s'" by (rule conc_inv_steps [OF assms(3) i])
  let ?e = "(shared s')\<lparr>memIndex := memIndex (shared s)\<rparr>"
  have w: "wf_engine ?e" using i i' by (simp add: conc_inv_def wf_engine_def)
  have r: "readerPairs (readers (shared s)) \<subseteq> readerPairs (readers (shared s'))"
    using conc_steps_mono [OF assms(3)] by (fastforce simp: readerPairs_def)
  have "indexed s - racing s \<subseteq> foundPairs ?e" using i r by (auto simp: foundPairs_wf [OF w] conc_inv_def)
  moreover have "foundPairs ?e \<subseteq> indexed s'"
    using i i' conc_steps_mono [OF assms(3)] by (auto simp: foundPairs_wf [OF w] conc_inv_def)
  ultimately show ?thesis
    using i' searchTerm_wf [OF w, of t] by (auto simp: searchBetween_def foundPairs_def conc_inv_def)
qed

text \<open>
  The race: a flush takes its snapshot of \<open>sampleEngine\<close>, a second document is indexed, and the flush
  completes. Both documents were indexed; only the first can be found.
\<close>

lemma lost_document:
  "\<exists>s. conc_steps (startSys sampleEngine []) s \<and> (''d2'', ''tour'') \<in> indexed s \<and> (''d1'', ''go'') \<in> indexed s - racing s \<and>
     flights s = {#} \<and> (''d2'', ''tour'') \<notin> foundPairs (shared s)"
proof -
  define sn where "sn = Snapshot (memIndex sampleEngine)"
  have m: "wf_mem (memIndex sampleEngine)" using wf_sampleEngine by (simp add: wf_engine_def)
  have "sn \<noteq> []" unfolding sn_def by code_simp
  then have snap: "flushSnap sampleEngine = Some sn" by (simp add: flushSnap_def sn_def)
  obtain rd d' where w: "flushWrite (\<lambda>_. None) (\<lambda>_. None) 17 [] sn = (Inr rd, d')"
    using Flush_sampleEngine [of 17] unfolding Flush_sections snap by (auto split: prod.splits sum.splits)
  let ?p = "docPairs ''d2'' ''Go'' ''tour''"
  define s1 where "s1 = (startSys sampleEngine [])\<lparr>flights := {#Snapped sn#}\<rparr>"
  define s2 where "s2 = s1\<lparr>shared := addDocument sampleEngine ''d2'' ''Go'' ''tour'',
      indexed := foundPairs sampleEngine \<union> ?p, racing := ?p\<rparr>"
  define s3 where "s3 = s2\<lparr>disk := d', flights := {#Written sn rd#}\<rparr>"
  define s4 where "s4 = s3\<lparr>shared := flushPublish (shared s3) rd, flights := {#Published sn#}\<rparr>"
  define s5 where "s5 = s4\<lparr>shared := flushReset (shared s4), flights := {#}\<rparr>"
  have 1: "conc_step (startSys sampleEngine []) s1"
    using conc_step.c_snap [of "startSys sampleEngine []" sn] snap mem_fits_sampleEngine by (simp add: s1_def startSys_def)
  have 2: "conc_step s1 s2"
    using conc_step.c_add [of s1 "''d2''" "''Go''" "''tour''"] by (simp add: s2_def s1_def startSys_def)
  have 3: "conc_step s2 s3"
    using conc_step.c_write [of s2 sn "{#}" "\<lambda>_. None" "\<lambda>_. None" 17 rd d'] w by (simp add: s3_def s2_def s1_def startSys_def)
  have 4: "conc_step s3 s4" using conc_step.c_publish [of s3 sn rd "{#}"] by (simp add: s4_def s3_def)
  have 5: "conc_step s4 s5" using conc_step.c_reset [of s4 sn "{#}"] by (simp add: s5_def s4_def)
  from 1 2 3 4 5 have r: "conc_steps (startSys sampleEngine []) s5" by (meson conc_refl conc_trans)
  have "conc_inv s5" by (rule conc_inv_steps [OF r conc_inv_start [OF wf_sampleEngine]])
  then have "foundPairs (shared s5) = readerPairs [rd]"
    by (simp add: conc_inv_def foundPairs_wf) (simp add: s5_def s4_def s3_def s2_def flushReset_def flushPublish_def
      addDocument_def sampleEngine_def Reset_def memPairs_empty)
  also have "\<dots> = memPairs (memIndex sampleEngine)"
    using flushWrite_Inr(2) [OF w wf_entries_Snapshot [OF m mem_fits_sampleEngine, folded sn_def]] entryPairs_Snapshot [OF m]
    by (simp add: readerPairs_def sn_def)
  finally have f: "foundPairs (shared s5) = memPairs (memIndex sampleEngine)" .
  have ms: "memSearch (memIndex sampleEngine) ''tour'' = []" "''d1'' \<in> DocID ` set (memSearch (memIndex sampleEngine) ''go'')"
    by code_simp+
  have "''tour'' \<in> set (termsOf ''tour'')" by code_simp
  then have p: "(''d2'', ''tour'') \<in> ?p" "(''d1'', ''go'') \<notin> ?p" by (simp_all add: docPairs_def)
  have "(''d1'', ''go'') \<in> foundPairs sampleEngine" using ms(2) by (simp add: foundPairs_wf [OF wf_sampleEngine] memPairs_def)
  with p have "(''d2'', ''tour'') \<in> indexed s5" "(''d1'', ''go'') \<in> indexed s5 - racing s5" "flights s5 = {#}"
    by (simp_all add: s5_def s4_def s3_def s2_def)
  moreover have "(''d2'', ''tour'') \<notin> foundPairs (shared s5)" unfolding f by (simp add: memPairs_def ms(1))
  ultimately show ?thesis using r by blast
qed

theorem concurrent_search_complete_witness:
  "\<exists>s ps. conc_steps (startSys sampleEngine []) s \<and> flights s = {#} \<and>
     (''d2'', ''tour'') \<in> indexed s \<and> (''d2'', ''tour'') \<notin> foundPairs (shared s) \<and>
     searchBetween (shared s) (shared s) ''go'' = Inr ps \<and> ''d1'' \<in> DocID ` set ps"
proof -
  obtain s where s: "conc_steps (startSys sampleEngine []) s" "(''d2'', ''tour'') \<in> indexed s" "(''d1'', ''go'') \<in> indexed s - racing s"
    "flights s = {#}" "(''d2'', ''tour'') \<notin> foundPairs (shared s)" using lost_document by blast
  from concurrent_search_complete [OF wf_sampleEngine s(1) conc_refl, of "''go''"] s(3)
  obtain ps where "searchBetween (shared s) (shared s) ''go'' = Inr ps" "''d1'' \<in> DocID ` set ps" by auto
  with s show ?thesis by blast
qed

end
