(* ===== verification/Indexer_Service.thy ===== *)
theory Indexer_Service
  imports Executor Shard_Router Messaging Engine_Concurrency
begin

text \<open>
  The indexer service of \<open>cmd/indexer/main.go\<close> and a searcher started on its directories: the consumer loop of \<open>Messaging\<close>
  drives the handler of \<open>Shard_Router\<close>, the flush loops flush shards in between, and at the end every shard is flushed.
  Flushes and messages alternate here; what happens when they overlap within one engine is the
  subject of \<open>Engine_Concurrency\<close>. The environment of a step (\<open>sys\<close>) may fail any system call.
\<close>

section \<open>The service\<close>

definition numShardsConst :: int where "numShardsConst = 8"

text \<open>
  The state the handler closes over: the router, the directories of the shards, the database, and how
  many messages were handled, which selects the environment of the next one.
\<close>

record 'd service =
  svRouter :: Router
  svDisks :: disks
  svRows :: 'd
  svCount :: nat

definition indexHandler ::
  "(string \<Rightarrow> IngestEvent option) \<Rightarrow> ('d \<Rightarrow> string \<Rightarrow> string \<Rightarrow> 'd) option \<Rightarrow> (nat \<Rightarrow> int \<Rightarrow> sysenv) \<Rightarrow>
   string \<Rightarrow> string \<Rightarrow> 'd service \<Rightarrow> consume_error option \<times> 'd service" where
  "indexHandler decode setStatus env key value s =
     (case HandleMessageSharded decode setStatus (env (svCount s)) value (svDisks s) (svRouter s) (svRows s) of
        (err, r, disks, d) \<Rightarrow> (err, \<lparr>svRouter = r, svDisks = disks, svRows = d, svCount = svCount s + 1\<rparr>))"

datatype service_exit = ExitNoRouter router_error | Stopped consumer_outcome "engine_error option"

text \<open>After the consumer has returned: the final flush of all shards, then the deferred \<open>Close\<close>.\<close>

definition shutdown :: "(int \<Rightarrow> sysenv) \<Rightarrow> 'd service \<Rightarrow> engine_error option \<times> disks" where
  "shutdown sys s =
     (case FlushAll sys (svDisks s) (svRouter s) of
        (ferr, router', disks') \<Rightarrow> (ferr, snd (closeAll sys disks' router')))"

text \<open>
  \<open>main\<close>: \<open>env0\<close> is the environment at start, \<open>envEnd\<close> that of the final flush and of \<open>Close\<close>. The flush
  loops it starts are the \<open>tick\<close> steps below.
\<close>

definition indexerMain ::
  "'r reader_ops \<Rightarrow> (string \<Rightarrow> IngestEvent option) \<Rightarrow> ('d \<Rightarrow> string \<Rightarrow> string \<Rightarrow> 'd) option \<Rightarrow>
   (int \<Rightarrow> sysenv) \<Rightarrow> (nat \<Rightarrow> int \<Rightarrow> sysenv) \<Rightarrow> (int \<Rightarrow> sysenv) \<Rightarrow> int \<Rightarrow> (bool \<times> bool) list \<Rightarrow>
   'r \<Rightarrow> disks \<Rightarrow> 'd \<Rightarrow> service_exit \<times> 'r \<times> disks \<times> 'd" where
  "indexerMain ops decode setStatus env0 env envEnd segmentMaxSize ctxs rd disks d =
     (case NewRouter env0 segmentMaxSize numShardsConst disks of
        (Inl err, disks') \<Rightarrow> (ExitNoRouter err, rd, disks', d)
      | (Inr router, disks') \<Rightarrow>
          (case consumerStart ops (indexHandler decode setStatus env) ctxs rd
                  \<lparr>svRouter = router, svDisks = disks', svRows = d, svCount = 0\<rparr> of
             (out, rd', s) \<Rightarrow>
               (case shutdown envEnd s of (ferr, disks3) \<Rightarrow> (Stopped out ferr, rd', disks3, svRows s))))"

section \<open>Directories that back an engine\<close>

text \<open>
  Every segment of the directory can be opened and is well-formed, every reader is one of them, and no file has the name
  of a segment that is written later than \<open>now\<close>.
\<close>

definition backed :: "int \<Rightarrow> dir \<Rightarrow> engine \<Rightarrow> bool" where
  "backed now d e \<longleftrightarrow> distinct (map fst d) \<and>
     (\<forall>n \<in> set (segNames d). \<exists>r. OpenReader d n = Inr r \<and> wf_reader r) \<and>
     (\<forall>r \<in> set (readers e). Name r \<in> set (segNames d) \<and> OpenReader d (Name r) = Inr r) \<and>
     (\<forall>m \<ge> now. segmentName m \<notin> fst ` set d)"

lemma segmentName_inj: "segmentName m = segmentName n \<longleftrightarrow> m = n"
  by (simp add: segmentName_def show_int_inj)

lemma segmentName_not_tmp: "segmentName m \<noteq> segmentName n @ ''.tmp''"
  using HasSuffix_segmentName [of m] not_HasSuffix_tmp [of "segmentName n"] by metis

lemma backed_mono: "backed now d e \<Longrightarrow> now \<le> now' \<Longrightarrow> set (readers e') \<subseteq> set (readers e) \<Longrightarrow> backed now' d e'"
  unfolding backed_def by (meson order_trans subsetD)

lemma backed_later: "backed now d e \<Longrightarrow> now \<le> now' \<Longrightarrow> backed now' d e"
  by (erule backed_mono) simp_all

text \<open>Writing a segment, whatever its outcome, changes no other segment.\<close>

lemma Write_Inl_dir:
  assumes "distinct (map fst d)" and "Write io nano d es = (Inl err, d')"
  shows "set (segNames d') = set (segNames d)" and "n \<in> set (segNames d) \<Longrightarrow> OpenReader d' n = OpenReader d n"
proof -
  note dd' = distinct_Write [OF assms]
  have suf: "map_of d' n = map_of d n" if "HasSuffix n ''.spdx''" for n
    using Write_Inl [OF assms(2)] that not_HasSuffix_tmp by metis
  then show "set (segNames d') = set (segNames d)"
    by (auto simp: set_segNames [OF assms(1)] set_segNames [OF dd'])
  show "OpenReader d' n = OpenReader d n" if "n \<in> set (segNames d)"
    using suf that by (intro OpenReader_cong) (simp add: set_segNames [OF assms(1)])
qed

lemma Write_Inr_dir:
  assumes "distinct (map fst d)" and "Write io nano d es = (Inr name, d')" and "map_of d name = None"
  shows "set (segNames d') = insert name (set (segNames d))" and "n \<in> set (segNames d) \<Longrightarrow> OpenReader d' n = OpenReader d n"
proof -
  note dd' = distinct_Write [OF assms(1,2)] and N = Write_Inr [OF assms(2)]
  show "set (segNames d') = insert name (set (segNames d))"
    using HasSuffix_segmentName [of nano] not_HasSuffix_tmp [of name] N(1)
    by (auto simp: set_segNames [OF assms(1)] set_segNames [OF dd'] N(2) split: if_splits)
  show "OpenReader d' n = OpenReader d n" if n: "n \<in> set (segNames d)"
  proof -
    have "n \<noteq> name @ ''.tmp''" using n not_HasSuffix_tmp by (auto simp: set_segNames [OF assms(1)])
    with assms(3) n show ?thesis by (intro OpenReader_cong) (auto simp: N(2) set_segNames [OF assms(1)])
  qed
qed

lemma backed_Write_Inl:
  assumes "backed now d e" and "Write io nano d es = (Inl err, d')"
  shows "backed now d' e"
proof -
  have dd: "distinct (map fst d)" using assms(1) by (simp add: backed_def)
  have "segmentName m \<notin> fst ` set d'" if "now \<le> m" for m
    using assms(1) that Write_Inl [OF assms(2) segmentName_not_tmp, of m] by (simp add: backed_def flip: map_of_eq_None_iff)
  then show ?thesis using assms(1) distinct_Write [OF dd assms(2)] Write_Inl_dir [OF dd assms(2)] by (simp add: backed_def)
qed

lemma backed_Write_Inr:
  assumes "backed now d e" and "now \<le> nano" and "wf_entries es" and "Write io nano d es = (Inr name, d')"
  shows "backed (nano + 1) d' e" and "name \<in> set (segNames d')"
    and "OpenReader d' name = Inr (imageReader name es)"
proof -
  have dd: "distinct (map fst d)" using assms(1) by (simp add: backed_def)
  note N = Write_Inr [OF assms(4)]
  show o: "OpenReader d' name = Inr (imageReader name es)" by (rule OpenReader_Write [OF assms(3,4)])
  have fresh: "map_of d name = None" using assms(1,2) N(1) by (simp add: backed_def map_of_eq_None_iff)
  note D = Write_Inr_dir [OF dd assms(4) fresh]
  show "name \<in> set (segNames d')" by (simp add: D(1))
  have "segmentName m \<notin> fst ` set d'" if "nano + 1 \<le> m" for m
  proof -
    have "map_of d' (segmentName m) = map_of d (segmentName m)"
      using that segmentName_not_tmp [of m nano] by (simp add: N segmentName_inj)
    then show ?thesis using assms(1,2) that by (simp add: backed_def flip: map_of_eq_None_iff)
  qed
  with assms(1) distinct_Write [OF dd assms(4)] D o wf_imageReader [OF assms(3)] show "backed (nano + 1) d' e"
    by (simp add: backed_def)
qed

lemma Name_imageReader: "Name (imageReader name es) = name"
  by (simp add: Name_def imageReader_def)

lemma backed_Flush:
  assumes "wf_engine e" and "mem_fits (memIndex e)" and "backed now d e" and "now \<le> nano"
    and "Flush io flt nano d e = (err, e', d')"
  shows "backed (nano + 1) d' e'"
proof -
  have m: "wf_mem (memIndex e)" using assms(1) by (simp add: wf_engine_def)
  note W = backed_Write_Inr [OF assms(3,4) wf_entries_Snapshot [OF m assms(2)]]
  from m assms(2,5) show ?thesis
  proof (cases rule: Flush_cases)
    case empty
    then show ?thesis using assms(3,4) by (auto elim: backed_mono)
  next
    case (failed werr)
    show ?thesis
      unfolding failed(2) by (rule backed_mono [OF backed_Write_Inl [OF assms(3) failed(3)]]) (use assms(4) in simp_all)
  next
    case unopened
    then show ?thesis using W(1) by simp
  next
    case written
    from W [OF written(2)] show ?thesis unfolding written(3) by (auto simp: backed_def newSegment_def Name_imageReader)
  qed
qed

lemma backed_IndexDocument:
  assumes "wf_engine e" and "mem_fits (AddDocument (memIndex e) docID title body)" and "backed now d e" and "now \<le> nano"
    and "IndexDocument io flt nano d e docID title body = (err, e', d')"
  shows "backed (nano + 1) d' e'"
  using assms(5)
proof (cases rule: IndexDocument_cases)
  case buffered
  then show ?thesis using assms(3,4) by (auto elim: backed_mono)
next
  case (flushed err')
  show ?thesis
    by (rule backed_Flush [OF _ _ _ assms(4) flushed(1)])
      (use assms(1-3) in \<open>auto simp: wf_engine_def wf_AddDocument backed_def\<close>)
qed

section \<open>What the shards hold\<close>

lemma foundPairs_Flush:
  assumes "wf_engine e" and "mem_fits (memIndex e)" and "Flush io flt nano d e = (err, e', d')"
  shows "foundPairs e' = foundPairs e"
  using set_allPostings_Flush [OF assms] wf_engine_Flush [OF assms] assms(1)
  by (simp add: foundPairs_def searchTerm_wf docs_postingsFor)

lemma foundPairs_IndexDocument:
  assumes "wf_engine e" and "mem_fits (AddDocument (memIndex e) docID title body)"
    and "IndexDocument io flt nano d e docID title body = (err, e', d')"
  shows "foundPairs e' = foundPairs e \<union> docPairs docID title body"
proof -
  have m: "wf_mem (memIndex e)" using assms(1) by (simp add: wf_engine_def)
  note P = IndexDocument_postings [OF assms]
  have "foundPairs e' = memPairs (AddDocument (memIndex e) docID title body) \<union> readerPairs (readers e)"
    by (auto simp: foundPairs_def searchTerm_wf [OF P(1)] docs_postingsFor P(2) memPairs_def readerPairs_def)
  then show ?thesis by (auto simp: memPairs_add [OF m] foundPairs_wf [OF assms(1)])
qed

text \<open>The pairs a shard can find, and those of an event.\<close>

definition shardPairs :: "Router \<Rightarrow> int \<Rightarrow> (string \<times> string) set" where
  "shardPairs r i = (case shardEngine r i of None \<Rightarrow> {} | Some e \<Rightarrow> foundPairs e)"

definition eventPairs :: "IngestEvent \<Rightarrow> (string \<times> string) set" where
  "eventPairs ev = docPairs (evDocumentID ev) (evTitle ev) (evBody ev)"

section \<open>Messages and ticks\<close>

text \<open>
  The service between start and shutdown. Besides the state there is the clock (a lower bound of the time
  of the next file) and, as a ghost, the events that were routed to a shard. A step happens at a
  later time than all files; opening a file does not panic; the memory index it may flush fits the segment format.
\<close>

definition clocked :: "int \<Rightarrow> (int \<Rightarrow> sysenv) \<Rightarrow> int \<Rightarrow> bool" where
  "clocked now sys now' \<longleftrightarrow> (\<forall>i. now \<le> envNano (sys i) \<and> envNano (sys i) < now') \<and>
     (\<forall>i name. envOpen (sys i) name \<noteq> Some ErrPanic)"

definition routed :: "int \<Rightarrow> IngestEvent option \<Rightarrow> IngestEvent list" where
  "routed n x = (case x of Some ev \<Rightarrow> if 0 \<le> evShardID ev \<and> evShardID ev < n then [ev] else [] | None \<Rightarrow> [])"

definition eventFits :: "Router \<Rightarrow> IngestEvent option \<Rightarrow> bool" where
  "eventFits r x = (case x of None \<Rightarrow> True
     | Some ev \<Rightarrow> (case shardEngine r (evShardID ev) of None \<Rightarrow> True
        | Some e \<Rightarrow> mem_fits (AddDocument (memIndex e) (evDocumentID ev) (evTitle ev) (evBody ev))))"

inductive service_step ::
  "int \<Rightarrow> (string \<Rightarrow> IngestEvent option) \<Rightarrow> ('d \<Rightarrow> string \<Rightarrow> string \<Rightarrow> 'd) option \<Rightarrow>
   'd service \<times> int \<times> IngestEvent list \<Rightarrow> 'd service \<times> int \<times> IngestEvent list \<Rightarrow> bool" for n decode setStatus where
  message: "indexHandler decode setStatus env key value s = (err, s') \<Longrightarrow> clocked now (env (svCount s)) now' \<Longrightarrow>
    eventFits (svRouter s) (decode value) \<Longrightarrow>
    service_step n decode setStatus (s, now, evs) (s', now', evs @ routed n (decode value))"
| tick: "shardEngine (svRouter s) i = Some e \<Longrightarrow> 0 < DocCount (memIndex e) \<Longrightarrow> mem_fits (memIndex e) \<Longrightarrow> now \<le> nano \<Longrightarrow>
    Flush io flt nano (svDisks s i) e = (err, e', d') \<Longrightarrow>
    service_step n decode setStatus (s, now, evs)
      (s\<lparr>svRouter := (svRouter s)\<lparr>rtEngines := AList.update i e' (rtEngines (svRouter s))\<rparr>,
         svDisks := (svDisks s)(i := d')\<rparr>, nano + 1, evs)"

inductive service_run ::
  "int \<Rightarrow> (string \<Rightarrow> IngestEvent option) \<Rightarrow> ('d \<Rightarrow> string \<Rightarrow> string \<Rightarrow> 'd) option \<Rightarrow>
   'd service \<times> int \<times> IngestEvent list \<Rightarrow> 'd service \<times> int \<times> IngestEvent list \<Rightarrow> bool" for n decode setStatus where
  run_refl: "service_run n decode setStatus c c"
| run_step: "service_run n decode setStatus c c' \<Longrightarrow> service_step n decode setStatus c' c'' \<Longrightarrow> service_run n decode setStatus c c''"

definition service_inv :: "int \<Rightarrow> 'd service \<times> int \<times> IngestEvent list \<Rightarrow> bool" where
  "service_inv n = (\<lambda>(s, now, evs). wf_router n (svRouter s) \<and>
     (\<forall>i e. shardEngine (svRouter s) i = Some e \<longrightarrow> backed now (svDisks s i) e) \<and>
     (\<forall>ev \<in> set evs. eventPairs ev \<subseteq> shardPairs (svRouter s) (evShardID ev)))"

text \<open>Replacing the engine of one shard by one that is backed and finds at least as much keeps the invariant.\<close>

lemma service_inv_update:
  assumes "service_inv n (s, now, evs)" and "shardEngine (svRouter s) i = Some e" and "now \<le> now'"
    and "wf_engine e'" and "backed now' d' e'" and "foundPairs e \<subseteq> foundPairs e'"
    and "svRouter s' = (svRouter s)\<lparr>rtEngines := AList.update i e' (rtEngines (svRouter s))\<rparr>"
    and "svDisks s' = (svDisks s)(i := d')"
    and "\<forall>ev \<in> set evs'. ev \<in> set evs \<or> (evShardID ev = i \<and> eventPairs ev \<subseteq> foundPairs e')"
  shows "service_inv n (s', now', evs')"
proof -
  note inv = assms(1) [unfolded service_inv_def, simplified]
  note U = wf_router_update [OF inv [THEN conjunct1] assms(2,4), folded assms(7)]
  have "backed now' (svDisks s' j) a" if "shardEngine (svRouter s') j = Some a" for j a
    using that inv assms(3,5,8) by (auto simp: U(2) split: if_splits intro: backed_later [where now = now])
  moreover have "eventPairs ev \<subseteq> shardPairs (svRouter s') (evShardID ev)" if "ev \<in> set evs'" for ev
    using that assms(2,6,9) inv by (fastforce simp: shardPairs_def U(2) split: option.splits)
  ultimately show ?thesis using U(1) by (simp add: service_inv_def)
qed

lemma service_inv_clock:
  "service_inv n (s, now, evs) \<Longrightarrow> now \<le> now' \<Longrightarrow> svRouter s' = svRouter s \<Longrightarrow> svDisks s' = svDisks s \<Longrightarrow> service_inv n (s', now', evs)"
  by (auto simp: service_inv_def intro: backed_later [where now = now])

lemma HandleMessageSharded_cases:
  assumes "wf_router n r" and "HandleMessageSharded decode setStatus sys value disks r d = (err, r', disks', d')"
    and "eventFits r (decode value)" and "\<forall>i name. envOpen (sys i) name \<noteq> Some ErrPanic"
  obtains (skipped) "r' = r" "disks' = disks" "routed n (decode value) = []"
  | (indexed) ev e ierr e' disk' where "decode value = Some ev" "routed n (decode value) = [ev]"
      "shardEngine r (evShardID ev) = Some e" "mem_fits (AddDocument (memIndex e) (evDocumentID ev) (evTitle ev) (evBody ev))"
      "IndexDocument (envIO (sys (evShardID ev))) (envOpen (sys (evShardID ev))) (envNano (sys (evShardID ev)))
         (disks (evShardID ev)) e (evDocumentID ev) (evTitle ev) (evBody ev) = (ierr, e', disk')"
      "r' = r\<lparr>rtEngines := AList.update (evShardID ev) e' (rtEngines r)\<rparr>" "disks' = disks(evShardID ev := disk')"
proof (cases "decode value")
  case None
  then show ?thesis using assms(2) by (intro skipped) (simp_all add: HandleMessageSharded_def routed_def)
next
  case (Some ev)
  show ?thesis
  proof (cases "shardEngine r (evShardID ev)")
    case None
    then have "\<not> (0 \<le> evShardID ev \<and> evShardID ev < n)" using wf_router_shardEngine(1) [OF assms(1)] by blast
    then show ?thesis
      using Some None assms(2) by (intro skipped) (auto simp: HandleMessageSharded_def Route_shardEngine routed_def)
  next
    case (Some e)
    note dec = \<open>decode value = Some ev\<close>
    have range: "0 \<le> evShardID ev \<and> evShardID ev < n"
      using wf_router_shardEngine(1) [OF assms(1), of "evShardID ev"] Some by auto
    let ?env = "sys (evShardID ev)"
    obtain ierr e' disk' where i: "IndexDocument (envIO ?env) (envOpen ?env) (envNano ?env) (disks (evShardID ev)) e
        (evDocumentID ev) (evTitle ev) (evBody ev) = (ierr, e', disk')" by (metis prod_cases3)
    have f: "mem_fits (AddDocument (memIndex e) (evDocumentID ev) (evTitle ev) (evBody ev))"
      using assms(3) dec Some by (simp add: eventFits_def)
    have "ierr \<noteq> Some EnginePanic"
      by (rule IndexDocument_no_panic [OF wf_router_shardEngine(2) [OF assms(1) Some] f i]) (use assms(4) in blast)
    from HandleMessageSharded_routed [where decode = decode and sys = sys and disks = disks, OF dec Some i this, of setStatus d]
    show ?thesis using assms(2) dec Some f i range by (intro indexed [of ev e ierr e' disk']) (auto simp: routed_def)
  qed
qed

lemma service_inv_message:
  assumes "service_inv n (s, now, evs)" and "indexHandler decode setStatus env key value s = (err, s')"
    and "clocked now (env (svCount s)) now'" and "eventFits (svRouter s) (decode value)"
  shows "service_inv n (s', now', evs @ routed n (decode value))"
proof -
  have w: "wf_router n (svRouter s)" using assms(1) by (simp add: service_inv_def)
  have t: "now \<le> envNano (env (svCount s) i)" "envNano (env (svCount s) i) < now'" for i
    using assms(3) by (auto simp: clocked_def)
  then have now: "now \<le> now'" by (meson less_imp_le order_trans)
  obtain r' disks' d' where h: "HandleMessageSharded decode setStatus (env (svCount s)) value (svDisks s) (svRouter s) (svRows s) =
      (err, r', disks', d')" and s': "svRouter s' = r'" "svDisks s' = disks'"
    using assms(2) by (auto simp: indexHandler_def split: prod.splits)
  have np: "\<forall>i name. envOpen (env (svCount s) i) name \<noteq> Some ErrPanic" using assms(3) by (simp add: clocked_def)
  from w h assms(4) np show ?thesis
  proof (cases rule: HandleMessageSharded_cases)
    case skipped
    then show ?thesis using service_inv_clock [OF assms(1) now, of s'] s' by simp
  next
    case (indexed ev e ierr e' disk')
    let ?i = "evShardID ev"
    have e: "wf_engine e" "backed now (svDisks s ?i) e"
      using assms(1) indexed(3) wf_router_shardEngine(2) [OF w] by (auto simp: service_inv_def)
    note P = IndexDocument_postings(1) [OF e(1) indexed(4,5)] foundPairs_IndexDocument [OF e(1) indexed(4,5)]
    have "backed (envNano (env (svCount s) ?i) + 1) disk' e'"
      by (rule backed_IndexDocument [OF e(1) indexed(4) e(2) t(1) indexed(5)])
    then have "backed now' disk' e'" using t(2) [of ?i] by (auto intro: backed_later)
    then show ?thesis
      using P indexed s'
      by (intro service_inv_update [OF assms(1) indexed(3) now P(1)]) (auto simp: eventPairs_def)
  qed
qed

lemma service_inv_step:
  assumes "service_step n decode setStatus c c'" and "service_inv n c"
  shows "service_inv n c'"
  using assms
proof (induction rule: service_step.induct)
  case (message env key v s err s' now now' evs)
  then show ?case by (intro service_inv_message)
next
  case (tick s i e now nano io flt err e' d' evs)
  have w: "wf_router n (svRouter s)" and b: "backed now (svDisks s i) e"
    using tick.prems tick.hyps(1) by (auto simp: service_inv_def)
  have e: "wf_engine e" by (rule wf_router_shardEngine(2) [OF w tick.hyps(1)])
  note F = wf_engine_Flush [OF e tick.hyps(3,5)] backed_Flush [OF e tick.hyps(3) b tick.hyps(4,5)]
    foundPairs_Flush [OF e tick.hyps(3,5)]
  show ?case
    by (rule service_inv_update [OF tick.prems tick.hyps(1) _ F(1,2)]) (use F(3) tick.hyps(4) in simp_all)
qed

lemma service_inv_run: "service_run n decode setStatus c c' \<Longrightarrow> service_inv n c \<Longrightarrow> service_inv n c'"
  by (induction rule: service_run.induct) (auto intro: service_inv_step)

lemma service_run_range:
  "service_run n decode setStatus c c' \<Longrightarrow>
    \<forall>ev \<in> set (snd (snd c')). ev \<in> set (snd (snd c)) \<or> (0 \<le> evShardID ev \<and> evShardID ev < n)"
proof (induction rule: service_run.induct)
  case (run_step c c' c'')
  from run_step.hyps(2) run_step.IH show ?case
    by (cases rule: service_step.cases) (auto simp: routed_def split: option.splits if_splits)
qed simp

section \<open>Starting and stopping\<close>

text \<open>A directory left by the service: its segments are well-formed, and older than \<open>now\<close>.\<close>

definition goodDir :: "int \<Rightarrow> dir \<Rightarrow> bool" where
  "goodDir now d \<longleftrightarrow> distinct (map fst d) \<and> (\<forall>n \<in> set (segNames d). \<exists>r. OpenReader d n = Inr r \<and> wf_reader r) \<and>
     (\<forall>m \<ge> now. segmentName m \<notin> fst ` set d)"

lemma backed_goodDir: "backed now d e \<longleftrightarrow> goodDir now d \<and>
    (\<forall>r \<in> set (readers e). Name r \<in> set (segNames d) \<and> OpenReader d (Name r) = Inr r)"
  by (auto simp: backed_def goodDir_def)

lemma goodDir_empty: "goodDir now []"
  by (simp add: goodDir_def segNames_def ReadDir_def)

lemma NewEngine_readers:
  assumes "NewEngine mk rdErr flt mx d = Inr e"
  shows "memIndex e = NewMemoryIndex"
    and "set (readers e) \<subseteq> {r. \<exists>n \<in> set (segNames d). OpenReader d n = Inr r}"
    and "rdErr = None \<Longrightarrow> (\<And>n. flt n = None) \<Longrightarrow> set (readers e) = {r. \<exists>n \<in> set (segNames d). OpenReader d n = Inr r}"
proof -
  let ?ns = "sort (map fst (filter isSegmentEntry (ReadDir d)))"
  have ns: "set ?ns = set (segNames d)" by (simp add: segNames_def)
  have "memIndex e = NewMemoryIndex \<and> (readers e = [] \<and> rdErr \<noteq> None \<or> openSegments flt d ?ns = Some (readers e))"
    using assms
    by (auto simp: NewEngine_def loadExistingSegments_def Let_def split: if_splits option.splits sum.splits engine_error.splits readdir_fault.splits)
  then show "memIndex e = NewMemoryIndex"
    and "set (readers e) \<subseteq> {r. \<exists>n \<in> set (segNames d). OpenReader d n = Inr r}"
    and "rdErr = None \<Longrightarrow> (\<And>n. flt n = None) \<Longrightarrow> set (readers e) = {r. \<exists>n \<in> set (segNames d). OpenReader d n = Inr r}"
    using openSegments_Some [of flt d ?ns "readers e"] unfolding ns
    by (auto simp: tryOpen_def split: option.splits)
qed

lemma NewEngine_backed:
  assumes "goodDir now d" and "NewEngine mk rdErr flt mx d = Inr e"
  shows "wf_engine e" and "backed now d e"
proof -
  note R = NewEngine_readers [OF assms(2)]
  have "wf_reader r \<and> Name r \<in> set (segNames d) \<and> OpenReader d (Name r) = Inr r" if r: "r \<in> set (readers e)" for r
  proof -
    obtain n where n: "n \<in> set (segNames d)" "OpenReader d n = Inr r" using R(2) r by blast
    then have "Name r = n" using OpenReader_Name by blast
    with n assms(1) show ?thesis by (auto simp: goodDir_def)
  qed
  with R(1) assms(1) show "wf_engine e" "backed now d e"
    by (auto simp: wf_engine_def wf_NewMemoryIndex backed_goodDir)
qed

lemma NewEngine_good:
  assumes "goodDir now d"
  shows "\<exists>e. NewEngine True None (\<lambda>_. None) mx d = Inr e"
proof -
  let ?ns = "sort (map fst (filter isSegmentEntry (ReadDir d)))"
  have "\<forall>n \<in> set ?ns. \<exists>r. tryOpen (\<lambda>_. None) d n = Inr r"
    using assms by (auto simp: tryOpen_def goodDir_def segNames_def)
  then obtain rs where "openSegments (\<lambda>_. None) d ?ns = Some rs" using openSegments_all by blast
  then show ?thesis by (simp add: NewEngine_def loadExistingSegments_def Let_def)
qed

lemma NewRouter_succeeds:
  assumes "\<And>i. 0 \<le> i \<and> i < n \<Longrightarrow>
    \<exists>e. NewEngine (envMkdir (sys i)) (envReadDir (sys i)) (envOpen (sys i)) mx (disks i) = Inr e"
  shows "\<exists>r. NewRouter sys mx n disks = (Inr r, disks)"
proof -
  have "\<exists>r'. newLoop sys mx disks r is = (Inr r', disks)" if "\<forall>i \<in> set is. 0 \<le> i \<and> i < n" for r "is"
    using that
  proof (induction "is" arbitrary: r)
    case (Cons i "is")
    obtain e where "NewEngine (envMkdir (sys i)) (envReadDir (sys i)) (envOpen (sys i)) mx (disks i) = Inr e"
      using assms Cons.prems by auto
    with Cons show ?case by simp
  qed simp
  moreover have "\<forall>i \<in> set (map int [0..<nat n]). 0 \<le> i \<and> i < n" by auto
  ultimately show ?thesis unfolding NewRouter_def by blast
qed

lemma service_inv_start:
  assumes "0 \<le> n" and "\<forall>i. goodDir now (disks i)" and "NewRouter sys mx n disks = (Inr r, disks')"
  shows "service_inv n (\<lparr>svRouter = r, svDisks = disks', svRows = d, svCount = 0\<rparr>, now, [])"
proof -
  note N = NewRouter_ok [OF assms(3,1)]
  have e: "wf_engine e \<and> backed now (disks i) e" if "shardEngine r i = Some e" for i e
  proof -
    have "i \<in> fst ` set (rtEngines r)" using that by (force simp: shardEngine_def dest: map_of_SomeD)
    then have "0 \<le> i \<and> i < n" using N(4) by auto
    with N(5) that NewEngine_backed assms(2) show ?thesis by fastforce
  qed
  then have "wf_router n r" using N(2-4) by (auto simp: wf_router_def shardEngine_def)
  with e show ?thesis by (simp add: service_inv_def N(1))
qed

text \<open>After a flush of all shards without an error everything is in the segments.\<close>

lemma FlushAll_durable:
  assumes "service_inv n (s, now, evs)" and "\<forall>i e. shardEngine (svRouter s) i = Some e \<longrightarrow> mem_fits (memIndex e)"
    and "clocked now sys now'" and "FlushAll sys (svDisks s) (svRouter s) = (None, r', disks')"
    and "shardEngine (svRouter s) i = Some e"
  shows "\<exists>e'. shardEngine r' i = Some e' \<and> wf_engine e' \<and> index (memIndex e') = [] \<and> backed now' (disks' i) e' \<and>
    foundPairs e' = foundPairs e"
proof -
  have w: "wf_router n (svRouter s)" and b: "backed now (svDisks s i) e" using assms(1,5) by (auto simp: service_inv_def)
  have e: "wf_engine e" "mem_fits (memIndex e)" using wf_router_shardEngine(2) [OF w assms(5)] assms(2,5) by auto
  have "distinct (map fst (rtEngines (svRouter s)))" using w by (simp add: wf_router_def)
  note F = FlushAll_spec [OF this assms(4)]
  obtain err e' d' where f: "flushShard sys (svDisks s) i e = (err, e', d')" by (metis prod_cases3)
  have fl: "Flush (envIO (sys i)) (envOpen (sys i)) (envNano (sys i)) (svDisks s i) e = (err, e', d')"
    using f by (simp add: flushShard_def)
  have "(i, e) \<in> set (rtEngines (svRouter s))" using assms(5) by (simp add: shardEngine_def map_of_SomeD)
  then have none: "err = None" using F(5) f by fastforce
  have t: "now \<le> envNano (sys i)" "envNano (sys i) + 1 \<le> now'"
    using assms(3) by (auto simp: clocked_def zless_imp_add1_zle)
  have "shardEngine r' i = Some e'" "disks' i = d'" using F(3,4) [of i] assms(5) f by simp_all
  then show ?thesis
    using wf_engine_Flush [OF e fl] Flush_None_empty [OF e fl [unfolded none]] foundPairs_Flush [OF e fl]
      backed_later [OF backed_Flush [OF e b t(1) fl] t(2)] by auto
qed

text \<open>A query finds what one of the shards holds.\<close>

lemma shardedExecute_finds:
  assumes "wf_router n r" and "shardEngine r i = Some e"
    and "\<forall>t \<in> set (planTerms plan). (docID, t) \<in> foundPairs e \<and> termsOf t = [t]"
    and "planTerms plan \<noteq> []" and "ExcludeTerms plan = []"
    and "\<forall>t \<in> set (planTerms plan). int (length (allShardPostings (GetAllEngines r) t)) < maxInt"
  shows "\<exists>res. shardedExecute (GetAllEngines r) plan limit = Inr res \<and> 0 < TotalHits res \<and>
    (limit \<le> 0 \<or> TotalHits res \<le> limit \<longrightarrow> docID \<in> sdDocID ` set (Results res))"
proof -
  let ?H = "\<lambda>t. DocID ` set (allShardPostings (GetAllEngines r) t)"
  have "(i, e) \<in> set (GetAllEngines r)" using assms(2) by (simp add: GetAllEngines_def shardEngine_def map_of_SomeD)
  moreover have "docID \<in> DocID ` set (postingsOf e t)" if "t \<in> set (planTerms plan)" for t
  proof -
    have "Search e t = searchTerm e t" using assms(3) that by (auto simp: Search_def termsOf_def)
    then show ?thesis using assms(3) that by (auto simp: foundPairs_def postingsOf_def)
  qed
  ultimately have "\<forall>t \<in> set (planTerms plan). docID \<in> ?H t" by (fastforce simp: allShardPostings_def)
  then have m: "docID \<in> matchSet ?H plan" by (rule matchSet_all [OF assms(4,5)])
  then have "0 < card (matchSet ?H plan)"
    using finite_matchSet [of ?H plan] by (metis List.finite_set card_gt_0_iff empty_iff finite_imageI)
  moreover have "\<forall>s \<in> set (GetAllEngines r). wf_engine (snd s)" using assms(1) by (auto simp: wf_router_def GetAllEngines_def)
  ultimately show ?thesis using shardedExecute_spec [OF _ assms(6), of limit] m by auto
qed

text \<open>Closing engines whose memory is empty writes nothing.\<close>

lemma Close_empty: "index (memIndex e) = [] \<Longrightarrow> snd (Close io flt nano d e) = d"
  by (simp add: Close_def Flush_def Snapshot_def split: prod.splits)

lemma closeLoop_empty: "\<forall>(i, e) \<in> set es. index (memIndex e) = [] \<Longrightarrow> snd (closeLoop sys disks es) = disks"
proof (induction es arbitrary: disks)
  case (Cons p es)
  obtain i e where p: "p = (i, e)" by fastforce
  obtain e' d' where c: "Close (envIO (sys i)) (envOpen (sys i)) (envNano (sys i)) (disks i) e = (e', d')" by fastforce
  have "index (memIndex e) = []" using Cons.prems by (simp add: p)
  from Close_empty [OF this] c have d: "d' = disks i" by (metis snd_conv)
  have "snd (closeLoop sys disks es) = disks" using Cons by simp
  then show ?case by (cases "closeLoop sys disks es") (simp add: p c d)
qed simp

lemma shutdown_durable:
  assumes "service_inv n (s, now, evs)" and "\<forall>i e. shardEngine (svRouter s) i = Some e \<longrightarrow> mem_fits (memIndex e)"
    and "clocked now sys now'" and "shutdown sys s = (None, disks')" and "shardEngine (svRouter s) i = Some e"
  shows "\<exists>e'. wf_engine e' \<and> index (memIndex e') = [] \<and> backed now' (disks' i) e' \<and> foundPairs e' = foundPairs e"
proof -
  have w: "wf_router n (svRouter s)" using assms(1) by (simp add: service_inv_def)
  obtain ferr r' disks1 where f: "FlushAll sys (svDisks s) (svRouter s) = (ferr, r', disks1)" by (metis prod_cases3)
  have none: "ferr = None" and d: "disks' = snd (closeAll sys disks1 r')" using assms(4) f by (auto simp: shutdown_def)
  note D = FlushAll_durable [OF assms(1-3) f [unfolded none]]
  have dist: "distinct (map fst (rtEngines (svRouter s)))" using w by (simp add: wf_router_def)
  note F = FlushAll_spec(2,3) [OF dist f]
  have "index (memIndex e1) = []" if "(j, e1) \<in> set (rtEngines r')" for j e1
  proof -
    have "shardEngine r' j = Some e1" using that dist F(1) by (simp add: shardEngine_def)
    moreover from this obtain e0 where "shardEngine (svRouter s) j = Some e0" using F(2) by auto
    ultimately show ?thesis using D by fastforce
  qed
  then have "snd (closeLoop sys disks1 (rtEngines r')) = disks1" by (intro closeLoop_empty) blast
  then have "disks' = disks1" unfolding d closeAll_def by (cases "closeLoop sys disks1 (rtEngines r')") simp
  with D [OF assms(5)] show ?thesis by auto
qed

text \<open>A searcher that opens the directories finds whatever an emptied engine found.\<close>

lemma NewEngine_finds:
  assumes "wf_engine e" and "index (memIndex e) = []" and "backed now d e"
    and "NewEngine True None (\<lambda>_. None) mx d = Inr e'"
  shows "wf_engine e'" and "foundPairs e \<subseteq> foundPairs e'"
proof -
  have g: "goodDir now d" using assms(3) by (simp add: backed_goodDir)
  show w: "wf_engine e'" by (rule NewEngine_backed(1) [OF g assms(4)])
  have "set (readers e) \<subseteq> set (readers e')"
    using NewEngine_readers(3) [OF assms(4)] assms(3) by (auto simp: backed_def)
  moreover have "memPairs (memIndex e) = {}" using assms(2) by (simp add: memPairs_def memSearch_def)
  ultimately show "foundPairs e \<subseteq> foundPairs e'"
    unfolding foundPairs_wf [OF w] foundPairs_wf [OF assms(1)] by (auto simp: readerPairs_def)
qed

definition calm :: "(int \<Rightarrow> sysenv) \<Rightarrow> bool" where
  "calm sys \<longleftrightarrow> (\<forall>i. envMkdir (sys i) \<and> envReadDir (sys i) = None \<and> envOpen (sys i) = (\<lambda>_. None))"

lemma reopen_finds:
  assumes "0 \<le> n" and "calm sys"
    and "\<And>i. 0 \<le> i \<and> i < n \<Longrightarrow> \<exists>e now. wf_engine e \<and> index (memIndex e) = [] \<and> backed now (disks i) e \<and> P i \<subseteq> foundPairs e"
  shows "\<exists>r. NewRouter sys mx n disks = (Inr r, disks) \<and> wf_router n r \<and>
    (\<forall>i. 0 \<le> i \<and> i < n \<longrightarrow> P i \<subseteq> shardPairs r i)"
proof -
  have e: "NewEngine (envMkdir (sys i)) (envReadDir (sys i)) (envOpen (sys i)) mx (disks i) = NewEngine True None (\<lambda>_. None) mx (disks i)" for i
    using assms(2) by (simp add: calm_def)
  have "\<exists>e. NewEngine (envMkdir (sys i)) (envReadDir (sys i)) (envOpen (sys i)) mx (disks i) = Inr e" if "0 \<le> i \<and> i < n" for i
    unfolding e using assms(3) [OF that] by (auto simp: backed_goodDir intro: NewEngine_good)
  then obtain r where r: "NewRouter sys mx n disks = (Inr r, disks)" using NewRouter_succeeds by blast
  note N = NewRouter_ok [OF r assms(1), unfolded e]
  have f: "\<exists>e. shardEngine r i = Some e \<and> wf_engine e \<and> P i \<subseteq> foundPairs e" if i: "0 \<le> i \<and> i < n" for i
  proof -
    obtain e' where e': "NewEngine True None (\<lambda>_. None) mx (disks i) = Inr e'" "shardEngine r i = Some e'" using N(5) [OF i] by blast
    obtain e0 now where "wf_engine e0" "index (memIndex e0) = []" "backed now (disks i) e0" "P i \<subseteq> foundPairs e0"
      using assms(3) [OF i] by blast
    from NewEngine_finds [OF this(1-3) e'(1)] this(4) e'(2) show ?thesis by blast
  qed
  have "wf_engine e1" if "(i, e1) \<in> set (rtEngines r)" for i e1
  proof -
    have "i \<in> {0..<n}" using that N(4) by force
    moreover have "shardEngine r i = Some e1" using that N(3) by (simp add: shardEngine_def)
    ultimately show ?thesis using f [of i] by auto
  qed
  then have "wf_router n r" using N(2-4) by (auto simp: wf_router_def)
  with r f show ?thesis by (fastforce simp: shardPairs_def)
qed

lemma service_reopens:
  assumes "0 \<le> n" and "\<forall>i. goodDir now0 (disks i)" and "NewRouter sys0 mx n disks = (Inr r, disks0)"
    and "service_run n decode setStatus (\<lparr>svRouter = r, svDisks = disks0, svRows = rows, svCount = 0\<rparr>, now0, []) (s, now, evs)"
    and "\<forall>i e. shardEngine (svRouter s) i = Some e \<longrightarrow> mem_fits (memIndex e)"
    and "clocked now sys now'" and "shutdown sys s = (None, disks')" and "calm sys2"
  shows "\<exists>r2. NewRouter sys2 mx2 n disks' = (Inr r2, disks') \<and> wf_router n r2 \<and>
    (\<forall>ev \<in> set evs. \<exists>e. shardEngine r2 (evShardID ev) = Some e \<and> eventPairs ev \<subseteq> foundPairs e)"
proof -
  have inv: "service_inv n (s, now, evs)"
    by (rule service_inv_run [OF assms(4) service_inv_start [OF assms(1-3)]])
  then have w: "wf_router n (svRouter s)" by (simp add: service_inv_def)
  have "\<exists>e now. wf_engine e \<and> index (memIndex e) = [] \<and> backed now (disks' i) e \<and> shardPairs (svRouter s) i \<subseteq> foundPairs e"
    if i: "0 \<le> i \<and> i < n" for i
  proof -
    obtain e where "shardEngine (svRouter s) i = Some e" using wf_router_shardEngine(1) [OF w] i by blast
    from shutdown_durable [OF inv assms(5-7) this] this show ?thesis by (auto simp: shardPairs_def)
  qed
  then have "\<exists>r. NewRouter sys2 mx2 n disks' = (Inr r, disks') \<and> wf_router n r \<and>
      (\<forall>i. 0 \<le> i \<and> i < n \<longrightarrow> shardPairs (svRouter s) i \<subseteq> shardPairs r i)"
    by (rule reopen_finds [OF assms(1,8)])
  then obtain r2 where r2: "NewRouter sys2 mx2 n disks' = (Inr r2, disks')"
    "wf_router n r2" "\<forall>i. 0 \<le> i \<and> i < n \<longrightarrow> shardPairs (svRouter s) i \<subseteq> shardPairs r2 i" by blast
  have held: "\<exists>e. shardEngine r2 (evShardID ev) = Some e \<and> eventPairs ev \<subseteq> foundPairs e" if ev: "ev \<in> set evs" for ev
  proof -
    have i: "0 \<le> evShardID ev \<and> evShardID ev < n" using service_run_range [OF assms(4)] ev by simp
    then obtain e where "shardEngine r2 (evShardID ev) = Some e" using wf_router_shardEngine(1) [OF r2(2)] by blast
    with inv ev r2(3) i show ?thesis by (force simp: service_inv_def shardPairs_def)
  qed
  with r2(1,2) show ?thesis by blast
qed


text \<open>One message to eight fresh shards, then the shutdown a nanosecond later.\<close>

lemma Flush_calm:
  assumes "wf_engine e" and "mem_fits (memIndex e)"
  shows "fst (Flush (\<lambda>_. None) (\<lambda>_. None) nano d e) = None"
proof -
  obtain err e' d' where f: "Flush (\<lambda>_. None) (\<lambda>_. None) nano d e = (err, e', d')" by (metis prod_cases3)
  have m: "wf_mem (memIndex e)" using assms(1) by (simp add: wf_engine_def)
  from m assms(2) f have "err = None"
  proof (cases rule: Flush_cases)
    case (failed werr)
    then show ?thesis using Write_no_fault [of "Snapshot (memIndex e)" "\<lambda>_. None" nano d] f by (auto simp: Flush_def Let_def split: if_splits)
  qed auto
  then show ?thesis by (simp add: f)
qed

lemma shutdown_calm:
  assumes "wf_router n (svRouter s)" and "\<forall>i e. shardEngine (svRouter s) i = Some e \<longrightarrow> mem_fits (memIndex e)"
    and "\<And>i. envIO (sys i) = (\<lambda>_. None)" and "\<And>i. envOpen (sys i) = (\<lambda>_. None)"
  shows "fst (shutdown sys s) = None"
proof -
  obtain ferr r' d' where f: "FlushAll sys (svDisks s) (svRouter s) = (ferr, r', d')" by (metis prod_cases3)
  have d: "distinct (map fst (rtEngines (svRouter s)))" using assms(1) by (simp add: wf_router_def)
  have "fst (flushShard sys (svDisks s) i e) = None" if "(i, e) \<in> set (rtEngines (svRouter s))" for i e
  proof -
    have "shardEngine (svRouter s) i = Some e" using that d by (simp add: shardEngine_def)
    then show ?thesis using assms wf_router_shardEngine(2) [OF assms(1)] by (simp add: flushShard_def Flush_calm)
  qed
  then have "ferr = None" using FlushAll_spec(5) [OF d f] by blast
  with f show ?thesis by (simp add: shutdown_def)
qed

definition laterSys :: "int \<Rightarrow> sysenv" where
  "laterSys i = (calmSys i)\<lparr>envNano := 18\<rparr>"

lemma mem_fits_freshEvent: "mem_fits (AddDocument NewMemoryIndex ''d2'' ''Go'' ''tour'')"
proof -
  have "int64_entries (Snapshot (AddDocument NewMemoryIndex ''d2'' ''Go'' ''tour''))" by code_simp
  moreover have "length (postingsImage (Snapshot (AddDocument NewMemoryIndex ''d2'' ''Go'' ''tour''))) < 400"
    "length (dictImage (Snapshot (AddDocument NewMemoryIndex ''d2'' ''Go'' ''tour''))) < 400"
    by code_simp+
  ultimately show ?thesis by (simp add: mem_fits_def segment_fits_iff)
qed

lemma mem_fits_empty: "mem_fits NewMemoryIndex"
proof -
  have "int64_entries (Snapshot NewMemoryIndex)" by code_simp
  moreover have "length (postingsImage (Snapshot NewMemoryIndex)) < 400" "length (dictImage (Snapshot NewMemoryIndex)) < 400"
    by code_simp+
  ultimately show ?thesis by (simp add: mem_fits_def segment_fits_iff)
qed

lemma sample_run:
  "\<exists>r s e. NewRouter calmSys 4096 totalShards (\<lambda>_. []) = (Inr r, \<lambda>_. []) \<and>
     service_step totalShards (\<lambda>_. Some sampleEvent) (None :: (unit \<Rightarrow> string \<Rightarrow> string \<Rightarrow> unit) option)
       (\<lparr>svRouter = r, svDisks = \<lambda>_. [], svRows = (), svCount = 0\<rparr>, 17, []) (s, 18, [sampleEvent]) \<and>
     wf_router totalShards (svRouter s) \<and> (\<forall>i e. shardEngine (svRouter s) i = Some e \<longrightarrow> mem_fits (memIndex e)) \<and>
     shardEngine (svRouter s) 1 = Some e \<and> memIndex e = AddDocument NewMemoryIndex ''d2'' ''Go'' ''tour''"
proof -
  let ?dec = "\<lambda>_ :: string. Some sampleEvent" and ?ss = "None :: (unit \<Rightarrow> string \<Rightarrow> string \<Rightarrow> unit) option"
  obtain r where r: "NewRouter calmSys 4096 totalShards (\<lambda>_. []) = (Inr r, \<lambda>_. [])" "wf_router totalShards r"
    "\<forall>i e. shardEngine r i = Some e \<longrightarrow> e = freshEngine" using NewRouter_fresh by blast
  have mem: "memIndex freshEngine = NewMemoryIndex" by (simp add: freshEngine_def)
  let ?s0 = "\<lparr>svRouter = r, svDisks = \<lambda>_. [], svRows = (), svCount = 0\<rparr>"
  have ev: "evShardID sampleEvent = 1" "evDocumentID sampleEvent = ''d2''" "evTitle sampleEvent = ''Go''"
    "evBody sampleEvent = ''tour''" by (simp_all add: sampleEvent_def)
  have one: "shardEngine r 1 = Some freshEngine"
    using wf_router_shardEngine(1) [OF r(2), of 1] r(3) by (cases "shardEngine r 1") (auto simp: totalShards_def)
  obtain err s where h: "indexHandler ?dec ?ss (\<lambda>_. calmSys) [] [] ?s0 = (err, s)" by fastforce
  have "service_step totalShards ?dec ?ss (?s0, 17, []) (s, 18, [] @ routed totalShards (Some sampleEvent))"
    by (rule service_step.message [OF h])
      (use one mem_fits_freshEvent in \<open>simp_all add: clocked_def calmSys_def eventFits_def ev freshEngine_def\<close>)
  moreover have "routed totalShards (Some sampleEvent) = [sampleEvent]" by (simp add: routed_def ev totalShards_def)
  ultimately have step: "service_step totalShards ?dec ?ss (?s0, 17, []) (s, 18, [sampleEvent])" by simp
  have good: "\<forall>i. goodDir 17 ((\<lambda>_. []) i)" by (simp add: goodDir_empty)
  have "service_inv totalShards (s, 18, [sampleEvent])"
    by (rule service_inv_step [OF step service_inv_start [OF _ good r(1)]]) (simp add: totalShards_def)
  then have w: "wf_router totalShards (svRouter s)" by (simp add: service_inv_def)
  obtain ierr e' d' where i: "IndexDocument (\<lambda>_. None) (\<lambda>_. None) 17 [] freshEngine ''d2'' ''Go'' ''tour'' = (ierr, e', d')"
    by (metis prod_cases3)
  have "Size (AddDocument NewMemoryIndex ''d2'' ''Go'' ''tour'') < 4096" by code_simp
  then have e': "ierr = None \<and> memIndex e' = AddDocument NewMemoryIndex ''d2'' ''Go'' ''tour''"
    using i by (auto simp: IndexDocument_def Let_def freshEngine_def)
  with HandleMessageSharded_routed [of ?dec "[]" sampleEvent r freshEngine calmSys "\<lambda>_. []" ierr e' d' ?ss "()"] i h one
  have s: "svRouter s = r\<lparr>rtEngines := AList.update 1 e' (rtEngines r)\<rparr>" by (auto simp: indexHandler_def ev calmSys_def)
  have fresh: "mem_fits (memIndex e)" if "map_of (rtEngines r) i = Some e" for i e
    using r(3) that mem_fits_empty [folded mem] unfolding shardEngine_def by metis
  have "\<forall>i e. shardEngine (svRouter s) i = Some e \<longrightarrow> mem_fits (memIndex e)"
    using fresh e' mem_fits_freshEvent by (auto simp: s shardEngine_def update_conv' split: if_splits)
  moreover have "shardEngine (svRouter s) 1 = Some e'" by (simp add: s shardEngine_def update_conv')
  ultimately show ?thesis using r(1) step w e' by blast
qed


section \<open>The service as a run\<close>

text \<open>
  The messages that the consumer loop hands out are message steps of a run, when their times increase and the
  memory index fits before each of them.
\<close>

lemma handleAll_run:
  assumes "\<And>k. clocked (time k) (env k) (time (Suc k))" and "svCount s = 0"
    and "\<forall>pre m post. msgs = pre @ m # post \<longrightarrow>
      eventFits (svRouter (handleAll (indexHandler decode setStatus env) pre s)) (decode (msgValue m))"
  shows "svCount (handleAll (indexHandler decode setStatus env) msgs s) = length msgs \<and>
    service_run n decode setStatus (s, time 0, [])
      (handleAll (indexHandler decode setStatus env) msgs s, time (length msgs), concat (map (routed n \<circ> decode \<circ> msgValue) msgs))"
  using assms(3)
proof (induction msgs rule: rev_induct)
  case Nil
  then show ?case by (simp add: handleAll_def assms(2) run_refl)
next
  case (snoc m msgs)
  let ?h = "indexHandler decode setStatus env" and ?s = "handleAll (indexHandler decode setStatus env) msgs s"
  have IH: "svCount ?s = length msgs" "service_run n decode setStatus (s, time 0, [])
      (?s, time (length msgs), concat (map (routed n \<circ> decode \<circ> msgValue) msgs))"
    using snoc.IH snoc.prems by (metis append_assoc append_Cons)+
  obtain err s' where h: "?h (msgKey m) (msgValue m) ?s = (err, s')" by fastforce
  have s': "handleAll ?h (msgs @ [m]) s = s'" using h by (simp add: handleAll_def)
  have "service_step n decode setStatus (?s, time (length msgs), concat (map (routed n \<circ> decode \<circ> msgValue) msgs))
      (s', time (Suc (length msgs)), concat (map (routed n \<circ> decode \<circ> msgValue) msgs) @ routed n (decode (msgValue m)))"
    using snoc.prems assms(1) [of "length msgs"] by (intro service_step.message [OF h]) (auto simp: IH(1))
  from run_step [OF IH(2) this] have "service_run n decode setStatus (s, time 0, [])
      (s', time (length (msgs @ [m])), concat (map (routed n \<circ> decode \<circ> msgValue) (msgs @ [m])))" by simp
  moreover have "svCount s' = length (msgs @ [m])" using h IH(1) by (auto simp: indexHandler_def split: prod.splits)
  ultimately show ?case unfolding s' by (intro conjI)
qed

theorem indexerMain_run:
  assumes "kafka_reader ops plog pos committed"
    and "indexerMain ops decode setStatus env0 env envEnd mx ctxs rd disks d = (Stopped out ferr, rd', disks', d')"
    and "\<And>k. clocked (time k) (env k) (time (Suc k))"
  shows "\<exists>r s msgs. NewRouter env0 mx numShardsConst disks = (Inr r, disks) \<and> advanced plog pos committed rd rd' msgs \<and>
    shutdown envEnd s = (ferr, disks') \<and>
    (let s0 = \<lparr>svRouter = r, svDisks = disks, svRows = d, svCount = 0\<rparr> in
      (\<forall>pre m post. msgs = pre @ m # post \<longrightarrow>
         eventFits (svRouter (handleAll (indexHandler decode setStatus env) pre s0)) (decode (msgValue m))) \<longrightarrow>
      service_run numShardsConst decode setStatus (s0, time 0, [])
        (s, time (length msgs), concat (map (routed numShardsConst \<circ> decode \<circ> msgValue) msgs)))"
proof -
  obtain r disks1 where r: "NewRouter env0 mx numShardsConst disks = (Inr r, disks1)"
    using assms(2) by (auto simp: indexerMain_def split: sum.splits prod.splits)
  then have d: "disks1 = disks" by (rule NewRouter_ok(1)) (simp add: numShardsConst_def)
  let ?s0 = "\<lparr>svRouter = r, svDisks = disks, svRows = d, svCount = 0\<rparr>"
  obtain s where c: "consumerStart ops (indexHandler decode setStatus env) ctxs rd ?s0 = (out, rd', s)"
      and sh: "shutdown envEnd s = (ferr, disks')"
    using assms(2) r d by (auto simp: indexerMain_def split: prod.splits)
  from kafka_reader.consumer_run [OF assms(1) c] obtain msgs
    where m: "advanced plog pos committed rd rd' msgs" "s = handleAll (indexHandler decode setStatus env) msgs ?s0" by blast
  show ?thesis
    using r d m sh handleAll_run [where env = env and time = time and s = ?s0 and n = numShardsConst, OF assms(3)]
    by (intro exI [of _ r] exI [of _ s] exI [of _ msgs]) (auto simp: Let_def)
qed

end
