(* ===== verification/Health.thy ===== *)
theory Health
  imports Prelude
begin

text \<open>
  \<open>pkg/health/health.go\<close>, the health checks behind the readiness probes, and the timeout middleware
  \<open>pkg/middleware/timeout.go\<close>. A check is given by its result; the order of the components in the report stands for the order in which
  Go happens to visit the map.
\<close>

section \<open>Health checks\<close>

definition StatusUp :: string where "StatusUp = ''up''"
definition StatusDown :: string where "StatusDown = ''down''"
definition StatusDegraded :: string where "StatusDegraded = ''degraded''"

lemmas status_defs = StatusUp_def StatusDown_def StatusDegraded_def

record ComponentHealth =
  chStatus :: string
  chMessage :: string
  chLatency :: string

record Report =
  rpStatus :: string
  rpComponents :: "(string \<times> ComponentHealth) list"
  rpTimestamp :: string

type_synonym 'c checker = "(string \<times> ('c \<Rightarrow> ComponentHealth)) list"

definition NewChecker :: "'c checker" where
  "NewChecker = []"

definition Register :: "'c checker \<Rightarrow> string \<Rightarrow> ('c \<Rightarrow> ComponentHealth) \<Rightarrow> 'c checker" where
  "Register c name check = AList.update name check c"

fun statusLoop :: "string \<Rightarrow> (string \<times> ComponentHealth) list \<Rightarrow> string" where
  "statusLoop st [] = st"
| "statusLoop st ((_, ch) # comps) =
     (if chStatus ch = StatusDown then StatusDown
      else if chStatus ch = StatusDegraded then statusLoop StatusDegraded comps
      else statusLoop st comps)"

text \<open>\<open>latency\<close> are the measured times, \<open>now\<close> the formatted time stamp.\<close>

definition Run :: "(string \<Rightarrow> string) \<Rightarrow> string \<Rightarrow> 'c \<Rightarrow> 'c checker \<Rightarrow> Report" where
  "Run latency now ctx checks =
     (let comps = map (\<lambda>(n, ch). (n, (ch ctx)\<lparr>chLatency := latency n\<rparr>)) checks
      in \<lparr>rpStatus = statusLoop StatusUp comps, rpComponents = comps, rpTimestamp = now\<rparr>)"

definition ReadyHandler :: "(string \<Rightarrow> string) \<Rightarrow> string \<Rightarrow> 'c \<Rightarrow> 'c checker \<Rightarrow> int \<times> Report" where
  "ReadyHandler latency now ctx checks =
     (let report = Run latency now ctx checks
      in (if rpStatus report = StatusUp then 200 else 503, report))"

text \<open>The overall status is the worst of the components, in whatever order they are visited.\<close>

lemma statusLoop_worst:
  "st \<noteq> StatusDown \<Longrightarrow> statusLoop st comps =
     (if StatusDown \<in> (chStatus \<circ> snd) ` set comps then StatusDown
      else if StatusDegraded \<in> (chStatus \<circ> snd) ` set comps then StatusDegraded else st)"
  by (induction st comps rule: statusLoop.induct) (auto simp: status_defs)

lemma rpStatus_Run:
  "rpStatus (Run latency now ctx checks) =
     (let sts = (\<lambda>(n, ch). chStatus (ch ctx)) ` set checks
      in if StatusDown \<in> sts then StatusDown else if StatusDegraded \<in> sts then StatusDegraded else StatusUp)"
proof -
  have "(chStatus \<circ> snd) ` set (map (\<lambda>(n, ch). (n, (ch ctx)\<lparr>chLatency := latency n\<rparr>)) checks) =
      (\<lambda>(n, ch). chStatus (ch ctx)) ` set checks" by (force simp: image_iff)
  moreover have "StatusUp \<noteq> StatusDown" by (simp add: status_defs)
  ultimately show ?thesis
    using statusLoop_worst [of StatusUp "map (\<lambda>(n, ch). (n, (ch ctx)\<lparr>chLatency := latency n\<rparr>)) checks"]
    by (simp only: Run_def Let_def Report.select_convs not_False_eq_True simp_thms)
qed

lemma Run_order: "set checks' = set checks \<Longrightarrow> rpStatus (Run latency now ctx checks') = rpStatus (Run latency now ctx checks)"
  by (simp only: rpStatus_Run)

lemma ready_iff:
  "fst (ReadyHandler latency now ctx checks) = 200 \<longleftrightarrow>
     (\<forall>(n, ch) \<in> set checks. chStatus (ch ctx) \<noteq> StatusDown \<and> chStatus (ch ctx) \<noteq> StatusDegraded)"
proof -
  have "StatusDown \<noteq> StatusUp" "StatusDegraded \<noteq> StatusUp" by (simp_all add: status_defs)
  then show ?thesis by (force simp: ReadyHandler_def Let_def rpStatus_Run image_iff)
qed

lemma Register_distinct: "distinct (map fst c) \<Longrightarrow> distinct (map fst (Register c name check))"
  by (simp add: Register_def distinct_update)

section \<open>The timeout middleware\<close>

text \<open>
  The response as the client will see it: the first status code wins and a body without one implies 200.
  \<open>timeoutWriter\<close> additionally remembers whether the handler has written.
\<close>

record reply =
  rCode :: "int option"
  rBody :: string

record timeoutWriter =
  twReply :: reply
  written :: bool

definition ServeHeader :: "int \<Rightarrow> reply \<Rightarrow> reply" where
  "ServeHeader code w = (case rCode w of None \<Rightarrow> w\<lparr>rCode := Some code\<rparr> | Some _ \<Rightarrow> w)"

definition ServeBody :: "string \<Rightarrow> reply \<Rightarrow> reply" where
  "ServeBody bs w = (let w' = ServeHeader 200 w in w'\<lparr>rBody := rBody w' @ bs\<rparr>)"

definition twWriteHeader :: "int \<Rightarrow> timeoutWriter \<Rightarrow> timeoutWriter" where
  "twWriteHeader code tw = tw\<lparr>written := True, twReply := ServeHeader code (twReply tw)\<rparr>"

definition twWrite :: "string \<Rightarrow> timeoutWriter \<Rightarrow> timeoutWriter" where
  "twWrite bs tw = tw\<lparr>written := True, twReply := ServeBody bs (twReply tw)\<rparr>"

text \<open>
  The interleaving of the handler's goroutine and the \<open>select\<close>: the handler's writes, its end, and the end
  of the context. The middleware returns at the first \<open>HandlerDone\<close> or \<open>CtxDone\<close>; \<open>None\<close> if neither has happened.
\<close>

datatype tw_event = HeaderWritten int | BodyWritten string | HandlerDone | CtxDone

definition timeoutBody :: string where
  "timeoutBody = ''{'' @ [CHR 0x22] @ ''error'' @ [CHR 0x22] @ '':'' @ [CHR 0x22] @ ''request timeout'' @ [CHR 0x22] @ ''}'' @ [CHR 0x0A]"

fun Timeout :: "timeoutWriter \<Rightarrow> tw_event list \<Rightarrow> reply option" where
  "Timeout tw [] = None"
| "Timeout tw (HeaderWritten code # evs) = Timeout (twWriteHeader code tw) evs"
| "Timeout tw (BodyWritten bs # evs) = Timeout (twWrite bs tw) evs"
| "Timeout tw (HandlerDone # evs) = Some (twReply tw)"
| "Timeout tw (CtxDone # evs) =
     Some (if \<not> written tw then ServeBody timeoutBody (ServeHeader 504 (twReply tw)) else twReply tw)"

definition newTimeoutWriter :: timeoutWriter where
  "newTimeoutWriter = \<lparr>twReply = \<lparr>rCode = None, rBody = []\<rparr>, written = False\<rparr>"

definition isWrite :: "tw_event \<Rightarrow> bool" where
  "isWrite e \<longleftrightarrow> (case e of HeaderWritten _ \<Rightarrow> True | BodyWritten _ \<Rightarrow> True | _ \<Rightarrow> False)"

lemma isWrite_simps [simp]:
  "isWrite (HeaderWritten code)" "isWrite (BodyWritten bs)" "\<not> isWrite HandlerDone" "\<not> isWrite CtxDone"
  by (simp_all add: isWrite_def)

fun handlerReply :: "reply \<Rightarrow> tw_event list \<Rightarrow> reply" where
  "handlerReply w (HeaderWritten code # evs) = handlerReply (ServeHeader code w) evs"
| "handlerReply w (BodyWritten bs # evs) = handlerReply (ServeBody bs w) evs"
| "handlerReply w evs = w"

text \<open>
  The client gets the 504 exactly when the context ends before the handler wrote anything or returned; otherwise it gets
  what the handler wrote before the middleware returned, which may be cut short.
\<close>

lemma Timeout_alt:
  "Timeout tw evs =
     (case dropWhile isWrite evs of
        [] \<Rightarrow> None
      | e # _ \<Rightarrow> Some (if e = CtxDone \<and> \<not> written tw \<and> takeWhile isWrite evs = []
          then ServeBody timeoutBody (ServeHeader 504 (twReply tw)) else handlerReply (twReply tw) evs))"
  by (induction tw evs rule: Timeout.induct)
    (simp_all add: twWriteHeader_def twWrite_def del: dropWhile_eq_Nil_conv split: list.split)

lemma Timeout_504:
  "Timeout newTimeoutWriter (CtxDone # evs) = Some \<lparr>rCode = Some 504, rBody = timeoutBody\<rparr>"
  by (simp add: newTimeoutWriter_def ServeBody_def ServeHeader_def)

lemma Timeout_handler:
  "list_all isWrite ws \<Longrightarrow> Timeout newTimeoutWriter (ws @ HandlerDone # evs) = Some (handlerReply \<lparr>rCode = None, rBody = []\<rparr> (ws @ HandlerDone # evs))"
  by (simp add: Timeout_alt newTimeoutWriter_def list_all_iff dropWhile_append2)

end
