(* ===== verification/Searcher_Service.thy ===== *)
theory Searcher_Service
  imports Indexer_Service Health
begin

text \<open>
  The searcher of \<open>cmd/searcher/main.go\<close> beside the indexer: it opens the same directories, which the indexer
  keeps writing, and re-scans them every ten seconds. The world is the indexer's service and the searcher's router.
\<close>

section \<open>The searcher\<close>

text \<open>The goroutine that reloads: one environment per tick until the context is done. A panic ends the process.\<close>

fun reloadTicks :: "(int \<Rightarrow> sysenv) list \<Rightarrow> disks \<Rightarrow> Router \<Rightarrow> engine_error + Router" where
  "reloadTicks [] disks r = Inr r"
| "reloadTicks (sys # ticks) disks r =
     (case ReloadAll sys disks r of Inl err \<Rightarrow> Inl err | Inr (n, r') \<Rightarrow> reloadTicks ticks disks r')"

text \<open>The two health checks \<open>main\<close> registers; \<open>redis\<close> is \<open>None\<close> without a client, else the outcome of a ping.\<close>

definition indexEngineCheck :: "Router \<Rightarrow> ComponentHealth" where
  "indexEngineCheck r =
     (if 0 < NumShards r then \<lparr>chStatus = StatusUp, chMessage = show_int (NumShards r) @ '' shards active'', chLatency = []\<rparr>
      else \<lparr>chStatus = StatusDown, chMessage = ''no shards'', chLatency = []\<rparr>)"

definition redisCheck :: "string option option \<Rightarrow> ComponentHealth" where
  "redisCheck redis =
     (case redis of
        None \<Rightarrow> \<lparr>chStatus = StatusDegraded, chMessage = ''not configured'', chLatency = []\<rparr>
      | Some (Some err) \<Rightarrow> \<lparr>chStatus = StatusDegraded, chMessage = err, chLatency = []\<rparr>
      | Some None \<Rightarrow> \<lparr>chStatus = StatusUp, chMessage = [], chLatency = []\<rparr>)"

definition searcherChecker :: "(Router \<times> string option option) checker" where
  "searcherChecker =
     Register (Register NewChecker ''index_engine'' (\<lambda>c. indexEngineCheck (fst c))) ''redis'' (\<lambda>c. redisCheck (snd c))"

text \<open>Ready means shards and a Redis that answers: without Redis, which the service can do without, it reports 503.\<close>

lemma searcher_ready:
  "fst (ReadyHandler latency now (r, redis) searcherChecker) = 200 \<longleftrightarrow> 0 < NumShards r \<and> redis = Some None"
  by (auto simp: ReadyHandler_def Run_def Let_def searcherChecker_def Register_def NewChecker_def indexEngineCheck_def redisCheck_def
      status_defs split: option.splits)

section \<open>The world\<close>

inductive world_step ::
  "int \<Rightarrow> (string \<Rightarrow> IngestEvent option) \<Rightarrow> ('d \<Rightarrow> string \<Rightarrow> string \<Rightarrow> 'd) option \<Rightarrow>
   ('d service \<times> int \<times> IngestEvent list) \<times> Router \<Rightarrow> ('d service \<times> int \<times> IngestEvent list) \<times> Router \<Rightarrow> bool" for n decode setStatus where
  w_indexer: "service_step n decode setStatus c c' \<Longrightarrow> world_step n decode setStatus (c, q) (c', q)"
| w_reload: "ReloadAll sys (svDisks (fst c)) q = Inr (k, q') \<Longrightarrow> world_step n decode setStatus (c, q) (c, q')"

text \<open>The ticks of the reload goroutine while the indexer does nothing.\<close>

lemma reloadTicks_run:
  "reloadTicks ticks (svDisks (fst c)) q = Inr q' \<Longrightarrow> (world_step n decode setStatus)\<^sup>*\<^sup>* (c, q) (c, q')"
proof (induction ticks arbitrary: q)
  case (Cons sys ticks)
  then obtain k q1 where r: "ReloadAll sys (svDisks (fst c)) q = Inr (k, q1)" "reloadTicks ticks (svDisks (fst c)) q1 = Inr q'"
    by (auto split: sum.splits)
  show ?case by (rule converse_rtranclp_into_rtranclp [OF w_reload [OF r(1)] Cons.IH [OF r(2)]])
qed simp

text \<open>Every engine of the searcher is backed by the directory as it is now, and has nothing in memory.\<close>

definition viewer :: "int \<Rightarrow> dir \<Rightarrow> engine \<Rightarrow> bool" where
  "viewer now d e \<longleftrightarrow> wf_engine e \<and> index (memIndex e) = [] \<and> backed now d e"

definition searcher_inv :: "int \<Rightarrow> ('d service \<times> int \<times> IngestEvent list) \<times> Router \<Rightarrow> bool" where
  "searcher_inv n = (\<lambda>((s, now, evs), q). service_inv n (s, now, evs) \<and> wf_router n q \<and>
     (\<forall>i e. shardEngine q i = Some e \<longrightarrow> viewer now (svDisks s i) e))"

text \<open>What the indexer does to a directory keeps every other engine on it backed.\<close>

lemma other_Flush:
  assumes "wf_engine e" and "mem_fits (memIndex e)" and "backed now d x" and "now \<le> nano"
    and "Flush io flt nano d e = (err, e', d')"
  shows "backed (nano + 1) d' x"
proof -
  have m: "wf_mem (memIndex e)" using assms(1) by (simp add: wf_engine_def)
  note W = backed_Write_Inr(1) [OF assms(3,4) wf_entries_Snapshot [OF m assms(2)]]
  from m assms(2,5) show ?thesis
  proof (cases rule: Flush_cases)
    case empty
    then show ?thesis using assms(3,4) by (auto intro: backed_later [where now = now])
  next
    case (failed werr)
    show ?thesis using backed_Write_Inl [OF assms(3) failed(3)] assms(4) by (auto intro: backed_later [where now = now])
  qed (use W in blast)+
qed

lemma other_IndexDocument:
  assumes "wf_engine e" and "mem_fits (AddDocument (memIndex e) docID title body)" and "backed now d x" and "now \<le> nano"
    and "IndexDocument io flt nano d e docID title body = (err, e', d')"
  shows "backed (nano + 1) d' x"
  using assms(5)
proof (cases rule: IndexDocument_cases)
  case buffered
  then show ?thesis using assms(3,4) by (auto intro: backed_later [where now = now])
next
  case (flushed err')
  show ?thesis
    by (rule other_Flush [OF _ _ assms(3,4) flushed(1)]) (use assms(1,2) in \<open>auto simp: wf_engine_def wf_AddDocument\<close>)
qed

lemma other_message:
  assumes "service_inv n (s, now, evs)" and "indexHandler decode setStatus env key value s = (err, s')"
    and "clocked now (env (svCount s)) now'" and "eventFits (svRouter s) (decode value)" and "backed now (svDisks s i) x"
  shows "backed now' (svDisks s' i) x"
proof -
  have w: "wf_router n (svRouter s)" using assms(1) by (simp add: service_inv_def)
  have t: "now \<le> envNano (env (svCount s) j)" "envNano (env (svCount s) j) + 1 \<le> now'" for j
    using assms(3) by (auto simp: clocked_def zless_imp_add1_zle)
  have now: "now \<le> now'" using t [of 0] by simp
  obtain r' disks' d' where h: "HandleMessageSharded decode setStatus (env (svCount s)) value (svDisks s) (svRouter s) (svRows s) =
      (err, r', disks', d')" and s': "svDisks s' = disks'"
    using assms(2) by (auto simp: indexHandler_def split: prod.splits)
  have np: "\<forall>i name. envOpen (env (svCount s) i) name \<noteq> Some ErrPanic" using assms(3) by (simp add: clocked_def)
  from w h assms(4) np show ?thesis
  proof (cases rule: HandleMessageSharded_cases)
    case skipped
    then show ?thesis using assms(5) s' now by (auto intro: backed_later)
  next
    case (indexed ev e ierr e' disk')
    show ?thesis
    proof (cases "i = evShardID ev")
      case True
      have "wf_engine e" using wf_router_shardEngine(2) [OF w indexed(3)] .
      from other_IndexDocument [OF this indexed(4) assms(5) [unfolded True] t(1) indexed(5)] t(2)
      show ?thesis using s' indexed(7) True by (auto intro: backed_later)
    qed (use assms(5) s' indexed(7) now in \<open>auto intro: backed_later\<close>)
  qed
qed

lemma other_step:
  assumes "service_step n decode setStatus (s, now, evs) (s', now', evs')" and "service_inv n (s, now, evs)" and "backed now (svDisks s i) x"
  shows "backed now' (svDisks s' i) x"
  using assms(1)
proof (cases rule: service_step.cases)
  case (message env key v err)
  then show ?thesis using other_message [OF assms(2) _ _ _ assms(3)] by blast
next
  case (tick j e nano io flt err e' d')
  have w: "wf_router n (svRouter s)" using assms(2) by (simp add: service_inv_def)
  from other_Flush [OF wf_router_shardEngine(2) [OF w tick(4)] tick(6) _ tick(7,8)] show ?thesis
    using assms(3) tick(1,2,7) by (cases "i = j") (auto intro: backed_later)
qed

section \<open>Reloading\<close>

text \<open>A reload keeps the engine a viewer; without faults it succeeds and loads every segment.\<close>

lemma viewer_ReloadSegments:
  assumes "viewer now d e" and "ReloadSegments rdErr flt d e = Inr (k, e')"
  shows "viewer now d e'"
proof (cases rdErr)
  case None
  obtain new where new: "e' = e\<lparr>readers := readers e @ new\<rparr>"
    "set new = {r. \<exists>m \<in> set (segNames d) - Name ` set (readers e). tryOpen flt d m = Inr r}"
    by (rule ReloadSegments_readers [OF assms(2) [unfolded None]])
  have "Name r \<in> set (segNames d) \<and> OpenReader d (Name r) = Inr r \<and> wf_reader r" if x: "r \<in> set new" for r
  proof -
    obtain m where m: "m \<in> set (segNames d)" "OpenReader d m = Inr r"
      using x new(2) by (auto simp: tryOpen_def split: option.splits)
    then have "Name r = m" using OpenReader_Name by blast
    with m assms(1) show ?thesis by (auto simp: viewer_def backed_def)
  qed
  with assms(1) show ?thesis by (auto simp: viewer_def wf_engine_def backed_def new(1))
next
  case (Some err)
  with assms show ?thesis by (simp add: ReloadSegments_def)
qed

lemma ReloadSegments_all:
  assumes "viewer now d e"
  shows "\<exists>k e'. ReloadSegments None (\<lambda>_. None) d e = Inr (k, e') \<and> (\<forall>m \<in> set (segNames d). \<forall>r. OpenReader d m = Inr r \<longrightarrow> r \<in> set (readers e'))"
proof -
  have "\<forall>m \<in> set (filter (\<lambda>n. n \<notin> Name ` set (readers e)) (segNames d)). \<exists>r. tryOpen (\<lambda>_. None) d m = Inr r"
    using assms by (auto simp: viewer_def backed_def tryOpen_def)
  then obtain new where "openSegments (\<lambda>_. None) d (filter (\<lambda>n. n \<notin> Name ` set (readers e)) (segNames d)) = Some new"
    using openSegments_all by blast
  then obtain k e' where r: "ReloadSegments None (\<lambda>_. None) d e = Inr (k, e')" by (simp add: ReloadSegments_alt)
  obtain new where new: "e' = e\<lparr>readers := readers e @ new\<rparr>"
    "set new = {r. \<exists>m \<in> set (segNames d) - Name ` set (readers e). tryOpen (\<lambda>_. None) d m = Inr r}"
    by (rule ReloadSegments_readers [OF r])
  have "r' \<in> set (readers e')" if m: "m \<in> set (segNames d)" "OpenReader d m = Inr r'" for m r'
  proof (cases "m \<in> Name ` set (readers e)")
    case True
    then obtain x where "x \<in> set (readers e)" "Name x = m" by blast
    moreover from this have "OpenReader d m = Inr x" using assms by (auto simp: viewer_def backed_def)
    ultimately show ?thesis using m(2) new(1) by simp
  next
    case False
    then show ?thesis using m new by (auto simp: tryOpen_def)
  qed
  with r show ?thesis by blast
qed

text \<open>\<open>ReloadAll\<close> shard by shard.\<close>

lemma reloadLoop_Inr:
  "reloadLoop sys disks tot es = Inr (tot', es') \<Longrightarrow>
    list_all2 (\<lambda>(i, e) (j, e'). j = i \<and> (\<exists>k. ReloadSegments (envReadDir (sys i)) (envOpen (sys i)) (disks i) e = Inr (k, e'))) es es'"
  by (induction es arbitrary: tot es') (auto split: sum.splits prod.splits)

lemma reloadLoop_total:
  "(\<And>i e. (i, e) \<in> set es \<Longrightarrow> \<exists>k e'. ReloadSegments (envReadDir (sys i)) (envOpen (sys i)) (disks i) e = Inr (k, e')) \<Longrightarrow>
    \<exists>x. reloadLoop sys disks tot es = Inr x"
proof (induction es arbitrary: tot)
  case (Cons p es)
  obtain i e where p: "p = (i, e)" by fastforce
  obtain k e' where r: "ReloadSegments (envReadDir (sys i)) (envOpen (sys i)) (disks i) e = Inr (k, e')" using Cons.prems p by fastforce
  obtain x where "reloadLoop sys disks (tot + k) es = Inr x" using Cons by fastforce
  with r show ?case by (cases x) (simp add: p)
qed simp

lemma list_all2_map_of:
  assumes "list_all2 (\<lambda>(i, e) (j, e'). j = i \<and> R i e e') es es'"
  shows "map fst es' = map fst es"
    and "map_of es' i = Some e' \<Longrightarrow> \<exists>e. map_of es i = Some e \<and> R i e e'"
  using assms by (induction es es' rule: list_all2_induct) (auto split: if_splits)

lemma ReloadAll_shards:
  assumes "ReloadAll sys disks q = Inr (k, q')"
  shows "map fst (rtEngines q') = map fst (rtEngines q)" and "numShards q' = numShards q"
    and "shardEngine q' i = Some e' \<Longrightarrow> \<exists>e n. shardEngine q i = Some e \<and>
      ReloadSegments (envReadDir (sys i)) (envOpen (sys i)) (disks i) e = Inr (n, e')"
proof -
  obtain es where es: "reloadLoop sys disks 0 (rtEngines q) = Inr (k, es)" and q': "q' = q\<lparr>rtEngines := es\<rparr>"
    using assms by (auto simp: ReloadAll_def split: sum.splits)
  note L = list_all2_map_of [OF reloadLoop_Inr [OF es]]
  show "map fst (rtEngines q') = map fst (rtEngines q)" "numShards q' = numShards q" using L(1) q' by simp_all
  show "\<exists>e n. shardEngine q i = Some e \<and> ReloadSegments (envReadDir (sys i)) (envOpen (sys i)) (disks i) e = Inr (n, e')"
    if "shardEngine q' i = Some e'" using L(2) [of i e'] that by (simp add: shardEngine_def q')
qed

lemma searcher_inv_reload:
  assumes "searcher_inv n ((s, now, evs), q)" and "ReloadAll sys (svDisks s) q = Inr (k, q')"
  shows "searcher_inv n ((s, now, evs), q')"
proof -
  note R = ReloadAll_shards [OF assms(2)]
  have w: "wf_router n q" using assms(1) by (simp add: searcher_inv_def)
  have v: "viewer now (svDisks s i) e'" if "shardEngine q' i = Some e'" for i e'
    using R(3) [OF that] viewer_ReloadSegments assms(1) by (fastforce simp: searcher_inv_def)
  have "fst ` set (rtEngines q') = fst ` set (rtEngines q)" by (metis R(1) list.set_map)
  then have d: "distinct (map fst (rtEngines q'))" "fst ` set (rtEngines q') = {0..<n}" "numShards q' = n"
    using w by (simp_all add: wf_router_def R(1,2))
  then have "wf_engine e" if "(i, e) \<in> set (rtEngines q')" for i e
    using v [of i e] that by (simp add: shardEngine_def viewer_def)
  with d have "wf_router n q'" by (auto simp: wf_router_def)
  with v assms(1) show ?thesis by (simp add: searcher_inv_def)
qed

lemma searcher_inv_step:
  assumes "world_step n decode setStatus c c'" and "searcher_inv n c"
  shows "searcher_inv n c'"
  using assms
proof (induction rule: world_step.induct)
  case (w_indexer c c' q)
  obtain s now evs s' now' evs' where c: "c = (s, now, evs)" "c' = (s', now', evs')" by (metis prod_cases3)
  have "viewer now' (svDisks s' i) e" if "shardEngine q i = Some e" for i e
    using other_step [OF w_indexer(1) [unfolded c]] w_indexer(2) that by (simp add: searcher_inv_def viewer_def c)
  then show ?case using service_inv_step [OF w_indexer(1)] w_indexer(2) by (simp add: searcher_inv_def c)
next
  case (w_reload sys c q k q')
  obtain s now evs where c: "c = (s, now, evs)" by (metis prod_cases3)
  show ?case using searcher_inv_reload w_reload by (simp add: c)
qed

lemma ReloadAll_all:
  assumes "searcher_inv n ((s, now, evs), q)" and "calm sys"
  shows "\<exists>k q'. ReloadAll sys (svDisks s) q = Inr (k, q') \<and>
    (\<forall>i e. shardEngine (svRouter s) i = Some e \<longrightarrow> index (memIndex e) = [] \<longrightarrow> foundPairs e \<subseteq> shardPairs q' i)"
proof -
  have c: "envReadDir (sys i) = None" "envOpen (sys i) = (\<lambda>_. None)" for i using assms(2) by (simp_all add: calm_def)
  have w: "wf_router n q" "wf_router n (svRouter s)" and v: "\<And>i e. shardEngine q i = Some e \<Longrightarrow> viewer now (svDisks s i) e"
    and b: "\<And>i e. shardEngine (svRouter s) i = Some e \<Longrightarrow> backed now (svDisks s i) e"
    using assms(1) by (simp_all add: searcher_inv_def service_inv_def)
  have "\<exists>k e'. ReloadSegments (envReadDir (sys i)) (envOpen (sys i)) (svDisks s i) e = Inr (k, e')" if "(i, e) \<in> set (rtEngines q)" for i e
  proof -
    have "shardEngine q i = Some e" using that w(1) by (simp add: shardEngine_def wf_router_def)
    from ReloadSegments_all [OF v [OF this]] show ?thesis unfolding c by blast
  qed
  then obtain k q' where q': "ReloadAll sys (svDisks s) q = Inr (k, q')"
    using reloadLoop_total [of "rtEngines q" sys "svDisks s" 0] by (auto simp: ReloadAll_def)
  have inv: "searcher_inv n ((s, now, evs), q')" by (rule searcher_inv_reload [OF assms(1) q'])
  have "foundPairs e \<subseteq> shardPairs q' i" if e: "shardEngine (svRouter s) i = Some e" and m: "index (memIndex e) = []" for i e
  proof -
    obtain e' where e': "shardEngine q' i = Some e'"
      using wf_router_shardEngine(1) [OF w(2), of i] wf_router_shardEngine(1) [of n q' i] e inv by (force simp: searcher_inv_def)
    then obtain e0 j where e0: "shardEngine q i = Some e0" "ReloadSegments None (\<lambda>_. None) (svDisks s i) e0 = Inr (j, e')"
      using ReloadAll_shards(3) [OF q'] c by metis
    have "\<forall>m \<in> set (segNames (svDisks s i)). \<forall>r. OpenReader (svDisks s i) m = Inr r \<longrightarrow> r \<in> set (readers e')"
      using ReloadSegments_all [OF v [OF e0(1)]] e0(2) by auto
    then have "set (readers e) \<subseteq> set (readers e')" using b [OF e] by (auto simp: backed_def)
    moreover have "memPairs (memIndex e) = {}" using m by (simp add: memPairs_def memSearch_def)
    moreover have "wf_engine e" "wf_engine e'" using wf_router_shardEngine(2) [OF w(2) e] inv e' by (auto simp: searcher_inv_def viewer_def)
    ultimately show ?thesis using e' by (auto simp: foundPairs_wf shardPairs_def readerPairs_def)
  qed
  with q' show ?thesis by blast
qed

lemma searcher_inv_start:
  assumes "0 \<le> n" and "\<forall>i. goodDir now (disks i)" and "NewRouter sys mx n disks = (Inr r, disks0)"
    and "NewRouter sys1 mx1 n disks = (Inr q, disks1)"
  shows "searcher_inv n ((\<lparr>svRouter = r, svDisks = disks0, svRows = d, svCount = 0\<rparr>, now, []), q)"
proof -
  have "service_inv n (\<lparr>svRouter = q, svDisks = disks1, svRows = d, svCount = 0\<rparr>, now, [])" by (rule service_inv_start [OF assms(1,2,4)])
  then have q: "wf_router n q" "\<And>i e. shardEngine q i = Some e \<Longrightarrow> backed now (disks i) e"
    using NewRouter_ok(1) [OF assms(4,1)] by (simp_all add: service_inv_def)
  have "viewer now (disks i) e" if "shardEngine q i = Some e" for i e
  proof -
    have "0 \<le> i \<and> i < n" using wf_router_shardEngine(1) [OF q(1), of i] that by auto
    from NewRouter_ok(5) [OF assms(4,1) this] that have "memIndex e = NewMemoryIndex" using NewEngine_readers(1) by fastforce
    with q(2) [OF that] wf_router_shardEngine(2) [OF q(1) that] show ?thesis by (simp add: viewer_def NewMemoryIndex_def)
  qed
  with q(1) service_inv_start [OF assms(1-3)] NewRouter_ok(1) [OF assms(3,1)] show ?thesis by (simp add: searcher_inv_def)
qed

text \<open>
  The searcher catches up with the indexer: both start on the same directories of readable segments, the indexer handles messages and
  flushes while the searcher reloads at any time, with any faults. Whenever the searcher then reloads without a
  fault, the reload succeeds, and every document routed to a shard whose memory the indexer has flushed is
  found by the searcher's engine of that shard under every term of its title and body.
\<close>

theorem searcher_catches_up:
  assumes "0 \<le> n" and "\<forall>i. goodDir now0 (disks i)" and "NewRouter sys0 mx n disks = (Inr r, disks0)"
    and "NewRouter sys1 mx1 n disks = (Inr q, disks1)"
    and "(world_step n decode setStatus)\<^sup>*\<^sup>* ((\<lparr>svRouter = r, svDisks = disks0, svRows = rows, svCount = 0\<rparr>, now0, []), q) ((s, now, evs), q1)"
    and "calm sys"
  shows "\<exists>k q2. ReloadAll sys (svDisks s) q1 = Inr (k, q2) \<and> wf_router n q2 \<and>
    (\<forall>ev \<in> set evs. \<forall>e. shardEngine (svRouter s) (evShardID ev) = Some e \<and> index (memIndex e) = [] \<longrightarrow>
       (\<exists>e2. Route q2 (evShardID ev) = Inr e2 \<and> (\<forall>t \<in> set (termsOf (evTitle ev) @ termsOf (evBody ev)).
          \<exists>ps. searchTerm e2 t = Inr ps \<and> evDocumentID ev \<in> DocID ` set ps)))"
proof -
  have inv: "searcher_inv n ((s, now, evs), q1)"
    using assms(5) searcher_inv_start [OF assms(1-4)] by (induction rule: rtranclp_induct) (auto intro: searcher_inv_step)
  obtain k q2 where q2: "ReloadAll sys (svDisks s) q1 = Inr (k, q2)"
    "\<And>i e. shardEngine (svRouter s) i = Some e \<Longrightarrow> index (memIndex e) = [] \<Longrightarrow> foundPairs e \<subseteq> shardPairs q2 i"
    using ReloadAll_all [OF inv assms(6)] by blast
  have w: "wf_router n q2" using searcher_inv_reload [OF inv q2(1)] by (simp add: searcher_inv_def)
  have "\<exists>e2. Route q2 (evShardID ev) = Inr e2 \<and> (\<forall>t \<in> set (termsOf (evTitle ev) @ termsOf (evBody ev)).
      \<exists>ps. searchTerm e2 t = Inr ps \<and> evDocumentID ev \<in> DocID ` set ps)"
    if ev: "ev \<in> set evs" and e: "shardEngine (svRouter s) (evShardID ev) = Some e" "index (memIndex e) = []" for ev e
  proof -
    have "eventPairs ev \<subseteq> shardPairs (svRouter s) (evShardID ev)" using inv ev by (simp add: searcher_inv_def service_inv_def)
    then have "eventPairs ev \<subseteq> foundPairs e" by (simp add: shardPairs_def e(1))
    then have f: "eventPairs ev \<subseteq> shardPairs q2 (evShardID ev)" using q2(2) [OF e] by blast
    obtain e2 where e2: "shardEngine q2 (evShardID ev) = Some e2"
      using e(1) wf_router_shardEngine(1) [OF w, of "evShardID ev"] wf_router_shardEngine(1) [of n "svRouter s" "evShardID ev"] inv
      by (force simp: searcher_inv_def service_inv_def)
    have "(evDocumentID ev, t) \<in> foundPairs e2" if "t \<in> set (termsOf (evTitle ev) @ termsOf (evBody ev))" for t
      using that f e2 by (auto simp: eventPairs_def docPairs_def shardPairs_def)
    with e2 show ?thesis by (intro exI [of _ e2]) (simp add: Route_shardEngine foundPairs_def)
  qed
  with q2(1) w show ?thesis by blast
qed

text \<open>One message, the flush of its shard, and a searcher that was started before.\<close>

theorem searcher_catches_up_witness:
  "\<exists>r s k q2 e2 ps. NewRouter calmSys 4096 totalShards (\<lambda>_. []) = (Inr r, \<lambda>_. []) \<and>
     (world_step totalShards (\<lambda>_. Some sampleEvent) (None :: (unit \<Rightarrow> string \<Rightarrow> string \<Rightarrow> unit) option))\<^sup>*\<^sup>*
       ((\<lparr>svRouter = r, svDisks = \<lambda>_. [], svRows = (), svCount = 0\<rparr>, 17, []), r) ((s, 19, [sampleEvent]), r) \<and>
     ReloadAll calmSys (svDisks s) r = Inr (k, q2) \<and> Route q2 1 = Inr e2 \<and> searchTerm e2 ''tour'' = Inr ps \<and> ''d2'' \<in> DocID ` set ps"
proof -
  let ?dec = "\<lambda>_ :: string. Some sampleEvent" and ?ss = "None :: (unit \<Rightarrow> string \<Rightarrow> string \<Rightarrow> unit) option"
  obtain r s e where r: "NewRouter calmSys 4096 totalShards (\<lambda>_. []) = (Inr r, \<lambda>_. [])"
    and step: "service_step totalShards ?dec ?ss (\<lparr>svRouter = r, svDisks = \<lambda>_. [], svRows = (), svCount = 0\<rparr>, 17, []) (s, 18, [sampleEvent])"
    and w: "wf_router totalShards (svRouter s)" and fits: "\<forall>i e. shardEngine (svRouter s) i = Some e \<longrightarrow> mem_fits (memIndex e)"
    and e: "shardEngine (svRouter s) 1 = Some e" "memIndex e = AddDocument NewMemoryIndex ''d2'' ''Go'' ''tour''"
    using sample_run by blast
  have wf: "wf_engine e" "mem_fits (memIndex e)" using wf_router_shardEngine(2) [OF w e(1)] fits e(1) by auto
  obtain e' d' where f: "Flush (\<lambda>_. None) (\<lambda>_. None) 18 (svDisks s 1) e = (None, e', d')"
    using Flush_calm [OF wf] by (metis prod_cases3 fst_conv)
  have m: "index (memIndex e') = []" by (rule Flush_None_empty [OF wf f])
  define s1 where "s1 = s\<lparr>svRouter := (svRouter s)\<lparr>rtEngines := AList.update 1 e' (rtEngines (svRouter s))\<rparr>, svDisks := (svDisks s)(1 := d')\<rparr>"
  have "0 < DocCount (AddDocument NewMemoryIndex ''d2'' ''Go'' ''tour'')" by code_simp
  then have "service_step totalShards ?dec ?ss (s, 18, [sampleEvent]) (s1, 18 + 1, [sampleEvent])"
    unfolding s1_def by (intro service_step.tick [OF e(1) _ wf(2) _ f]) (simp_all add: e(2))
  from w_indexer [OF step, of r] w_indexer [OF this, of r]
  have run: "(world_step totalShards ?dec ?ss)\<^sup>*\<^sup>* ((\<lparr>svRouter = r, svDisks = \<lambda>_. [], svRows = (), svCount = 0\<rparr>, 17, []), r) ((s1, 19, [sampleEvent]), r)"
    by (simp add: converse_rtranclp_into_rtranclp)
  have c: "calm calmSys" "0 \<le> totalShards" "\<forall>i. goodDir 17 ((\<lambda>_. []) i)" by (simp_all add: calmSys_def calm_def totalShards_def goodDir_empty)
  have t: "''tour'' \<in> set (termsOf ''Go'' @ termsOf ''tour'')" by code_simp
  have one: "shardEngine (svRouter s1) 1 = Some e'" by (simp add: s1_def shardEngine_def update_conv')
  have "\<exists>k q2. ReloadAll calmSys (svDisks s1) r = Inr (k, q2) \<and>
      (\<exists>e2. Route q2 1 = Inr e2 \<and> (\<forall>t \<in> set (termsOf ''Go'' @ termsOf ''tour''). \<exists>ps. searchTerm e2 t = Inr ps \<and> ''d2'' \<in> DocID ` set ps))"
    using searcher_catches_up [OF c(2,3) r r run c(1)] one m by (auto simp: sampleEvent_def)
  with r run t show ?thesis by blast
qed

end
