(* ===== verification/Rpc.thy ===== *)
theory Rpc
  imports Json "HOL-Library.Word"
begin

text \<open>
  The RPC layer of \<open>pkg/grpc\<close>: JSON values over a connection. The server decodes requests from the bytes
  that arrive, dispatches them by method name and writes a response each; the client writes a request and decodes the
  next response. Both work on the bytes themselves, so that what is left over in a buffer matters for the
  next call. Numbers that are decoded into an \<open>any\<close> become \<open>float64\<close>; \<open>viaFloat\<close> is the literal that
  \<open>encoding/json\<close> prints for such a number, \<open>None\<close> if it is out of range.
\<close>

section \<open>Wire formats\<close>

text \<open>The raw \<open>Params\<close> are represented by the value they parse to; \<open>None\<close> when the field is absent.\<close>

record Request =
  Method :: string
  rqID :: string
  Params :: "json option"

text \<open>An \<open>any\<close> for marshalling: nil, a value with the JSON it marshals to, or a value that does not marshal.\<close>

datatype anyval = AnyNil | AnyVal json | AnyBad

record Response =
  rsID :: string
  Data :: anyval
  rsError :: string

definition jsonRequest :: "Request \<Rightarrow> json" where
  "jsonRequest req = JObj [(''method'', JStr (Method req)), (''id'', JStr (rqID req)),
     (''params'', case Params req of None \<Rightarrow> JNull | Some v \<Rightarrow> v)]"

definition jsonResponse :: "Response \<Rightarrow> json option" where
  "jsonResponse resp =
     (let err = (if rsError resp = [] then [] else [(''error'', JStr (rsError resp))])
      in case Data resp of
           AnyNil \<Rightarrow> Some (JObj ((''id'', JStr (rsID resp)) # err))
         | AnyVal v \<Rightarrow> Some (JObj ((''id'', JStr (rsID resp)) # (''data'', v) # err))
         | AnyBad \<Rightarrow> None)"

text \<open>\<open>Encoder.Encode\<close>: the value and a newline.\<close>

definition encodeLine :: "json \<Rightarrow> string" where
  "encodeLine v = render v @ [CHR 0x0A]"

text \<open>\<open>Decoder.Decode\<close>: the next value of the bytes, and the bytes after it.\<close>

definition nextValue :: "string \<Rightarrow> (json \<times> string) option" where
  "nextValue bs = parseValue (2 * length bs + 2) bs"

fun decodeRequestFields :: "Request \<Rightarrow> (string \<times> json) list \<Rightarrow> Request option" where
  "decodeRequestFields q [] = Some q"
| "decodeRequestFields q ((k, v) # ms) =
     (if keyIs ''method'' k then
        (case decodeString (Method q) v of None \<Rightarrow> None | Some x \<Rightarrow> decodeRequestFields (q\<lparr>Method := x\<rparr>) ms)
      else if keyIs ''id'' k then
        (case decodeString (rqID q) v of None \<Rightarrow> None | Some x \<Rightarrow> decodeRequestFields (q\<lparr>rqID := x\<rparr>) ms)
      else if keyIs ''params'' k then decodeRequestFields (q\<lparr>Params := Some v\<rparr>) ms
      else decodeRequestFields q ms)"

definition decodeRequest :: "json \<Rightarrow> Request option" where
  "decodeRequest v =
     (case v of
        JObj ms \<Rightarrow> decodeRequestFields \<lparr>Method = [], rqID = [], Params = None\<rparr> ms
      | JNull \<Rightarrow> Some \<lparr>Method = [], rqID = [], Params = None\<rparr>
      | _ \<Rightarrow> None)"

text \<open>
  A value decoded into an \<open>any\<close> and marshalled again: objects are Go maps, whose last duplicate wins and whose
  keys are printed in order.
\<close>

definition sortedMembers :: "(string \<times> json) list \<Rightarrow> (string \<times> json) list" where
  "sortedMembers ms = sort_key fst (AList.clearjunk (rev ms))"

fun viaAny :: "(string \<Rightarrow> string option) \<Rightarrow> json \<Rightarrow> json option"
  and viaAnyList :: "(string \<Rightarrow> string option) \<Rightarrow> json list \<Rightarrow> json list option"
  and viaAnyMembers :: "(string \<Rightarrow> string option) \<Rightarrow> (string \<times> json) list \<Rightarrow> (string \<times> json) list option" where
  "viaAny fl (JNum l) = map_option JNum (fl l)"
| "viaAny fl (JArr vs) = map_option JArr (viaAnyList fl vs)"
| "viaAny fl (JObj ms) = map_option (\<lambda>ms'. JObj (sortedMembers ms')) (viaAnyMembers fl ms)"
| "viaAny fl JNull = Some JNull"
| "viaAny fl (JBool x) = Some (JBool x)"
| "viaAny fl (JStr s) = Some (JStr s)"
| "viaAnyList fl [] = Some []"
| "viaAnyList fl (v # vs) =
     (case viaAny fl v of None \<Rightarrow> None | Some w \<Rightarrow> map_option ((#) w) (viaAnyList fl vs))"
| "viaAnyMembers fl [] = Some []"
| "viaAnyMembers fl ((k, v) # ms) =
     (case viaAny fl v of None \<Rightarrow> None | Some w \<Rightarrow> map_option ((#) (k, w)) (viaAnyMembers fl ms))"

definition decodeAny :: "(string \<Rightarrow> string option) \<Rightarrow> json \<Rightarrow> anyval option" where
  "decodeAny fl v =
     (case viaAny fl v of None \<Rightarrow> None | Some JNull \<Rightarrow> Some AnyNil | Some w \<Rightarrow> Some (AnyVal w))"

fun decodeResponseFields :: "(string \<Rightarrow> string option) \<Rightarrow> Response \<Rightarrow> (string \<times> json) list \<Rightarrow> Response option" where
  "decodeResponseFields fl p [] = Some p"
| "decodeResponseFields fl p ((k, v) # ms) =
     (if keyIs ''id'' k then
        (case decodeString (rsID p) v of None \<Rightarrow> None | Some x \<Rightarrow> decodeResponseFields fl (p\<lparr>rsID := x\<rparr>) ms)
      else if keyIs ''data'' k then
        (case decodeAny fl v of None \<Rightarrow> None | Some x \<Rightarrow> decodeResponseFields fl (p\<lparr>Data := x\<rparr>) ms)
      else if keyIs ''error'' k then
        (case decodeString (rsError p) v of None \<Rightarrow> None | Some x \<Rightarrow> decodeResponseFields fl (p\<lparr>rsError := x\<rparr>) ms)
      else decodeResponseFields fl p ms)"

definition decodeResponse :: "(string \<Rightarrow> string option) \<Rightarrow> json \<Rightarrow> Response option" where
  "decodeResponse fl v =
     (case v of
        JObj ms \<Rightarrow> decodeResponseFields fl \<lparr>rsID = [], Data = AnyNil, rsError = []\<rparr> ms
      | JNull \<Rightarrow> Some \<lparr>rsID = [], Data = AnyNil, rsError = []\<rparr>
      | _ \<Rightarrow> None)"

section \<open>The server\<close>

text \<open>A handler takes the parameters and returns an error message or data; it may have effects on a state.\<close>

type_synonym 's HandlerFunc = "json option \<Rightarrow> 's \<Rightarrow> (string + anyval) \<times> 's"

definition NewServer :: "(string \<times> 's HandlerFunc) list" where
  "NewServer = []"

definition Register :: "string \<Rightarrow> 's HandlerFunc \<Rightarrow> (string \<times> 's HandlerFunc) list \<Rightarrow> (string \<times> 's HandlerFunc) list" where
  "Register method handler handlers = AList.update method handler handlers"

definition MethodCount :: "(string \<times> 's HandlerFunc) list \<Rightarrow> nat" where
  "MethodCount handlers = length handlers"

text \<open>One round of \<open>handleConn\<close> between decoding the request and encoding the response.\<close>

definition dispatch :: "(string \<times> 's HandlerFunc) list \<Rightarrow> Request \<Rightarrow> 's \<Rightarrow> Response \<times> 's" where
  "dispatch handlers req s =
     (case map_of handlers (Method req) of
        None \<Rightarrow> (\<lparr>rsID = rqID req, Data = AnyNil, rsError = ''unknown method: '' @ Method req\<rparr>, s)
      | Some handler \<Rightarrow>
          (case handler (Params req) s of
             (Inl err, s') \<Rightarrow> (\<lparr>rsID = rqID req, Data = AnyNil, rsError = err\<rparr>, s')
           | (Inr data, s') \<Rightarrow> (\<lparr>rsID = rqID req, Data = data, rsError = []\<rparr>, s')))"

text \<open>
  A connection on the server's side: bytes received and not yet consumed, whether \<open>handleConn\<close> has returned, how many responses
  were written (\<open>writeOk\<close> tells which write succeeds), and the handlers' state.
\<close>

record 's rpc_conn =
  unread :: string
  closed :: bool
  written :: nat
  hstate :: 's

text \<open>A decoded value consumes input, so \<open>handleConn\<close> ends on the bytes received so far.\<close>

lemma parseStr_tail:
  assumes "parseStr (c # cs) = Some (x, r)"
  shows "r = cs \<or> (\<exists>k \<in> {0, 1, 5, 11}. \<exists>y. parseStr (drop k cs) = Some (y, r))"
proof (cases cs)
  case (Cons e t)
  with assms show ?thesis
    by (auto simp: parseStr.simps(2) [of c "e # t"] split: if_splits option.splits)
qed (use assms in \<open>auto simp: parseStr.simps split: if_splits\<close>)

lemma parseStr_shorter: "parseStr s = Some (x, r) \<Longrightarrow> length r < length s"
proof (induction s arbitrary: x rule: length_induct)
  case (1 s)
  then obtain c cs where s: "s = c # cs" by (cases s) auto
  show ?case
  proof (cases "r = cs")
    case False
    then obtain k y where "parseStr (drop k cs) = Some (y, r)" using parseStr_tail 1(2) s by blast
    moreover have "length (drop k cs) < length s" by (simp add: s)
    ultimately show ?thesis using 1(1) less_trans by blast
  qed (simp add: s)
qed

lemma length_dropWhile_less: "takeWhile P s \<noteq> [] \<Longrightarrow> length (dropWhile P s) < length s"
  by (cases s) (auto simp: length_dropWhile_le le_imp_less_Suc split: if_splits)

lemma parseDigits_shorter: "parseDigits s = Some (ds, r) \<Longrightarrow> length r < length s"
  by (cases s) (auto simp: parseDigits_def length_dropWhile_le le_imp_less_Suc split: if_splits)

lemma parseFrac_shorter: "parseFrac s = Some (ds, r) \<Longrightarrow> length r \<le> length s"
  by (auto simp: parseFrac_def le_SucI length_dropWhile_le split: if_splits list.splits)

lemma parseExp_shorter: "parseExp s = Some (ds, r) \<Longrightarrow> length r \<le> length s"
  using length_dropWhile_le [of IsDigit]
  by (fastforce simp: parseExp_def Let_def intro: le_trans split: if_splits list.splits)

lemma parseNum_shorter:
  assumes "parseNum s = Some (l, r)"
  shows "length r < length s"
proof -
  obtain k ds r1 fr r2 ex where "parseDigits (drop k s) = Some (ds, r1)" "parseFrac r1 = Some (fr, r2)" "parseExp r2 = Some (ex, r)"
    using assms by (fastforce simp: parseNum_def Let_def split: option.splits)
  from parseDigits_shorter [OF this(1)] parseFrac_shorter [OF this(2)] parseExp_shorter [OF this(3)] show ?thesis by simp
qed

lemma length_skipWS: "length (skipWS s) \<le> length s"
  by (rule length_dropWhile_le)

lemma skipWS_Cons_shorter: "skipWS s = c # r \<Longrightarrow> length r < length s"
  using length_skipWS [of s] by simp

lemma parse_shorter:
  "(\<forall>s v r. parseValue n s = Some (v, r) \<longrightarrow> length r < length s) \<and>
   (\<forall>s vs r. parseElems n s = Some (vs, r) \<longrightarrow> length r < length s) \<and>
   (\<forall>s ms r. parseMembers n s = Some (ms, r) \<longrightarrow> length r < length s)"
proof (induction n)
  case (Suc n)
  then have V: "length r < length s" if "parseValue n s = Some (v, r)" for s v r using that by blast
  from Suc have E: "length r < length s" if "parseElems n s = Some (vs, r)" for s vs r using that by blast
  from Suc have M: "length r < length s" if "parseMembers n s = Some (ms, r)" for s ms r using that by blast
  have "length r < length s" if p: "parseValue (Suc n) s = Some (v, r)" for s v r
  proof -
    obtain c cs where c: "skipWS s = c # cs" using p by (cases "skipWS s") auto
    note l = skipWS_Cons_shorter [OF c]
    have "length r < length cs \<or> length r < length (c # cs)"
      using p by (auto simp: c split: if_splits list.splits dest!: parseStr_shorter parseNum_shorter E M skipWS_Cons_shorter)
    with l show ?thesis by auto
  qed
  moreover have "length r < length s" if p: "parseElems (Suc n) s = Some (vs, r)" for s vs r
  proof -
    obtain v r1 where v: "parseValue n s = Some (v, r1)" using p by (auto split: option.splits)
    obtain c t where c: "skipWS r1 = c # t" using p v by (cases "skipWS r1") auto
    have "length r \<le> length t" using p v c by (auto split: if_splits dest!: E)
    with V [OF v] skipWS_Cons_shorter [OF c] show ?thesis by linarith
  qed
  moreover have "length r < length s" if p: "parseMembers (Suc n) s = Some (ms, r)" for s ms r
  proof -
    obtain q r0 where q: "skipWS s = q # r0" using p by (cases "skipWS s") auto
    obtain k r1 where k: "parseStr r0 = Some (k, r1)" using p q by (auto split: if_splits option.splits)
    obtain d t where d: "skipWS r1 = d # t" using p q k by (auto split: if_splits list.splits)
    obtain v u where v: "parseValue n t = Some (v, u)" using p q k d by (auto split: if_splits option.splits)
    obtain c w where c: "skipWS u = c # w" using p q k d v by (auto split: if_splits list.splits)
    have "length r \<le> length w" using p q k d v c by (auto split: if_splits dest!: M)
    with skipWS_Cons_shorter [OF q] parseStr_shorter [OF k] skipWS_Cons_shorter [OF d] V [OF v] skipWS_Cons_shorter [OF c]
    show ?thesis by linarith
  qed
  ultimately show ?case by blast
qed simp

lemma nextValue_shorter: "nextValue bs = Some (v, r) \<Longrightarrow> length r < length bs"
  using parse_shorter unfolding nextValue_def by blast

function handleConn ::
  "(string \<times> 's HandlerFunc) list \<Rightarrow> (nat \<Rightarrow> bool) \<Rightarrow> 's rpc_conn \<Rightarrow> string \<times> 's rpc_conn" where
  "handleConn handlers writeOk c =
     (if closed c then ([], c)
      else
        (case nextValue (unread c) of
           None \<Rightarrow> ([], c)
         | Some (v, rest) \<Rightarrow>
             (case decodeRequest v of
                None \<Rightarrow> ([], c\<lparr>closed := True, unread := rest\<rparr>)
              | Some req \<Rightarrow>
                  (case dispatch handlers req (hstate c) of
                     (resp, s') \<Rightarrow>
                       (case jsonResponse resp of
                          Some w \<Rightarrow>
                            (if writeOk (written c) then
                               (case handleConn handlers writeOk (c\<lparr>unread := rest, written := written c + 1, hstate := s'\<rparr>) of
                                  (out, c') \<Rightarrow> (encodeLine w @ out, c'))
                             else ([], c\<lparr>closed := True, unread := rest, hstate := s'\<rparr>))
                        | None \<Rightarrow> ([], c\<lparr>closed := True, unread := rest, hstate := s'\<rparr>))))))"
  by pat_completeness auto
termination
  by (relation "measure (\<lambda>(_, _, c). length (unread c))") (auto dest: nextValue_shorter)

declare handleConn.simps [simp del]

text \<open>What arrives at the client after it has written \<open>bs\<close>.\<close>

definition serverExchange ::
  "(string \<times> 's HandlerFunc) list \<Rightarrow> (nat \<Rightarrow> bool) \<Rightarrow> string \<Rightarrow> 's rpc_conn \<Rightarrow> string option \<times> 's rpc_conn" where
  "serverExchange handlers writeOk bs c =
     (case handleConn handlers writeOk (c\<lparr>unread := unread c @ bs\<rparr>) of (out, c') \<Rightarrow> (Some out, c'))"

section \<open>The client\<close>

text \<open>\<open>exchange\<close> writes to the connection and returns what the peer answers, \<open>None\<close> if the write fails.\<close>

record 'n Client =
  cnet :: 'n
  cbuf :: string
  nextID :: "64 word"

definition Dial :: "'n option \<Rightarrow> 'n Client option" where
  "Dial net = (case net of None \<Rightarrow> None | Some n \<Rightarrow> Some \<lparr>cnet = n, cbuf = [], nextID = 0\<rparr>)"

datatype call_error = ErrMarshalParams | ErrSending | ErrReading | ErrRpc string | ErrMarshalData | ErrUnmarshal

definition marshalAny :: "anyval \<Rightarrow> json option" where
  "marshalAny v = (case v of AnyNil \<Rightarrow> Some JNull | AnyVal w \<Rightarrow> Some w | AnyBad \<Rightarrow> None)"

definition Call ::
  "(string \<Rightarrow> string option) \<Rightarrow> (string \<Rightarrow> 'n \<Rightarrow> string option \<times> 'n) \<Rightarrow> string \<Rightarrow> anyval \<Rightarrow> (json \<Rightarrow> 'r option) option \<Rightarrow>
   'n Client \<Rightarrow> (call_error + 'r option) \<times> 'n Client" where
  "Call viaFloat exchange method params result c =
     (let id = nextID c + 1; c1 = c\<lparr>nextID := id\<rparr>
      in case marshalAny params of
           None \<Rightarrow> (Inl ErrMarshalParams, c1)
         | Some raw \<Rightarrow>
             (case exchange (encodeLine (jsonRequest \<lparr>Method = method, rqID = show_int (sint id), Params = Some raw\<rparr>)) (cnet c1) of
                (None, n) \<Rightarrow> (Inl ErrSending, c1\<lparr>cnet := n\<rparr>)
              | (Some bs, n) \<Rightarrow>
                  (case nextValue (cbuf c1 @ bs) of
                     None \<Rightarrow> (Inl ErrReading, c1\<lparr>cnet := n, cbuf := cbuf c1 @ bs\<rparr>)
                   | Some (v, rest) \<Rightarrow>
                       (let c2 = c1\<lparr>cnet := n, cbuf := rest\<rparr>
                        in case decodeResponse viaFloat v of
                             None \<Rightarrow> (Inl ErrReading, c2)
                           | Some resp \<Rightarrow>
                               (if rsError resp \<noteq> [] then (Inl (ErrRpc (rsError resp)), c2)
                                else
                                  (case result of
                                     None \<Rightarrow> (Inr None, c2)
                                   | Some unmarshal \<Rightarrow>
                                       (case marshalAny (Data resp) of
                                          None \<Rightarrow> (Inl ErrMarshalData, c2)
                                        | Some data \<Rightarrow>
                                            (case Option.bind (parseJson (render data)) unmarshal of
                                               None \<Rightarrow> (Inl ErrUnmarshal, c2)
                                             | Some r \<Rightarrow> (Inr (Some r), c2)))))))))"

section \<open>Reading what was written\<close>

lemma parseValue_ws: "list_all isWS w \<Longrightarrow> parseValue n (w @ s) = parseValue n s"
  by (cases n) (simp_all add: dropWhile_append2 list_all_iff)

lemma nextValue_ws: "list_all isWS w \<Longrightarrow> nextValue w = None"
  using parseValue_ws [of w "2 * length w + 2" "[]"] by (simp add: nextValue_def)

lemma nextValue_line:
  assumes "list_all isWS w" and "jok v"
  shows "nextValue (w @ encodeLine v @ r) = Some (v, CHR 0x0A # r)"
proof -
  have "numEnd (CHR 0x0A # r)" by (simp add: numEnd_def IsDigit_def char_le_nat)
  from readsD [OF jok_reads [OF assms(2)] _ this] show ?thesis
    unfolding nextValue_def parseValue_ws [OF assms(1)] by (simp add: encodeLine_def del: parseValue.simps)
qed

lemma isWS_newline: "isWS CHR 0x0A"
  by (simp add: isWS_def)

lemma decode_jsonRequest: "decodeRequest (jsonRequest \<lparr>Method = m, rqID = i, Params = Some v\<rparr>) = Some \<lparr>Method = m, rqID = i, Params = Some v\<rparr>"
proof -
  have k: "keyIs ''method'' ''method''" "\<not> keyIs ''method'' ''id''" "keyIs ''id'' ''id''" "\<not> keyIs ''method'' ''params''"
    "\<not> keyIs ''id'' ''params''" "keyIs ''params'' ''params''" by code_simp+
  show ?thesis by (simp add: decodeRequest_def jsonRequest_def k decodeString_def)
qed

lemma jok_jsonRequest: "jok v \<Longrightarrow> jok (jsonRequest \<lparr>Method = m, rqID = i, Params = Some v\<rparr>)"
  by (simp add: jsonRequest_def)

text \<open>Values all of whose numbers are integers that \<open>float64\<close> represents, and their form after passing through an \<open>any\<close>.\<close>

fun smallNums :: "json \<Rightarrow> bool" where
  "smallNums (JNum l) \<longleftrightarrow> (case ParseInt l of None \<Rightarrow> False | Some i \<Rightarrow> \<bar>i\<bar> \<le> 2 ^ 53 \<and> l = show_int i)"
| "smallNums (JArr vs) \<longleftrightarrow> list_all smallNums vs"
| "smallNums (JObj ms) \<longleftrightarrow> list_all (\<lambda>(k, v). smallNums v) ms"
| "smallNums _ \<longleftrightarrow> True"

fun canon :: "json \<Rightarrow> json" where
  "canon (JArr vs) = JArr (map canon vs)"
| "canon (JObj ms) = JObj (sortedMembers (map (\<lambda>(k, v). (k, canon v)) ms))"
| "canon v = v"

lemma set_sortedMembers: "set (sortedMembers ms) \<subseteq> set ms"
proof
  fix p
  assume "p \<in> set (sortedMembers ms)"
  then have "map_of (AList.clearjunk (rev ms)) (fst p) = Some (snd p)"
    by (simp add: sortedMembers_def distinct_clearjunk)
  then show "p \<in> set ms" by (metis map_of_SomeD map_of_clearjunk prod.collapse set_rev)
qed

definition exactFloat :: "(string \<Rightarrow> string option) \<Rightarrow> bool" where
  "exactFloat fl \<longleftrightarrow> (\<forall>i. \<bar>i\<bar> \<le> 2 ^ 53 \<longrightarrow> fl (show_int i) = Some (show_int i))"

lemma viaAny_small:
  assumes "exactFloat fl"
  shows "smallNums v \<Longrightarrow> viaAny fl v = Some (canon v) \<and> jok (canon v)"
proof (induction v)
  case (JNum l)
  then show ?case using assms by (auto simp: exactFloat_def split: option.splits)
next
  case (JArr vs)
  then have "viaAnyList fl vs = Some (map canon vs) \<and> list_all jok (map canon vs)"
    by (induction vs) auto
  then show ?case by (simp add: list.pred_map)
next
  case (JObj ms)
  then have "\<forall>(k, v) \<in> set ms. viaAny fl v = Some (canon v) \<and> jok (canon v)" by (force simp: list_all_iff)
  then have m: "viaAnyMembers fl ms = Some (map (\<lambda>(k, v). (k, canon v)) ms) \<and> (\<forall>(k, v) \<in> set ms. jok (canon v))"
    by (induction ms) auto
  then have "\<forall>(k, v) \<in> set (map (\<lambda>(k, v). (k, canon v)) ms). jok v" by auto
  then have "list_all (\<lambda>(k, v). jok v) (sortedMembers (map (\<lambda>(k, v). (k, canon v)) ms))"
    using set_sortedMembers unfolding list_all_iff by blast
  with m show ?case by simp
qed simp_all

lemma smallNums_jok: "smallNums v \<Longrightarrow> jok v"
  by (induction v) (auto simp: list_all_iff split: option.splits)

section \<open>A call is a call of the handler\<close>

text \<open>What the caller makes of the data it received, and the call as if the handler were called locally.\<close>

definition received :: "(json \<Rightarrow> 'r option) option \<Rightarrow> json \<Rightarrow> call_error + 'r option" where
  "received result w =
     (case result of None \<Rightarrow> Inr None
      | Some unmarshal \<Rightarrow> (case unmarshal w of None \<Rightarrow> Inl ErrUnmarshal | Some r \<Rightarrow> Inr (Some r)))"

definition localCall ::
  "(string \<times> 's HandlerFunc) list \<Rightarrow> string \<Rightarrow> json \<Rightarrow> (json \<Rightarrow> 'r option) option \<Rightarrow> 's \<Rightarrow> (call_error + 'r option) \<times> 's" where
  "localCall handlers method p result s =
     (case map_of handlers method of
        None \<Rightarrow> (Inl (ErrRpc (''unknown method: '' @ method)), s)
      | Some handler \<Rightarrow>
          (case handler (Some p) s of
             (Inl err, s') \<Rightarrow> (if err = [] then received result JNull else Inl (ErrRpc err), s')
           | (Inr AnyNil, s') \<Rightarrow> (received result JNull, s')
           | (Inr (AnyVal d), s') \<Rightarrow> (received result (canon d), s')
           | (Inr AnyBad, s') \<Rightarrow> (Inl ErrReading, s')))"

definition ready :: "'s rpc_conn Client \<Rightarrow> bool" where
  "ready c \<longleftrightarrow> list_all isWS (cbuf c) \<and> list_all isWS (unread (cnet c)) \<and> \<not> closed (cnet c)"

definition marshals :: "(string \<times> 's HandlerFunc) list \<Rightarrow> string \<Rightarrow> json \<Rightarrow> 's \<Rightarrow> bool" where
  "marshals handlers method p s =
     (case map_of handlers method of None \<Rightarrow> True
      | Some handler \<Rightarrow> (case fst (handler (Some p) s) of Inl err \<Rightarrow> True | Inr data \<Rightarrow> data \<noteq> AnyBad))"

definition smallData :: "(string \<times> 's HandlerFunc) list \<Rightarrow> string \<Rightarrow> json \<Rightarrow> 's \<Rightarrow> bool" where
  "smallData handlers method p s =
     (case map_of handlers method of None \<Rightarrow> True
      | Some handler \<Rightarrow> (case fst (handler (Some p) s) of Inr (AnyVal d) \<Rightarrow> smallNums d | _ \<Rightarrow> True))"

text \<open>The server answers one request with one line and waits for the next.\<close>

lemma serverExchange_request:
  assumes "list_all isWS (unread c)" and "\<not> closed c" and "jok p" and "writeOk (written c)"
    and "dispatch handlers \<lparr>Method = m, rqID = i, Params = Some p\<rparr> (hstate c) = (resp, s')"
  shows "serverExchange handlers writeOk (encodeLine (jsonRequest \<lparr>Method = m, rqID = i, Params = Some p\<rparr>)) c =
    (case jsonResponse resp of
       None \<Rightarrow> (Some [], c\<lparr>unread := [CHR 0x0A], closed := True, hstate := s'\<rparr>)
     | Some w \<Rightarrow> (Some (encodeLine w), c\<lparr>unread := [CHR 0x0A], written := written c + 1, hstate := s'\<rparr>))"
proof -
  have v: "nextValue (unread c @ encodeLine (jsonRequest \<lparr>Method = m, rqID = i, Params = Some p\<rparr>)) =
      Some (jsonRequest \<lparr>Method = m, rqID = i, Params = Some p\<rparr>, [CHR 0x0A])"
    using nextValue_line [OF assms(1) jok_jsonRequest [OF assms(3), of m i], of "[]"] by simp
  have "nextValue [CHR 0x0A] = None" by (rule nextValue_ws) (simp add: isWS_newline)
  then have "handleConn handlers writeOk d = ([], d)" if "unread d = [CHR 0x0A]" for d
    using that by (subst handleConn.simps) simp
  with v assms(2,4,5) show ?thesis
    unfolding serverExchange_def by (subst handleConn.simps) (auto simp: decode_jsonRequest split: option.splits)
qed

lemma decodeAny_small:
  assumes "exactFloat fl" and "smallNums d"
  shows "decodeAny fl d = Some (if canon d = JNull then AnyNil else AnyVal (canon d))"
  using viaAny_small [OF assms] by (auto simp: decodeAny_def split: json.splits)

lemma decode_jsonResponse:
  assumes "exactFloat fl" and "jsonResponse resp = Some w" and "\<And>d. Data resp = AnyVal d \<Longrightarrow> smallNums d"
  shows "jok w" and "decodeResponse fl w = Some (resp\<lparr>Data := (case Data resp of AnyVal d \<Rightarrow> if canon d = JNull then AnyNil else AnyVal (canon d) | x \<Rightarrow> x)\<rparr>)"
proof -
  have k: "keyIs ''id'' ''id''" "\<not> keyIs ''id'' ''data''" "keyIs ''data'' ''data''" "\<not> keyIs ''id'' ''error''"
    "\<not> keyIs ''data'' ''error''" "keyIs ''error'' ''error''" by code_simp+
  show "jok w" using assms(2,3) smallNums_jok by (auto simp: jsonResponse_def Let_def split: anyval.splits if_splits)
  show "decodeResponse fl w = Some (resp\<lparr>Data := (case Data resp of AnyVal d \<Rightarrow> if canon d = JNull then AnyNil else AnyVal (canon d) | x \<Rightarrow> x)\<rparr>)"
    using assms(2,3) decodeAny_small [OF assms(1)]
    by (auto simp: jsonResponse_def Let_def decodeResponse_def k decodeString_def split: anyval.splits if_splits)
qed

text \<open>The client's part, for any response the server gives to the request.\<close>

lemma Call_response:
  assumes "exactFloat fl" and "list_all isWS (cbuf c)" and "jsonResponse resp = Some w" and "\<And>d. Data resp = AnyVal d \<Longrightarrow> smallNums d"
    and "exchange (encodeLine (jsonRequest \<lparr>Method = m, rqID = show_int (sint (nextID c + 1)), Params = Some p\<rparr>)) (cnet c) = (Some (encodeLine w), n)"
  shows "Call fl exchange m (AnyVal p) result c =
    (if rsError resp \<noteq> [] then Inl (ErrRpc (rsError resp))
     else received result (case Data resp of AnyVal d \<Rightarrow> canon d | _ \<Rightarrow> JNull),
     c\<lparr>cnet := n, cbuf := [CHR 0x0A], nextID := nextID c + 1\<rparr>)"
proof -
  note D = decode_jsonResponse [OF assms(1,3,4)]
  have v: "nextValue (cbuf c @ encodeLine w) = Some (w, [CHR 0x0A])" using nextValue_line [OF assms(2) D(1), of "[]"] by simp
  have pr: "parseJson (render (canon d)) = Some (canon d)" if "Data resp = AnyVal d" for d
    using viaAny_small [OF assms(1) assms(4) [OF that]] by (simp add: parse_render)
  have nl: "parseJson (render JNull) = Some JNull" by (rule parse_render) simp
  show ?thesis
    using assms(3) D(2) pr nl
    by (cases "Data resp") (auto simp: Call_def marshalAny_def assms(5) v received_def jsonResponse_def Let_def split: option.splits)
qed

lemma Call_local:
  assumes "exactFloat fl" and "ready c" and "jok p" and "writeOk (written (cnet c))"
    and "smallData handlers method p (hstate (cnet c))"
  shows "\<exists>c'. Call fl (serverExchange handlers writeOk) method (AnyVal p) result c =
      (fst (localCall handlers method p result (hstate (cnet c))), c') \<and>
    hstate (cnet c') = snd (localCall handlers method p result (hstate (cnet c))) \<and>
    nextID c' = nextID c + 1 \<and> (ready c' \<longleftrightarrow> marshals handlers method p (hstate (cnet c)))"
proof -
  let ?id = "show_int (sint (nextID c + 1))"
  let ?req = "\<lparr>Method = method, rqID = ?id, Params = Some p\<rparr>"
  obtain resp s' where d: "dispatch handlers ?req (hstate (cnet c)) = (resp, s')" by fastforce
  have C: "list_all isWS (cbuf c)" "list_all isWS (unread (cnet c))" "\<not> closed (cnet c)" using assms(2) by (auto simp: ready_def)
  note X = serverExchange_request [where handlers = handlers and writeOk = writeOk, OF C(2,3) assms(3,4) d]
  have small: "smallNums x" if "Data resp = AnyVal x" for x
    using d that assms(5) by (auto simp: dispatch_def smallData_def split: option.splits prod.splits sum.splits)
  show ?thesis
  proof (cases "jsonResponse resp")
    case (Some w)
    have "Call fl (serverExchange handlers writeOk) method (AnyVal p) result c =
        (if rsError resp \<noteq> [] then Inl (ErrRpc (rsError resp))
         else received result (case Data resp of AnyVal d \<Rightarrow> canon d | _ \<Rightarrow> JNull),
         c\<lparr>cnet := (cnet c)\<lparr>unread := [CHR 0x0A], written := written (cnet c) + 1, hstate := s'\<rparr>, cbuf := [CHR 0x0A], nextID := nextID c + 1\<rparr>)"
      by (rule Call_response [OF assms(1) C(1) Some small]) (use X Some in simp_all)
    then show ?thesis
      using d Some C(3)
      by (auto simp: dispatch_def localCall_def marshals_def ready_def isWS_newline jsonResponse_def Let_def
          split: option.splits prod.splits sum.splits anyval.splits)
  next
    case None
    then have "Data resp = AnyBad" by (auto simp: jsonResponse_def Let_def split: anyval.splits)
    then show ?thesis
      using d X None nextValue_ws [OF C(1)]
      by (auto simp: dispatch_def localCall_def marshals_def ready_def isWS_newline Call_def Let_def marshalAny_def
          split: option.splits prod.splits sum.splits anyval.splits)
  qed
qed

text \<open>
  C23. A remote call is a local call: on a connected client, calling a method with parameters that marshal to \<open>p\<close> runs the registered handler once on exactly \<open>p\<close>
  and returns its error message, or its data as the result type reads them, or reports the unknown method,
  and leaves the connection ready for the next call. The data arrives in the form of Go maps
  (keys sorted, the last duplicate wins), and its integers unchanged up to \<open>2 ^ 53\<close>. An error with an empty message counts as success, and data that do not marshal
  close the connection.
\<close>

theorem Call_correct:
  assumes "exactFloat fl" and "ready c" and "jok p" and "writeOk (written (cnet c))"
    and "smallData handlers method p (hstate (cnet c))"
  shows "\<exists>c'. Call fl (serverExchange handlers writeOk) method (AnyVal p) result c =
      (fst (localCall handlers method p result (hstate (cnet c))), c') \<and>
    hstate (cnet c') = snd (localCall handlers method p result (hstate (cnet c))) \<and>
    nextID c' = nextID c + 1 \<and> (ready c' \<longleftrightarrow> marshals handlers method p (hstate (cnet c)))"
  by (rule Call_local [where writeOk = writeOk, OF assms])

text \<open>A stateful handler that counts its calls, and a \<open>viaFloat\<close> that rejects what it cannot represent.\<close>

definition integerFloat :: "string \<Rightarrow> string option" where
  "integerFloat l = (case ParseInt l of Some i \<Rightarrow> if \<bar>i\<bar> \<le> 2 ^ 53 then Some l else None | None \<Rightarrow> None)"

lemma exact_integerFloat: "exactFloat integerFloat"
proof -
  have "ParseInt (show_int i) = Some i" if "\<bar>i\<bar> \<le> 2 ^ 53" for i
    by (rule ParseInt_show_int) (use that in \<open>simp add: int64_def, arith\<close>)
  then show ?thesis by (simp add: exactFloat_def integerFloat_def)
qed

definition countingHandlers :: "(string \<times> nat HandlerFunc) list" where
  "countingHandlers = Register ''Index.Stats'' (\<lambda>p s. (Inr (AnyVal (JObj [(''total_docs'', jint 3), (''shard'', JStr ''a'')])), s + 1)) NewServer"

theorem Call_correct_witness:
  "\<exists>c'. Call integerFloat (serverExchange countingHandlers (\<lambda>_. True)) ''Index.Stats'' (AnyVal (JObj [])) (Some Some)
      \<lparr>cnet = \<lparr>unread = [], closed = False, written = 0, hstate = 0\<rparr>, cbuf = [], nextID = 0\<rparr> =
      (Inr (Some (JObj [(''shard'', JStr ''a''), (''total_docs'', jint 3)])), c') \<and> hstate (cnet c') = 1 \<and> nextID c' = 1 \<and> ready c'"
proof -
  let ?c = "\<lparr>cnet = \<lparr>unread = [], closed = False, written = 0, hstate = 0\<rparr>, cbuf = [], nextID = 0\<rparr> :: nat rpc_conn Client"
  have c: "ready ?c" by (simp add: ready_def)
  have e: "countingHandlers = [(''Index.Stats'', \<lambda>p s. (Inr (AnyVal (JObj [(''total_docs'', jint 3), (''shard'', JStr ''a'')])), s + 1))]"
    by (simp add: countingHandlers_def Register_def NewServer_def)
  have p: "jok (JObj [])" by simp
  have n: "smallNums (JObj [(''total_docs'', jint 3), (''shard'', JStr ''a'')])" by code_simp
  then have s: "smallData countingHandlers ''Index.Stats'' (JObj []) (hstate (cnet ?c))" by (simp add: smallData_def e)
  have k: "canon (JObj [(''total_docs'', jint 3), (''shard'', JStr ''a'')]) = JObj [(''shard'', JStr ''a''), (''total_docs'', jint 3)]"
    by code_simp
  have w: "(\<lambda>_. True) (written (cnet ?c))" by simp
  from Call_correct [where result = "Some Some", OF exact_integerFloat c p w s] k show ?thesis
    by (auto simp: localCall_def received_def marshals_def e)
qed

section \<open>Starting and stopping a server\<close>

text \<open>
  \<open>Serve\<close> and \<open>Stop\<close> run in different goroutines. A connection that \<open>Accept\<close> has returned is \<open>pending\<close> until \<open>wg.Add\<close>;
  \<open>Stop\<close> closes the channel, closes the listener if there is one, and waits for the connections.
\<close>

datatype serve_state = NotServing | Accepting | ServeReturned
datatype stop_state = Running | Waiting | StopReturned

record server_life =
  serveSt :: serve_state
  stopSt :: stop_state
  listenerOpen :: bool
  pending :: bool
  wg :: nat

inductive life_step :: "server_life \<Rightarrow> server_life \<Rightarrow> bool" where
  l_listen: "serveSt s = NotServing \<Longrightarrow> life_step s (s\<lparr>serveSt := Accepting, listenerOpen := True\<rparr>)"
| l_accept: "serveSt s = Accepting \<Longrightarrow> listenerOpen s \<Longrightarrow> \<not> pending s \<Longrightarrow> life_step s (s\<lparr>pending := True\<rparr>)"
| l_add: "pending s \<Longrightarrow> life_step s (s\<lparr>pending := False, wg := wg s + 1\<rparr>)"
| l_accept_error: "serveSt s = Accepting \<Longrightarrow> \<not> pending s \<Longrightarrow>
    life_step s (if stopSt s = Running then s else s\<lparr>serveSt := ServeReturned\<rparr>)"
| l_conn_end: "0 < wg s \<Longrightarrow> life_step s (s\<lparr>wg := wg s - 1\<rparr>)"
| l_stop: "stopSt s = Running \<Longrightarrow> life_step s (s\<lparr>stopSt := Waiting, listenerOpen := False\<rparr>)"
| l_waited: "stopSt s = Waiting \<Longrightarrow> wg s = 0 \<Longrightarrow> life_step s (s\<lparr>stopSt := StopReturned\<rparr>)"

definition freshLife :: server_life where
  "freshLife = \<lparr>serveSt = NotServing, stopSt = Running, listenerOpen = False, pending = False, wg = 0\<rparr>"

definition openConns :: "server_life \<Rightarrow> nat" where
  "openConns s = wg s + (if pending s then 1 else 0)"

text \<open>
  When \<open>Serve\<close> was listening before \<open>Stop\<close>, at most one connection is left when \<open>Stop\<close> has returned: one that \<open>Accept\<close>
  returned before and that \<open>wg.Add\<close> had not counted.
\<close>

theorem stop_leaves_one:
  assumes "life_step\<^sup>*\<^sup>* s0 s" and "serveSt s0 \<noteq> NotServing" and "stopSt s0 = Running"
  shows "(stopSt s \<noteq> Running \<longrightarrow> \<not> listenerOpen s) \<and> (stopSt s = StopReturned \<longrightarrow> openConns s \<le> 1)"
proof -
  have "serveSt s \<noteq> NotServing \<and> (stopSt s \<noteq> Running \<longrightarrow> \<not> listenerOpen s) \<and> (stopSt s = StopReturned \<longrightarrow> openConns s \<le> 1)"
    using assms(1)
  proof (induction rule: rtranclp_induct)
    case (step s s')
    from step(2,3) show ?case by (cases rule: life_step.cases) (auto simp: openConns_def)
  qed (simp add: assms(2,3))
  then show ?thesis by blast
qed

text \<open>A \<open>Stop\<close> that comes before \<open>Serve\<close> listens closes nothing: the server accepts connections after \<open>Stop\<close> has returned.\<close>

theorem stop_before_serve:
  "\<exists>s. life_step\<^sup>*\<^sup>* freshLife s \<and> stopSt s = StopReturned \<and> serveSt s = Accepting \<and> listenerOpen s \<and>
    \<not> pending s \<and> wg s = k"
proof (induction k)
  case 0
  let ?s1 = "freshLife\<lparr>stopSt := Waiting, listenerOpen := False\<rparr>"
  let ?s2 = "?s1\<lparr>stopSt := StopReturned\<rparr>" and ?s3 = "?s1\<lparr>stopSt := StopReturned, serveSt := Accepting, listenerOpen := True\<rparr>"
  have "life_step freshLife ?s1" by (rule l_stop) (simp add: freshLife_def)
  moreover have "life_step ?s1 ?s2" by (rule l_waited) (simp_all add: freshLife_def)
  moreover have "life_step ?s2 ?s3" using l_listen [of ?s2] by (simp add: freshLife_def)
  ultimately have "life_step\<^sup>*\<^sup>* freshLife ?s3" by (meson converse_rtranclp_into_rtranclp rtranclp.rtrancl_refl)
  then show ?case by (intro exI [of _ ?s3]) (simp add: freshLife_def)
next
  case (Suc k)
  then obtain s where s: "life_step\<^sup>*\<^sup>* freshLife s" "stopSt s = StopReturned" "serveSt s = Accepting" "listenerOpen s"
    "\<not> pending s" "wg s = k" by blast
  let ?s1 = "s\<lparr>pending := True\<rparr>" and ?s2 = "s\<lparr>pending := False, wg := wg s + 1\<rparr>"
  have "life_step s ?s1" by (rule l_accept) (use s in simp_all)
  moreover have "life_step ?s1 ?s2" using l_add [of ?s1] by simp
  ultimately have "life_step\<^sup>*\<^sup>* freshLife ?s2" using s(1) by (meson rtranclp.rtrancl_into_rtrancl)
  with s show ?case by (intro exI [of _ ?s2]) simp
qed

end
