(* ===== verification/Proto.thy ===== *)
theory Proto
  imports Rpc
begin

text \<open>
  The messages of \<open>pkg/proto/messages.go\<close> and their passage through the RPC layer: each message type has its
  JSON as \<open>encoding/json\<close> writes it, the decoder that \<open>json.Unmarshal\<close> runs for the struct, and the
  range in which its integers survive the detour through \<open>float64\<close>. The locale \<open>rpc_message\<close> is what the RPC layer needs of a message
  type, and every type below is an instance. \<open>SearchResult\<close> and \<open>SearchResponse\<close>, whose scores are floating point numbers, are left out.
\<close>

section \<open>Structs\<close>

definition decodeIntN :: "nat \<Rightarrow> int \<Rightarrow> json \<Rightarrow> int option" where
  "decodeIntN w old v =
     (case decodeInt old v of Some i \<Rightarrow> if - (2 ^ (w - 1)) \<le> i \<and> i < 2 ^ (w - 1) then Some i else None | None \<Rightarrow> None)"

definition decodeBool :: "bool \<Rightarrow> json \<Rightarrow> bool option" where
  "decodeBool old v = (case v of JBool x \<Rightarrow> Some x | JNull \<Rightarrow> Some old | _ \<Rightarrow> None)"

text \<open>A slice is nil or has elements; \<open>null\<close> is the JSON of nil.\<close>

definition jsonSlice :: "('a \<Rightarrow> json) \<Rightarrow> 'a list option \<Rightarrow> json" where
  "jsonSlice enc x = (case x of None \<Rightarrow> JNull | Some xs \<Rightarrow> JArr (map enc xs))"

definition decodeSliceN :: "(json \<Rightarrow> 'a option) \<Rightarrow> 'a list option \<Rightarrow> json \<Rightarrow> 'a list option option" where
  "decodeSliceN dec old v = (case v of JArr vs \<Rightarrow> map_option Some (decodeList dec vs) | JNull \<Rightarrow> Some None | _ \<Rightarrow> None)"

text \<open>A struct as the list of its fields: the JSON name, and how a value is decoded into the field.\<close>

definition fieldOf :: "('m \<Rightarrow> 'a) \<Rightarrow> (('a \<Rightarrow> 'a) \<Rightarrow> 'm \<Rightarrow> 'm) \<Rightarrow> ('a \<Rightarrow> json \<Rightarrow> 'a option) \<Rightarrow> 'm \<Rightarrow> json \<Rightarrow> 'm option" where
  "fieldOf get upd dec m v = map_option (\<lambda>x. upd (\<lambda>_. x) m) (dec (get m) v)"

fun decodeFields :: "(string \<times> ('m \<Rightarrow> json \<Rightarrow> 'm option)) list \<Rightarrow> 'm \<Rightarrow> (string \<times> json) list \<Rightarrow> 'm option" where
  "decodeFields fs m [] = Some m"
| "decodeFields fs m ((k, v) # ms) =
     (case List.find (\<lambda>(f, _). keyIs f k) fs of
        None \<Rightarrow> decodeFields fs m ms
      | Some (_, dec) \<Rightarrow> (case dec m v of None \<Rightarrow> None | Some m' \<Rightarrow> decodeFields fs m' ms))"

definition decodeStruct :: "(string \<times> ('m \<Rightarrow> json \<Rightarrow> 'm option)) list \<Rightarrow> 'm \<Rightarrow> json \<Rightarrow> 'm option" where
  "decodeStruct fs m v = (case v of JObj ms \<Rightarrow> decodeFields fs m ms | JNull \<Rightarrow> Some m | _ \<Rightarrow> None)"

text \<open>Integers that fit their field, and 64-bit integers that \<open>float64\<close> represents.\<close>

definition int32 :: "int \<Rightarrow> bool" where
  "int32 i \<longleftrightarrow> - (2 ^ 31) \<le> i \<and> i < 2 ^ 31"

definition exactInt :: "int \<Rightarrow> bool" where
  "exactInt i \<longleftrightarrow> \<bar>i\<bar> \<le> 2 ^ 53"

section \<open>Messages\<close>

record Document =
  pdID :: string
  pdTitle :: string
  pdBody :: string
  pdContentHash :: string
  pdContentSize :: int
  pdShardID :: int
  pdStatus :: string
  pdCreatedAt :: int
  pdIndexedAt :: int

definition jsonDocument :: "Document \<Rightarrow> json" where
  "jsonDocument m = JObj ([(''id'', JStr (pdID m)),
     (''title'', JStr (pdTitle m)),
     (''body'', JStr (pdBody m)),
     (''content_hash'', JStr (pdContentHash m)),
     (''content_size'', jint (pdContentSize m)),
     (''shard_id'', jint (pdShardID m)),
     (''status'', JStr (pdStatus m)),
     (''created_at'', jint (pdCreatedAt m))] @
     (if pdIndexedAt m = 0 then [] else [(''indexed_at'', jint (pdIndexedAt m))]))"

definition decodeDocument :: "json \<Rightarrow> Document option" where
  "decodeDocument = decodeStruct
     [(''id'', fieldOf pdID pdID_update decodeString),
      (''title'', fieldOf pdTitle pdTitle_update decodeString),
      (''body'', fieldOf pdBody pdBody_update decodeString),
      (''content_hash'', fieldOf pdContentHash pdContentHash_update decodeString),
      (''content_size'', fieldOf pdContentSize pdContentSize_update (decodeIntN 32)),
      (''shard_id'', fieldOf pdShardID pdShardID_update (decodeIntN 32)),
      (''status'', fieldOf pdStatus pdStatus_update decodeString),
      (''created_at'', fieldOf pdCreatedAt pdCreatedAt_update (decodeIntN 64)),
      (''indexed_at'', fieldOf pdIndexedAt pdIndexedAt_update (decodeIntN 64))]
     \<lparr>pdID = [], pdTitle = [], pdBody = [], pdContentHash = [], pdContentSize = 0, pdShardID = 0, pdStatus = [], pdCreatedAt = 0, pdIndexedAt = 0\<rparr>"

definition fitsDocument :: "Document \<Rightarrow> bool" where
  "fitsDocument m \<longleftrightarrow> int32 (pdContentSize m) \<and> int32 (pdShardID m) \<and> exactInt (pdCreatedAt m) \<and> exactInt (pdIndexedAt m)"

record Pagination =
  pgLimit :: int
  pgOffset :: int

definition jsonPagination :: "Pagination \<Rightarrow> json" where
  "jsonPagination m = JObj [(''limit'', jint (pgLimit m)),
     (''offset'', jint (pgOffset m))]"

definition decodePagination :: "json \<Rightarrow> Pagination option" where
  "decodePagination = decodeStruct
     [(''limit'', fieldOf pgLimit pgLimit_update (decodeIntN 32)),
      (''offset'', fieldOf pgOffset pgOffset_update (decodeIntN 32))]
     \<lparr>pgLimit = 0, pgOffset = 0\<rparr>"

definition fitsPagination :: "Pagination \<Rightarrow> bool" where
  "fitsPagination m \<longleftrightarrow> int32 (pgLimit m) \<and> int32 (pgOffset m)"

record HealthCheckResponse =
  hcStatus :: string

definition jsonHealthCheckResponse :: "HealthCheckResponse \<Rightarrow> json" where
  "jsonHealthCheckResponse m = JObj [(''status'', JStr (hcStatus m))]"

definition decodeHealthCheckResponse :: "json \<Rightarrow> HealthCheckResponse option" where
  "decodeHealthCheckResponse = decodeStruct
     [(''status'', fieldOf hcStatus hcStatus_update decodeString)]
     \<lparr>hcStatus = []\<rparr>"

definition fitsHealthCheckResponse :: "HealthCheckResponse \<Rightarrow> bool" where
  "fitsHealthCheckResponse m \<longleftrightarrow> True"

record SearchRequest =
  srQuery :: string
  srLimit :: int

definition jsonSearchRequest :: "SearchRequest \<Rightarrow> json" where
  "jsonSearchRequest m = JObj [(''query'', JStr (srQuery m)),
     (''limit'', jint (srLimit m))]"

definition decodeSearchRequest :: "json \<Rightarrow> SearchRequest option" where
  "decodeSearchRequest = decodeStruct
     [(''query'', fieldOf srQuery srQuery_update decodeString),
      (''limit'', fieldOf srLimit srLimit_update (decodeIntN 32))]
     \<lparr>srQuery = [], srLimit = 0\<rparr>"

definition fitsSearchRequest :: "SearchRequest \<Rightarrow> bool" where
  "fitsSearchRequest m \<longleftrightarrow> int32 (srLimit m)"

record SuggestRequest =
  sgPrefix :: string
  sgMaxItems :: int

definition jsonSuggestRequest :: "SuggestRequest \<Rightarrow> json" where
  "jsonSuggestRequest m = JObj [(''prefix'', JStr (sgPrefix m)),
     (''max_items'', jint (sgMaxItems m))]"

definition decodeSuggestRequest :: "json \<Rightarrow> SuggestRequest option" where
  "decodeSuggestRequest = decodeStruct
     [(''prefix'', fieldOf sgPrefix sgPrefix_update decodeString),
      (''max_items'', fieldOf sgMaxItems sgMaxItems_update (decodeIntN 32))]
     \<lparr>sgPrefix = [], sgMaxItems = 0\<rparr>"

definition fitsSuggestRequest :: "SuggestRequest \<Rightarrow> bool" where
  "fitsSuggestRequest m \<longleftrightarrow> int32 (sgMaxItems m)"

record SuggestResponse =
  suSuggestions :: "string list option"

definition jsonSuggestResponse :: "SuggestResponse \<Rightarrow> json" where
  "jsonSuggestResponse m = JObj [(''suggestions'', jsonSlice JStr (suSuggestions m))]"

definition decodeSuggestResponse :: "json \<Rightarrow> SuggestResponse option" where
  "decodeSuggestResponse = decodeStruct
     [(''suggestions'', fieldOf suSuggestions suSuggestions_update (decodeSliceN (decodeString [])))]
     \<lparr>suSuggestions = None\<rparr>"

definition fitsSuggestResponse :: "SuggestResponse \<Rightarrow> bool" where
  "fitsSuggestResponse m \<longleftrightarrow> True"

record IndexRequest =
  ixDocumentID :: string
  ixTitle :: string
  ixBody :: string
  ixShardID :: int

definition jsonIndexRequest :: "IndexRequest \<Rightarrow> json" where
  "jsonIndexRequest m = JObj [(''document_id'', JStr (ixDocumentID m)),
     (''title'', JStr (ixTitle m)),
     (''body'', JStr (ixBody m)),
     (''shard_id'', jint (ixShardID m))]"

definition decodeIndexRequest :: "json \<Rightarrow> IndexRequest option" where
  "decodeIndexRequest = decodeStruct
     [(''document_id'', fieldOf ixDocumentID ixDocumentID_update decodeString),
      (''title'', fieldOf ixTitle ixTitle_update decodeString),
      (''body'', fieldOf ixBody ixBody_update decodeString),
      (''shard_id'', fieldOf ixShardID ixShardID_update (decodeIntN 32))]
     \<lparr>ixDocumentID = [], ixTitle = [], ixBody = [], ixShardID = 0\<rparr>"

definition fitsIndexRequest :: "IndexRequest \<Rightarrow> bool" where
  "fitsIndexRequest m \<longleftrightarrow> int32 (ixShardID m)"

record IndexResponse =
  irSuccess :: bool
  irMessage :: string

definition jsonIndexResponse :: "IndexResponse \<Rightarrow> json" where
  "jsonIndexResponse m = JObj [(''success'', JBool (irSuccess m)),
     (''message'', JStr (irMessage m))]"

definition decodeIndexResponse :: "json \<Rightarrow> IndexResponse option" where
  "decodeIndexResponse = decodeStruct
     [(''success'', fieldOf irSuccess irSuccess_update decodeBool),
      (''message'', fieldOf irMessage irMessage_update decodeString)]
     \<lparr>irSuccess = False, irMessage = []\<rparr>"

definition fitsIndexResponse :: "IndexResponse \<Rightarrow> bool" where
  "fitsIndexResponse m \<longleftrightarrow> True"

record StatsRequest =
  stShardID :: int

definition jsonStatsRequest :: "StatsRequest \<Rightarrow> json" where
  "jsonStatsRequest m = JObj [(''shard_id'', jint (stShardID m))]"

definition decodeStatsRequest :: "json \<Rightarrow> StatsRequest option" where
  "decodeStatsRequest = decodeStruct
     [(''shard_id'', fieldOf stShardID stShardID_update (decodeIntN 32))]
     \<lparr>stShardID = 0\<rparr>"

definition fitsStatsRequest :: "StatsRequest \<Rightarrow> bool" where
  "fitsStatsRequest m \<longleftrightarrow> int32 (stShardID m)"

record ShardStat =
  shShardID :: int
  shDocCount :: int
  shSegmentCount :: int
  shSizeBytes :: int

definition jsonShardStat :: "ShardStat \<Rightarrow> json" where
  "jsonShardStat m = JObj [(''shard_id'', jint (shShardID m)),
     (''doc_count'', jint (shDocCount m)),
     (''segment_count'', jint (shSegmentCount m)),
     (''size_bytes'', jint (shSizeBytes m))]"

definition decodeShardStat :: "json \<Rightarrow> ShardStat option" where
  "decodeShardStat = decodeStruct
     [(''shard_id'', fieldOf shShardID shShardID_update (decodeIntN 32)),
      (''doc_count'', fieldOf shDocCount shDocCount_update (decodeIntN 64)),
      (''segment_count'', fieldOf shSegmentCount shSegmentCount_update (decodeIntN 64)),
      (''size_bytes'', fieldOf shSizeBytes shSizeBytes_update (decodeIntN 64))]
     \<lparr>shShardID = 0, shDocCount = 0, shSegmentCount = 0, shSizeBytes = 0\<rparr>"

definition fitsShardStat :: "ShardStat \<Rightarrow> bool" where
  "fitsShardStat m \<longleftrightarrow> int32 (shShardID m) \<and> exactInt (shDocCount m) \<and> exactInt (shSegmentCount m) \<and> exactInt (shSizeBytes m)"

record StatsResponse =
  spTotalDocs :: int
  spTotalSegments :: int
  spTotalSizeBytes :: int
  spShards :: "ShardStat list option"

definition jsonStatsResponse :: "StatsResponse \<Rightarrow> json" where
  "jsonStatsResponse m = JObj ([(''total_docs'', jint (spTotalDocs m)),
     (''total_segments'', jint (spTotalSegments m)),
     (''total_size_bytes'', jint (spTotalSizeBytes m))] @
     (case spShards m of Some (s # ss) \<Rightarrow> [(''shards'', JArr (map jsonShardStat (s # ss)))] | _ \<Rightarrow> []))"

definition decodeStatsResponse :: "json \<Rightarrow> StatsResponse option" where
  "decodeStatsResponse = decodeStruct
     [(''total_docs'', fieldOf spTotalDocs spTotalDocs_update (decodeIntN 64)),
      (''total_segments'', fieldOf spTotalSegments spTotalSegments_update (decodeIntN 64)),
      (''total_size_bytes'', fieldOf spTotalSizeBytes spTotalSizeBytes_update (decodeIntN 64)),
      (''shards'', fieldOf spShards spShards_update (decodeSliceN decodeShardStat))]
     \<lparr>spTotalDocs = 0, spTotalSegments = 0, spTotalSizeBytes = 0, spShards = None\<rparr>"

definition fitsStatsResponse :: "StatsResponse \<Rightarrow> bool" where
  "fitsStatsResponse m \<longleftrightarrow> exactInt (spTotalDocs m) \<and> exactInt (spTotalSegments m) \<and> exactInt (spTotalSizeBytes m) \<and> (case spShards m of None \<Rightarrow> True | Some ss \<Rightarrow> ss \<noteq> [] \<and> list_all fitsShardStat ss)"

record FlushRequest =
  fqShardID :: int

definition jsonFlushRequest :: "FlushRequest \<Rightarrow> json" where
  "jsonFlushRequest m = JObj [(''shard_id'', jint (fqShardID m))]"

definition decodeFlushRequest :: "json \<Rightarrow> FlushRequest option" where
  "decodeFlushRequest = decodeStruct
     [(''shard_id'', fieldOf fqShardID fqShardID_update (decodeIntN 32))]
     \<lparr>fqShardID = 0\<rparr>"

definition fitsFlushRequest :: "FlushRequest \<Rightarrow> bool" where
  "fitsFlushRequest m \<longleftrightarrow> int32 (fqShardID m)"

record FlushResponse =
  frSuccess :: bool
  frMessage :: string

definition jsonFlushResponse :: "FlushResponse \<Rightarrow> json" where
  "jsonFlushResponse m = JObj [(''success'', JBool (frSuccess m)),
     (''message'', JStr (frMessage m))]"

definition decodeFlushResponse :: "json \<Rightarrow> FlushResponse option" where
  "decodeFlushResponse = decodeStruct
     [(''success'', fieldOf frSuccess frSuccess_update decodeBool),
      (''message'', fieldOf frMessage frMessage_update decodeString)]
     \<lparr>frSuccess = False, frMessage = []\<rparr>"

definition fitsFlushResponse :: "FlushResponse \<Rightarrow> bool" where
  "fitsFlushResponse m \<longleftrightarrow> True"

section \<open>Decoding what was encoded\<close>

lemma keyIs_lower: "ToLower f = f \<Longrightarrow> ToLower k = k \<Longrightarrow> keyIs f k \<longleftrightarrow> f = k"
  by (auto simp: keyIs_def)

definition fieldNames :: "string list" where
  "fieldNames = [''body'', ''content_hash'', ''content_size'', ''created_at'', ''doc_count'', ''document_id'', ''id'', ''indexed_at'', ''limit'', ''max_items'', ''message'', ''offset'', ''prefix'', ''query'', ''segment_count'', ''shard_id'', ''shards'', ''size_bytes'', ''status'', ''success'', ''suggestions'', ''title'', ''total_docs'', ''total_segments'', ''total_size_bytes'']"

lemma lower_fieldNames: "list_all (\<lambda>k. ToLower k = k) fieldNames"
  by code_simp

lemmas lower_names = lower_fieldNames [unfolded fieldNames_def list.pred_inject]

lemma int32_exact: "int32 i \<Longrightarrow> exactInt i"
  unfolding int32_def exactInt_def by simp arith

lemma exact_int64: "exactInt i \<Longrightarrow> int64 i"
  unfolding exactInt_def int64_def by simp arith

lemma smallNums_jint: "exactInt i \<Longrightarrow> smallNums (jint i)"
  by (simp add: jint_def ParseInt_show_int exact_int64) (simp add: exactInt_def)

lemma decodeIntN_32: "int32 i \<Longrightarrow> decodeIntN 32 old (jint i) = Some i"
  by (simp add: decodeIntN_def decodeInt_def jint_def ParseInt_show_int int32_exact exact_int64) (simp add: int32_def)

lemma decodeIntN_64: "exactInt i \<Longrightarrow> decodeIntN 64 old (jint i) = Some i"
  using exact_int64 [of i] by (simp add: decodeIntN_def decodeInt_def jint_def ParseInt_show_int) (simp add: int64_def)

lemma canon_jint: "canon (jint i) = jint i"
  by (simp add: jint_def)

lemma decode_atoms: "decodeString old (JStr s) = Some s" "decodeBool ob (JBool x) = Some x"
  by (simp_all add: decodeString_def decodeBool_def)

lemmas struct_simps = decodeStruct_def fieldOf_def keyIs_lower lower_names decodeIntN_32 decodeIntN_64 canon_jint decode_atoms
  smallNums_jint int32_exact

lemma decodeList_all: "(\<And>x. x \<in> set xs \<Longrightarrow> dec (enc x) = Some x) \<Longrightarrow> decodeList dec (map enc xs) = Some xs"
  by (induction xs) auto

lemma slice_strings: "decodeList (decodeString old) (map JStr ss) = Some ss" "list_all smallNums (map JStr ss)"
  by (auto simp: decode_atoms list_all_iff intro: decodeList_all)

text \<open>What the RPC layer needs of a message type.\<close>

locale rpc_message =
  fixes encode :: "'m \<Rightarrow> json" and decode :: "json \<Rightarrow> 'm option" and fits :: "'m \<Rightarrow> bool"
  assumes small: "fits m \<Longrightarrow> smallNums (encode m)"
    and decode_encode: "fits m \<Longrightarrow> decode (encode m) = Some m"
    and decode_canon: "fits m \<Longrightarrow> decode (canon (encode m)) = Some m"

begin

text \<open>A handler that answers with \<open>m\<close>: the caller gets \<open>m\<close>.\<close>

lemma call_returns:
  assumes "exactFloat fl" and "ready c" and "jok p" and "writeOk (written (cnet c))"
    and "map_of handlers method = Some h" and "h (Some p) (hstate (cnet c)) = (Inr (AnyVal (encode m)), s')" and "fits m"
  shows "\<exists>c'. Call fl (serverExchange handlers writeOk) method (AnyVal p) (Some decode) c = (Inr (Some m), c') \<and>
    hstate (cnet c') = s' \<and> ready c'"
proof -
  have "smallData handlers method p (hstate (cnet c))" using assms(5-7) small by (simp add: smallData_def)
  from Call_local [where result = "Some decode" and writeOk = writeOk, OF assms(1-4) this] show ?thesis
    using assms(5-7) decode_canon by (auto simp: localCall_def received_def marshals_def)
qed

text \<open>The parameters of a call are of the request type the handler decodes.\<close>

lemma params_decode: "fits m \<Longrightarrow> jok (encode m) \<and> decode (encode m) = Some m"
  by (simp add: decode_encode smallNums_jok small)

end

section \<open>The message types\<close>

interpretation document: rpc_message jsonDocument decodeDocument fitsDocument
  by unfold_locales
    (auto simp: jsonDocument_def decodeDocument_def fitsDocument_def sortedMembers_def struct_simps split: option.splits)

interpretation pagination: rpc_message jsonPagination decodePagination fitsPagination
  by unfold_locales
    (auto simp: jsonPagination_def decodePagination_def fitsPagination_def sortedMembers_def struct_simps split: option.splits)

interpretation healthCheckResponse: rpc_message jsonHealthCheckResponse decodeHealthCheckResponse fitsHealthCheckResponse
  by unfold_locales
    (auto simp: jsonHealthCheckResponse_def decodeHealthCheckResponse_def fitsHealthCheckResponse_def sortedMembers_def struct_simps split: option.splits)

interpretation searchRequest: rpc_message jsonSearchRequest decodeSearchRequest fitsSearchRequest
  by unfold_locales
    (auto simp: jsonSearchRequest_def decodeSearchRequest_def fitsSearchRequest_def sortedMembers_def struct_simps split: option.splits)

interpretation suggestRequest: rpc_message jsonSuggestRequest decodeSuggestRequest fitsSuggestRequest
  by unfold_locales
    (auto simp: jsonSuggestRequest_def decodeSuggestRequest_def fitsSuggestRequest_def sortedMembers_def struct_simps split: option.splits)

interpretation suggestResponse: rpc_message jsonSuggestResponse decodeSuggestResponse fitsSuggestResponse
  by unfold_locales
    (auto simp: jsonSuggestResponse_def decodeSuggestResponse_def fitsSuggestResponse_def sortedMembers_def struct_simps jsonSlice_def decodeSliceN_def slice_strings comp_def
      split: option.splits)

interpretation indexRequest: rpc_message jsonIndexRequest decodeIndexRequest fitsIndexRequest
  by unfold_locales
    (auto simp: jsonIndexRequest_def decodeIndexRequest_def fitsIndexRequest_def sortedMembers_def struct_simps split: option.splits)

interpretation indexResponse: rpc_message jsonIndexResponse decodeIndexResponse fitsIndexResponse
  by unfold_locales
    (auto simp: jsonIndexResponse_def decodeIndexResponse_def fitsIndexResponse_def sortedMembers_def struct_simps split: option.splits)

interpretation statsRequest: rpc_message jsonStatsRequest decodeStatsRequest fitsStatsRequest
  by unfold_locales
    (auto simp: jsonStatsRequest_def decodeStatsRequest_def fitsStatsRequest_def sortedMembers_def struct_simps split: option.splits)

interpretation shardStat: rpc_message jsonShardStat decodeShardStat fitsShardStat
  by unfold_locales
    (auto simp: jsonShardStat_def decodeShardStat_def fitsShardStat_def sortedMembers_def struct_simps split: option.splits)

interpretation flushRequest: rpc_message jsonFlushRequest decodeFlushRequest fitsFlushRequest
  by unfold_locales
    (auto simp: jsonFlushRequest_def decodeFlushRequest_def fitsFlushRequest_def sortedMembers_def struct_simps split: option.splits)

interpretation flushResponse: rpc_message jsonFlushResponse decodeFlushResponse fitsFlushResponse
  by unfold_locales
    (auto simp: jsonFlushResponse_def decodeFlushResponse_def fitsFlushResponse_def sortedMembers_def struct_simps split: option.splits)

lemma slice_shards:
  assumes "list_all fitsShardStat ss"
  shows "decodeList decodeShardStat (map jsonShardStat ss) = Some ss"
    and "decodeList decodeShardStat (map (\<lambda>s. canon (jsonShardStat s)) ss) = Some ss"
    and "list_all smallNums (map jsonShardStat ss)"
  using assms shardStat.small shardStat.decode_encode shardStat.decode_canon
  by (auto simp: list_all_iff intro!: decodeList_all)

interpretation statsResponse: rpc_message jsonStatsResponse decodeStatsResponse fitsStatsResponse
proof
  fix m
  assume "fitsStatsResponse m"
  then have f: "exactInt (spTotalDocs m)" "exactInt (spTotalSegments m)" "exactInt (spTotalSizeBytes m)"
    and s: "spShards m = None \<or> (\<exists>s ss. spShards m = Some (s # ss) \<and> list_all fitsShardStat (s # ss))"
    by (auto simp: fitsStatsResponse_def neq_Nil_conv split: option.splits)
  note S = slice_shards [of "_ # _", unfolded list.map]
  show "smallNums (jsonStatsResponse m)" "decodeStatsResponse (jsonStatsResponse m) = Some m"
    "decodeStatsResponse (canon (jsonStatsResponse m)) = Some m"
    using f s S by (auto simp: jsonStatsResponse_def decodeStatsResponse_def sortedMembers_def struct_simps decodeSliceN_def comp_def)
qed

end
