(* ===== verification/Tracing.thy ===== *)
theory Tracing
  imports Prelude
begin

text \<open>
  \<open>pkg/tracing/span.go\<close>. Spans are shared through pointers: a child is reachable from the context it was started with
  and from its parent. The heap is the list of spans allocated so far, a pointer is its position; a context carries the
  pointer of its span. Times are nanoseconds, 0 the zero time.
\<close>

section \<open>Spans\<close>

record 'v Span =
  spName :: string
  TraceID :: string
  StartTime :: int
  EndTime :: int
  spDuration :: int
  Children :: "nat list"
  Attrs :: "(string \<times> 'v) list"

type_synonym 'v heap = "'v Span list"

definition StartSpan :: "string \<Rightarrow> string \<Rightarrow> int \<Rightarrow> 'v heap \<Rightarrow> nat option \<times> nat \<times> 'v heap" where
  "StartSpan name traceID now h =
     (let span = \<lparr>spName = name, TraceID = traceID, StartTime = now, EndTime = 0, spDuration = 0, Children = [], Attrs = []\<rparr>
      in (Some (length h), length h, h @ [span]))"

definition SpanFromContext :: "nat option \<Rightarrow> nat option" where
  "SpanFromContext ctx = ctx"

definition StartChildSpan :: "nat option \<Rightarrow> string \<Rightarrow> int \<Rightarrow> 'v heap \<Rightarrow> nat option \<times> nat \<times> 'v heap" where
  "StartChildSpan ctx name now h =
     (let child = \<lparr>spName = name, TraceID = [], StartTime = now, EndTime = 0, spDuration = 0, Children = [], Attrs = []\<rparr>
      in case SpanFromContext ctx of
           None \<Rightarrow> (Some (length h), length h, h @ [child])
         | Some p \<Rightarrow>
             (Some (length h), length h,
              h[p := (h ! p)\<lparr>Children := Children (h ! p) @ [length h]\<rparr>] @ [child\<lparr>TraceID := TraceID (h ! p)\<rparr>]))"

definition End :: "nat \<Rightarrow> int \<Rightarrow> 'v heap \<Rightarrow> 'v heap" where
  "End s now h = h[s := (h ! s)\<lparr>EndTime := now, spDuration := now - StartTime (h ! s)\<rparr>]"

definition SetAttr :: "nat \<Rightarrow> string \<Rightarrow> 'v \<Rightarrow> 'v heap \<Rightarrow> 'v heap" where
  "SetAttr s key v h = h[s := (h ! s)\<lparr>Attrs := AList.update key v (Attrs (h ! s))\<rparr>]"

text \<open>A record written by \<open>logRecursive\<close>; \<open>Milliseconds\<close> truncates towards zero.\<close>

record 'v span_line =
  lnTraceID :: string
  lnSpan :: string
  lnMillis :: int
  lnDepth :: nat
  lnAttrs :: "(string \<times> 'v) list"

definition spanLine :: "'v Span \<Rightarrow> nat \<Rightarrow> 'v span_line" where
  "spanLine s depth =
     \<lparr>lnTraceID = TraceID s, lnSpan = spName s,
      lnMillis = (if spDuration s < 0 then - ((- spDuration s) div 1000000) else spDuration s div 1000000),
      lnDepth = depth, lnAttrs = Attrs s\<rparr>"

text \<open>The recursion over the children, with one unit of fuel per level; \<open>None\<close> when it is used up.\<close>

fun logRecursive :: "nat \<Rightarrow> 'v heap \<Rightarrow> nat \<Rightarrow> nat \<Rightarrow> 'v span_line list option"
  and logChildren :: "nat \<Rightarrow> 'v heap \<Rightarrow> nat \<Rightarrow> nat list \<Rightarrow> 'v span_line list option" where
  "logRecursive 0 h depth s = None"
| "logRecursive (Suc n) h depth s = map_option ((#) (spanLine (h ! s) depth)) (logChildren n h (depth + 1) (Children (h ! s)))"
| "logChildren n h depth [] = Some []"
| "logChildren n h depth (c # cs) =
     (case logRecursive n h depth c of
        None \<Rightarrow> None
      | Some ls \<Rightarrow> map_option ((@) ls) (logChildren n h depth cs))"

definition Log :: "'v heap \<Rightarrow> nat \<Rightarrow> 'v span_line list option" where
  "Log h s = logRecursive (length h) h 0 s"

section \<open>The heap is a forest\<close>

text \<open>
  Children are allocated after their parent, have its trace ID, and occur once.
\<close>

definition childOf :: "'v heap \<Rightarrow> nat \<Rightarrow> nat \<Rightarrow> bool" where
  "childOf h s c \<longleftrightarrow> s < length h \<and> c \<in> set (Children (h ! s))"

definition wf_heap :: "'v heap \<Rightarrow> bool" where
  "wf_heap h \<longleftrightarrow>
     (\<forall>s c. childOf h s c \<longrightarrow> s < c \<and> c < length h \<and> TraceID (h ! c) = TraceID (h ! s)) \<and>
     (\<forall>s s' c. childOf h s c \<longrightarrow> childOf h s' c \<longrightarrow> s = s') \<and>
     (\<forall>s < length h. distinct (Children (h ! s)))"

text \<open>A program using the package: contexts and pointers are those it was given.\<close>

inductive trace_step :: "'v heap \<Rightarrow> 'v heap \<Rightarrow> bool" where
  t_start: "StartSpan name traceID now h = (ctx, s, h') \<Longrightarrow> trace_step h h'"
| t_child: "(case ctx of None \<Rightarrow> True | Some p \<Rightarrow> p < length h) \<Longrightarrow> StartChildSpan ctx name now h = (ctx', s, h') \<Longrightarrow> trace_step h h'"
| t_end: "s < length h \<Longrightarrow> trace_step h (End s now h)"
| t_attr: "s < length h \<Longrightarrow> trace_step h (SetAttr s key v h)"

lemma wf_heapD:
  assumes "wf_heap h"
  shows "childOf h s c \<Longrightarrow> s < c" "childOf h s c \<Longrightarrow> c < length h" "childOf h s c \<Longrightarrow> TraceID (h ! c) = TraceID (h ! s)"
    and "childOf h s c \<Longrightarrow> childOf h s' c \<Longrightarrow> s = s'" and "s < length h \<Longrightarrow> distinct (Children (h ! s))"
  using assms by (simp_all add: wf_heap_def)

lemma wf_heap_same_tree:
  assumes "wf_heap h" and "length h' = length h"
    and "\<And>s. s < length h \<Longrightarrow> Children (h' ! s) = Children (h ! s) \<and> TraceID (h' ! s) = TraceID (h ! s)"
  shows "wf_heap h'"
proof -
  have c: "childOf h' s c \<longleftrightarrow> childOf h s c" for s c using assms(2,3) by (auto simp: childOf_def)
  have l: "s < length h" if "childOf h s c" for s c using that by (simp add: childOf_def)
  note D = wf_heapD [OF assms(1)]
  have "TraceID (h' ! c) = TraceID (h' ! s)" if "childOf h s c" for s c
    using D(2,3) [OF that] l [OF that] assms(3) by metis
  then show ?thesis unfolding wf_heap_def c assms(2) using D assms(3) by metis
qed

lemma wf_heap_alloc:
  assumes "wf_heap h" and "Children s = []"
  shows "wf_heap (h @ [s])"
proof -
  have c: "childOf (h @ [s]) a b \<longleftrightarrow> childOf h a b" for a b
    using assms(2) by (auto simp: childOf_def nth_append less_Suc_eq)
  note D = wf_heapD [OF assms(1)]
  have "a < b \<and> b < length (h @ [s]) \<and> TraceID ((h @ [s]) ! b) = TraceID ((h @ [s]) ! a)" if "childOf h a b" for a b
    using D(1-3) [OF that] by (simp add: nth_append)
  moreover have "distinct (Children ((h @ [s]) ! a))" if "a < length (h @ [s])" for a
    using that D(5) assms(2) by (auto simp: nth_append less_Suc_eq)
  ultimately show ?thesis unfolding wf_heap_def c using D(4) by blast
qed

lemma wf_heap_child:
  assumes "wf_heap h" and "p < length h" and "Children s = []" and "TraceID s = TraceID (h ! p)"
  shows "wf_heap (h[p := (h ! p)\<lparr>Children := Children (h ! p) @ [length h]\<rparr>] @ [s])"
proof -
  let ?h = "h[p := (h ! p)\<lparr>Children := Children (h ! p) @ [length h]\<rparr>] @ [s]"
  have c: "childOf ?h a b \<longleftrightarrow> childOf h a b \<or> (a = p \<and> b = length h)" for a b
    using assms(2,3) by (auto simp: childOf_def nth_append nth_list_update less_Suc_eq)
  have t: "TraceID (?h ! a) = (if a = length h then TraceID s else TraceID (h ! a))" if "a < length ?h" for a
    using that assms(2) by (auto simp: nth_append nth_list_update less_Suc_eq)
  have w: "a < b \<and> b < length h \<and> TraceID (h ! b) = TraceID (h ! a)" if "childOf h a b" for a b
    using assms(1) that by (simp add: wf_heap_def)
  have "distinct (Children (?h ! a))" if "a < length ?h" for a
  proof -
    have "length h \<notin> set (Children (h ! p))" using w [of p "length h"] assms(2) by (auto simp: childOf_def)
    then show ?thesis
      using that assms(1-3) by (auto simp: wf_heap_def nth_append nth_list_update less_Suc_eq)
  qed
  moreover have "a < b \<and> b < length ?h \<and> TraceID (?h ! b) = TraceID (?h ! a)" if "childOf ?h a b" for a b
    using that w [of a b] assms(2,4) unfolding c by (auto simp: t)
  moreover have "a = a'" if "childOf ?h a b" "childOf ?h a' b" for a a' b
    using that w assms(1) unfolding c wf_heap_def by blast
  ultimately show ?thesis unfolding wf_heap_def by blast
qed

lemma wf_heap_update:
  assumes "wf_heap h" and "Children s = Children (h ! a)" and "TraceID s = TraceID (h ! a)"
  shows "wf_heap (h[a := s])"
  by (rule wf_heap_same_tree [OF assms(1)]) (simp, metis assms(2,3) nth_list_update_eq nth_list_update_neq)

lemma wf_heap_step: "trace_step h h' \<Longrightarrow> wf_heap h \<Longrightarrow> wf_heap h'"
proof (induction rule: trace_step.induct)
  case (t_end s h now)
  then show ?case by (simp add: End_def wf_heap_update)
next
  case (t_attr s h key v)
  then show ?case by (simp add: SetAttr_def wf_heap_update)
next
  case (t_start name traceID now h ctx s h')
  then show ?case by (auto simp: StartSpan_def Let_def intro: wf_heap_alloc)
next
  case (t_child ctx h name now ctx' s h')
  then show ?case
    by (auto simp: StartChildSpan_def SpanFromContext_def Let_def split: option.splits intro: wf_heap_alloc wf_heap_child)
qed

section \<open>Logging a span\<close>

text \<open>The spans below a span, itself included, and the order in which they are logged.\<close>

fun walk :: "nat \<Rightarrow> 'v heap \<Rightarrow> nat \<Rightarrow> nat \<Rightarrow> (nat \<times> nat) list" where
  "walk 0 h depth s = []"
| "walk (Suc n) h depth s = (s, depth) # concat (map (walk n h (depth + 1)) (Children (h ! s)))"

lemma logRecursive_walk:
  assumes "wf_heap h" and "s < length h" and "length h - s \<le> n"
  shows "logRecursive n h depth s = Some (map (\<lambda>(a, d). spanLine (h ! a) d) (walk n h depth s))"
  using assms(2,3)
proof (induction n arbitrary: s depth)
  case (Suc n)
  have IH: "logRecursive n h d c = Some (map (\<lambda>(a, d). spanLine (h ! a) d) (walk n h d c))" if "c \<in> set (Children (h ! s))" for c d
  proof (rule Suc.IH)
    have "childOf h s c" using that Suc.prems(1) by (simp add: childOf_def)
    note D = wf_heapD(1,2) [OF assms(1) this]
    show "c < length h" "length h - c \<le> n" using D Suc.prems(2) by simp_all
  qed
  have "set cs \<subseteq> set (Children (h ! s)) \<Longrightarrow>
      logChildren n h d cs = Some (map (\<lambda>(a, d). spanLine (h ! a) d) (concat (map (walk n h d) cs)))" for cs d
    by (induction cs) (auto simp: IH)
  then show ?case by simp
qed simp

definition below :: "'v heap \<Rightarrow> nat \<Rightarrow> nat set" where
  "below h s = {a. (childOf h)\<^sup>*\<^sup>* s a}"

lemma below_unfold: "s < length h \<Longrightarrow> below h s = insert s (\<Union>c \<in> set (Children (h ! s)). below h c)"
  by (auto simp: below_def childOf_def elim: converse_rtranclpE intro: converse_rtranclp_into_rtranclp)

lemma below_mono: "wf_heap h \<Longrightarrow> a \<in> below h s \<Longrightarrow> s \<le> a"
proof -
  assume w: "wf_heap h" and a: "a \<in> below h s"
  from a have "(childOf h)\<^sup>*\<^sup>* s a" by (simp add: below_def)
  then show ?thesis by (induction rule: rtranclp_induct) (auto dest: wf_heapD(1) [OF w])
qed

text \<open>Two siblings have nothing below in common, since a span has one parent.\<close>

lemma below_disjoint:
  assumes "wf_heap h" and "childOf h s c" and "childOf h s c'" and "c \<noteq> c'" and "a \<in> below h c" and "a \<in> below h c'"
  shows False
proof -
  from assms(5) have "(childOf h)\<^sup>*\<^sup>* c a" by (simp add: below_def)
  moreover from assms(6) have "(childOf h)\<^sup>*\<^sup>* c' a" by (simp add: below_def)
  ultimately have "(childOf h)\<^sup>*\<^sup>* c c' \<or> (childOf h)\<^sup>*\<^sup>* c' c"
  proof (induction rule: rtranclp_induct)
    case (step y z)
    from step.prems show ?case
    proof (cases rule: rtranclp.cases)
      case rtrancl_refl
      then show ?thesis using step.hyps by auto
    next
      case (rtrancl_into_rtrancl y')
      then show ?thesis using wf_heapD(4) [OF assms(1) step.hyps(2)] step.IH by blast
    qed
  qed simp
  then have "childOf h s c \<and> c' \<in> below h c \<or> childOf h s c' \<and> c \<in> below h c'" using assms(2,3) by (simp add: below_def)
  moreover have False if x: "childOf h s x" "childOf h s y" "x \<noteq> y" "(childOf h)\<^sup>*\<^sup>* x y" for x y
  proof -
    from x(3,4) obtain z where z: "(childOf h)\<^sup>*\<^sup>* x z" "childOf h z y" by (metis rtranclp.cases)
    have "z = s" by (rule wf_heapD(4) [OF assms(1) z(2) x(2)])
    then have "x \<le> s" using below_mono [OF assms(1), of s x] z(1) by (simp add: below_def)
    then show False using wf_heapD(1) [OF assms(1) x(1)] by simp
  qed
  ultimately show False using assms(2-4) by (auto simp: below_def)
qed

lemma walk_below:
  assumes "wf_heap h" and "s < length h" and "length h - s \<le> n"
  shows "set (map fst (walk n h depth s)) = below h s \<and> distinct (map fst (walk n h depth s))"
  using assms(2,3)
proof (induction n arbitrary: s depth)
  case (Suc n)
  let ?cs = "Children (h ! s)"
  have ch: "childOf h s c" if "c \<in> set ?cs" for c using that Suc.prems(1) by (simp add: childOf_def)
  have IH: "set (map fst (walk n h d c)) = below h c \<and> distinct (map fst (walk n h d c))" if "c \<in> set ?cs" for c d
    using wf_heapD(1,2) [OF assms(1) ch [OF that]] Suc.prems(2) by (intro Suc.IH) auto
  have "set (map fst (walk (Suc n) h depth s)) = below h s"
    unfolding below_unfold [OF Suc.prems(1)] using IH by (auto simp: image_UN)
  moreover have "distinct cs \<Longrightarrow> set cs \<subseteq> set ?cs \<Longrightarrow> distinct (map fst (concat (map (walk n h (depth + 1)) cs)))" for cs
  proof (induction cs)
    case (Cons c cs)
    have "a \<notin> below h c'" if "a \<in> below h c" "c' \<in> set cs" for a c'
      using below_disjoint [OF assms(1) ch ch, of c c' a] that Cons.prems by auto
    moreover have "a \<in> below h c'" if "(a, b) \<in> set (walk n h (Suc depth) c')" "c' \<in> set cs" for a b c'
      using IH [of c' "Suc depth"] that Cons.prems(2) by force
    ultimately show ?case using Cons IH by (fastforce simp: map_concat)
  qed simp
  moreover have "s \<notin> below h c" if "c \<in> set ?cs" for c
    using below_mono [OF assms(1), of s c] wf_heapD(1) [OF assms(1) ch [OF that]] by auto
  ultimately show ?case
    using wf_heapD(5) [OF assms(1) Suc.prems(1)] IH by (auto simp: map_concat)
qed simp

text \<open>
  C33. Tracing: however spans are started from contexts, ended and annotated, the spans form a forest whose
  trees carry one trace ID each, and logging a span ends and writes exactly one record for each
  span below it, the span itself first, at depth 0.
\<close>

theorem Log_complete:
  assumes "trace_step\<^sup>*\<^sup>* [] h" and "s < length h"
  shows "wf_heap h \<and>
    (\<exists>w. Log h s = Some (map (\<lambda>(a, depth). spanLine (h ! a) depth) w) \<and> hd w = (s, 0) \<and> distinct (map fst w) \<and>
       set (map fst w) = below h s) \<and>
    (\<forall>a \<in> below h s. TraceID (h ! a) = TraceID (h ! s))"
proof -
  have w: "wf_heap h" using assms(1)
    by (induction rule: rtranclp_induct) (simp_all add: wf_heap_step, simp add: wf_heap_def childOf_def)
  have "hd (walk (length h) h 0 s) = (s, 0)" using assms(2) by (cases "length h") simp_all
  moreover note logRecursive_walk [OF w assms(2), of "length h" 0] walk_below [OF w assms(2), of "length h" 0]
  moreover have "TraceID (h ! a) = TraceID (h ! s)" if "a \<in> below h s" for a
  proof -
    from that have "(childOf h)\<^sup>*\<^sup>* s a" by (simp add: below_def)
    then show ?thesis by (induction rule: rtranclp_induct) (auto dest: wf_heapD(3) [OF w])
  qed
  ultimately show ?thesis using w unfolding Log_def by (intro conjI exI [of _ "walk (length h) h 0 s"]) auto
qed

text \<open>A request with a search and a cache lookup below it.\<close>

definition sampleSpans :: "nat heap" where
  "sampleSpans =
     (case StartSpan ''request'' ''t1'' 1 [] of (ctx, r0, h1) \<Rightarrow>
        (case StartChildSpan ctx ''search'' 2 h1 of (ctx2, s, h2) \<Rightarrow>
           (case StartChildSpan ctx2 ''cache'' 3 h2 of (_, c, h3) \<Rightarrow> End r0 9000001 (SetAttr s ''hits'' 7 h3))))"

theorem Log_complete_witness:
  "\<exists>w. Log sampleSpans 0 = Some (map (\<lambda>(a, depth). spanLine (sampleSpans ! a) depth) w) \<and> distinct (map fst w) \<and>
     length w = 3 \<and> TraceID (sampleSpans ! 2) = ''t1''"
proof -
  obtain h1 h2 h3 :: "nat heap" where h: "StartSpan ''request'' ''t1'' 1 [] = (Some 0, 0, h1)"
      "StartChildSpan (Some 0) ''search'' 2 h1 = (Some 1, 1, h2)" "StartChildSpan (Some 1) ''cache'' 3 h2 = (Some 2, 2, h3)"
      "length h1 = 1" "length h2 = 2" "length h3 = 3"
    by (simp add: StartSpan_def StartChildSpan_def SpanFromContext_def Let_def)
  then have s: "sampleSpans = End 0 9000001 (SetAttr 1 ''hits'' 7 h3)" by (simp add: sampleSpans_def)
  have "trace_step [] h1" by (rule t_start [OF h(1)])
  moreover have "trace_step h1 h2" by (rule t_child [OF _ h(2)]) (simp add: h(4))
  moreover have "trace_step h2 h3" by (rule t_child [OF _ h(3)]) (simp add: h(5))
  moreover have "trace_step h3 (SetAttr 1 ''hits'' 7 h3)" by (rule t_attr) (simp add: h(6))
  moreover have "trace_step (SetAttr 1 ''hits'' 7 h3) sampleSpans" unfolding s by (rule t_end) (simp add: SetAttr_def h(6))
  ultimately have r: "trace_step\<^sup>*\<^sup>* [] sampleSpans" by (meson converse_rtranclp_into_rtranclp rtranclp.rtrancl_refl)
  have l: "0 < length sampleSpans" "map_option length (Log sampleSpans 0) = Some 3" "TraceID (sampleSpans ! 2) = ''t1''"
    by code_simp+
  from Log_complete [OF r l(1)] obtain w where "Log sampleSpans 0 = Some (map (\<lambda>(a, depth). spanLine (sampleSpans ! a) depth) w)"
    "distinct (map fst w)" by blast
  with l(2,3) show ?thesis by (intro exI [of _ w]) simp
qed

end
