(* ===== verification/Http_Metrics.thy ===== *)
theory Http_Metrics
  imports Health Http
begin

text \<open>
  \<open>pkg/middleware/metrics.go\<close> and the part of \<open>pkg/metrics\<close> it uses: a counter per method, path and status,
  the durations per method and path, and the gauge of requests in flight. The wrapped handler is the list of its writes.
\<close>

record metrics =
  InFlight :: int
  RequestsTotal :: "((string \<times> string \<times> string) \<times> nat) list"
  Durations :: "((string \<times> string) \<times> int list) list"

record statusWriter =
  swReply :: reply
  swStatus :: int
  wroteHeader :: bool

definition swWriteHeader :: "int \<Rightarrow> statusWriter \<Rightarrow> statusWriter" where
  "swWriteHeader code sw =
     (let sw' = (if wroteHeader sw then sw else sw\<lparr>swStatus := code, wroteHeader := True\<rparr>)
      in sw'\<lparr>swReply := ServeHeader code (swReply sw')\<rparr>)"

definition swWrite :: "string \<Rightarrow> statusWriter \<Rightarrow> statusWriter" where
  "swWrite bs sw =
     (let sw' = (if wroteHeader sw then sw else sw\<lparr>wroteHeader := True\<rparr>)
      in sw'\<lparr>swReply := ServeBody bs (swReply sw')\<rparr>)"

datatype handler_write = WHeader int | WBody string

fun serveWrites :: "handler_write list \<Rightarrow> statusWriter \<Rightarrow> statusWriter" where
  "serveWrites [] sw = sw"
| "serveWrites (WHeader code # ws) sw = serveWrites ws (swWriteHeader code sw)"
| "serveWrites (WBody bs # ws) sw = serveWrites ws (swWrite bs sw)"

definition normalizePath :: "string \<Rightarrow> string" where
  "normalizePath path = path"

definition countRequest :: "string \<times> string \<times> string \<Rightarrow> metrics \<Rightarrow> metrics" where
  "countRequest key m =
     m\<lparr>RequestsTotal := AList.update key ((case map_of (RequestsTotal m) key of None \<Rightarrow> 0 | Some n \<Rightarrow> n) + 1) (RequestsTotal m)\<rparr>"

definition observe :: "string \<times> string \<Rightarrow> int \<Rightarrow> metrics \<Rightarrow> metrics" where
  "observe key d m =
     m\<lparr>Durations := AList.update key ((case map_of (Durations m) key of None \<Rightarrow> [] | Some ds \<Rightarrow> ds) @ [d]) (Durations m)\<rparr>"

text \<open>
  The middleware for one request that starts at \<open>start\<close> and whose handler returns at \<open>now\<close>, or panics (the deferred
  decrement runs, the counters do not).
\<close>

definition Metrics :: "int \<Rightarrow> int \<Rightarrow> bool \<Rightarrow> request \<Rightarrow> handler_write list \<Rightarrow> metrics \<Rightarrow> reply \<times> metrics" where
  "Metrics start now panics r ws m =
     (let m1 = m\<lparr>InFlight := InFlight m + 1\<rparr>;
          sw = serveWrites ws \<lparr>swReply = \<lparr>rCode = None, rBody = []\<rparr>, swStatus = 200, wroteHeader = False\<rparr>;
          path = normalizePath (urlPath r);
          m2 = (if panics then m1
                else observe (reqMethod r, path) (now - start)
                       (countRequest (reqMethod r, path, show_int (swStatus sw)) m1))
      in (swReply sw, m2\<lparr>InFlight := InFlight m2 - 1\<rparr>))"

text \<open>The status a client sees for a reply; a handler that wrote nothing answers 200.\<close>

definition clientStatus :: "reply \<Rightarrow> int" where
  "clientStatus w = (case rCode w of None \<Rightarrow> 200 | Some c \<Rightarrow> c)"

lemma serveWrites_status:
  "rCode (swReply sw) = (if wroteHeader sw then Some (swStatus sw) else None) \<Longrightarrow> (\<not> wroteHeader sw \<longrightarrow> swStatus sw = 200) \<Longrightarrow>
    clientStatus (swReply (serveWrites ws sw)) = swStatus (serveWrites ws sw)"
proof (induction ws arbitrary: sw)
  case (Cons w ws)
  then show ?case
    by (cases w) (auto simp: swWriteHeader_def swWrite_def ServeHeader_def ServeBody_def Let_def split: option.splits intro!: Cons.IH)
qed (auto simp: clientStatus_def)

text \<open>
  A request that is served is counted once, under the status the client sees, and the gauge is back at its value.
\<close>

theorem Metrics_counts:
  assumes "Metrics start now panics r ws m = (w, m')"
  shows "InFlight m' = InFlight m"
    and "map_of (RequestsTotal m') (meth, path, code) =
      (if \<not> panics \<and> meth = reqMethod r \<and> path = urlPath r \<and> code = show_int (clientStatus w)
       then Some ((case map_of (RequestsTotal m) (meth, path, code) of None \<Rightarrow> 0 | Some n \<Rightarrow> n) + 1)
       else map_of (RequestsTotal m) (meth, path, code))"
  using assms serveWrites_status [of "\<lparr>swReply = \<lparr>rCode = None, rBody = []\<rparr>, swStatus = 200, wroteHeader = False\<rparr>" ws]
  by (auto simp: Metrics_def Let_def observe_def countRequest_def normalizePath_def update_conv')

end
