(* ===== verification/Load_Test.thy ===== *)
theory Load_Test
  imports Prelude
begin

text \<open>
  \<open>cmd/loadtest/main.go\<close>: the statistics that concurrent workers record and the report made of them.
  A request's outcome is its duration and its status code, or an error. Durations are nanoseconds; the
  floating point arithmetic of the report is over the reals.
\<close>

section \<open>Recording\<close>

record Stats =
  totalRequests :: int
  successCount :: int
  errorCount :: int
  latencies :: "int list"
  statusCodes :: "(int \<times> int) list"

definition NewStats :: Stats where
  "NewStats = \<lparr>totalRequests = 0, successCount = 0, errorCount = 0, latencies = [], statusCodes = []\<rparr>"

text \<open>An outcome: the duration and \<open>Some\<close> status code, \<open>None\<close> when the request failed.\<close>

definition RecordRequest :: "int \<times> int option \<Rightarrow> Stats \<Rightarrow> Stats" where
  "RecordRequest = (\<lambda>(duration, outcome) s.
     let s1 = s\<lparr>totalRequests := totalRequests s + 1\<rparr>
     in case outcome of
          None \<Rightarrow> s1\<lparr>errorCount := errorCount s1 + 1\<rparr>
        | Some statusCode \<Rightarrow>
            (let s2 = (if 200 \<le> statusCode \<and> statusCode < 300 then s1\<lparr>successCount := successCount s1 + 1\<rparr>
                       else s1\<lparr>errorCount := errorCount s1 + 1\<rparr>);
                 s3 = s2\<lparr>latencies := latencies s2 @ [duration]\<rparr>
             in s3\<lparr>statusCodes := AList.update statusCode
                     ((case map_of (statusCodes s3) statusCode of None \<Rightarrow> 0 | Some n \<Rightarrow> n) + 1) (statusCodes s3)\<rparr>))"

section \<open>The requests\<close>

record lt_config =
  ltBaseURL :: string
  ltConcurrency :: int
  ltDuration :: int
  ltQueries :: "string list"

definition defaultQueries :: "string list" where
  "defaultQueries = [''distributed systems'', ''search engine'', ''analytics platform'', ''indexing documents'', ''query processing'',
     ''cache optimization'', ''ranking algorithm'', ''shard routing'', ''circuit breaker'', ''load balancing'', ''full text search'',
     ''inverted index'', ''BM25 ranking'', ''token stemming'', ''document ingestion'']"

text \<open>The configuration that \<open>main\<close> makes of its flags, \<open>None\<close> for a flag that is not given.\<close>

definition flagConfig :: "string option \<Rightarrow> int option \<Rightarrow> int option \<Rightarrow> lt_config" where
  "flagConfig base concurrency duration =
     \<lparr>ltBaseURL = (case base of None \<Rightarrow> ''http://localhost:8080'' | Some u \<Rightarrow> u),
      ltConcurrency = (case concurrency of None \<Rightarrow> 10 | Some n \<Rightarrow> n),
      ltDuration = (case duration of None \<Rightarrow> 30 * 1000000000 | Some d \<Rightarrow> d), ltQueries = defaultQueries\<rparr>"

text \<open>\<open>url.QueryEscape\<close>.\<close>

definition hexUpper :: "nat \<Rightarrow> char" where
  "hexUpper n = char_of (if n < 10 then 48 + n else 55 + n)"

definition unreserved :: "char \<Rightarrow> bool" where
  "unreserved c \<longleftrightarrow> (let n = of_char c :: nat in (48 \<le> n \<and> n \<le> 57) \<or> (65 \<le> n \<and> n \<le> 90) \<or> (97 \<le> n \<and> n \<le> 122)) \<or> c \<in> set ''-_.~''"

definition QueryEscape :: "string \<Rightarrow> string" where
  "QueryEscape s = concat (map (\<lambda>c. if unreserved c then [c] else if c = CHR '' '' then ''+''
     else [CHR ''%'', hexUpper (of_char c div 16), hexUpper (of_char c mod 16)]) s)"

definition searchURL :: "string \<Rightarrow> string \<Rightarrow> string" where
  "searchURL base query = base @ ''/api/v1/search?q='' @ QueryEscape query @ ''&limit=10''"

text \<open>\<open>valid\<close> says whether \<open>http.NewRequestWithContext\<close> takes the URL; \<open>None\<close> is the panic.\<close>

definition mustNewRequest :: "(string \<Rightarrow> bool) \<Rightarrow> string \<Rightarrow> (string \<times> string) option" where
  "mustNewRequest valid rawURL = (if valid rawURL then Some (''GET'', rawURL) else None)"

text \<open>
  A worker from its query index, over the outcomes of the requests that it makes until the deadline: the requests with their outcomes, or
  \<open>None\<close> when it panics.
\<close>

fun workerLoop ::
  "lt_config \<Rightarrow> (string \<Rightarrow> bool) \<Rightarrow> nat \<Rightarrow> (int \<times> int option) list \<Rightarrow> ((string \<times> string) \<times> int \<times> int option) list option" where
  "workerLoop cfg valid queryIdx [] = Some []"
| "workerLoop cfg valid queryIdx (out # outs) =
     (if ltQueries cfg = [] then None
      else
        (let query = ltQueries cfg ! (queryIdx mod length (ltQueries cfg));
             queryIdx = queryIdx + 1
         in case mustNewRequest valid (searchURL (ltBaseURL cfg) query) of
              None \<Rightarrow> None
            | Some req \<Rightarrow> map_option (\<lambda>rs. (req, out) # rs) (workerLoop cfg valid queryIdx outs)))"

text \<open>
  A worker starts at its own number and goes round the queries; the outcomes of all workers arrive in some order.
\<close>

definition workerQuery :: "string list \<Rightarrow> nat \<Rightarrow> nat \<Rightarrow> string" where
  "workerQuery queries workerID k = queries ! ((workerID + k) mod length queries)"

definition runLoadTest :: "(int \<times> int option) list \<Rightarrow> Stats" where
  "runLoadTest outcomes = fold RecordRequest outcomes NewStats"

section \<open>The report\<close>

definition percentile :: "int list \<Rightarrow> real \<Rightarrow> int" where
  "percentile ls p =
     (if ls = [] then 0
      else
        (let idx = \<lceil>p / 100 * real (length ls)\<rceil> - 1;
             idx = (if idx < 0 then 0 else idx);
             idx = (if int (length ls) \<le> idx then int (length ls) - 1 else idx)
         in ls ! nat idx))"

definition quotTrunc :: "int \<Rightarrow> int \<Rightarrow> int" where
  "quotTrunc a n = (if a < 0 then - ((- a) div n) else a div n)"

record latency_report =
  lrMin :: int
  lrAvg :: int
  lrP50 :: int
  lrP90 :: int
  lrP95 :: int
  lrP99 :: int
  lrMax :: int
  lrStdDev :: int

record report =
  rpTotal :: int
  rpSuccess :: int
  rpErrors :: int
  rpRates :: "(real \<times> real) option"
  rpLatency :: "latency_report option"
  rpCodes :: "(int \<times> int) list"
  rpExit :: bool

definition latencyReport :: "int list \<Rightarrow> latency_report option" where
  "latencyReport lats =
     (if lats = [] then None
      else
        (let ls = sort lats;
             avg = quotTrunc (sum_list ls) (int (length ls));
             sumSquared = sum_list (map (\<lambda>l. (real_of_int l - real_of_int avg) ^ 2) ls)
         in Some \<lparr>lrMin = ls ! 0, lrAvg = avg, lrP50 = percentile ls 50, lrP90 = percentile ls 90, lrP95 = percentile ls 95,
                  lrP99 = percentile ls 99, lrMax = ls ! (length ls - 1), lrStdDev = \<lfloor>sqrt (sumSquared / real (length ls))\<rfloor>\<rparr>))"

definition printReport :: "Stats \<Rightarrow> real \<Rightarrow> report" where
  "printReport s seconds =
     \<lparr>rpTotal = totalRequests s, rpSuccess = successCount s, rpErrors = errorCount s,
      rpRates = (if 0 < totalRequests s
        then Some (real_of_int (errorCount s) / real_of_int (totalRequests s) * 100, real_of_int (totalRequests s) / seconds)
        else None),
      rpLatency = latencyReport (latencies s),
      rpCodes = sort_key fst (statusCodes s),
      rpExit = (totalRequests s = 0)\<rparr>"

section \<open>What a worker asks\<close>

text \<open>On a base URL that is taken with every escaped query, a worker with queries makes every request, in the order of \<open>workerQuery\<close>.\<close>

lemma workerLoop_requests:
  assumes "ltQueries cfg \<noteq> []" and "\<forall>q \<in> set (ltQueries cfg). valid (searchURL (ltBaseURL cfg) q)"
  shows "\<exists>rs. workerLoop cfg valid w outs = Some rs \<and> map snd rs = outs \<and>
    map fst rs = map (\<lambda>k. (''GET'', searchURL (ltBaseURL cfg) (workerQuery (ltQueries cfg) w k))) [0..<length outs]"
proof (induction outs arbitrary: w)
  case (Cons out outs)
  obtain rs where rs: "workerLoop cfg valid (w + 1) outs = Some rs" "map snd rs = outs"
    "map fst rs = map (\<lambda>k. (''GET'', searchURL (ltBaseURL cfg) (workerQuery (ltQueries cfg) (w + 1) k))) [0..<length outs]"
    using Cons by blast
  have "valid (searchURL (ltBaseURL cfg) (ltQueries cfg ! (w mod length (ltQueries cfg))))" using assms by simp
  then have "workerLoop cfg valid w (out # outs) =
      Some (((''GET'', searchURL (ltBaseURL cfg) (workerQuery (ltQueries cfg) w 0)), out) # rs)"
    using assms(1) rs(1) by (simp add: mustNewRequest_def workerQuery_def Let_def)
  moreover have "[0..<length (out # outs)] = 0 # map Suc [0..<length outs]" by (simp add: map_Suc_upt upt_conv_Cons del: upt_Suc)
  ultimately show ?case using rs(2,3) by (simp add: workerQuery_def del: upt_Suc)
qed simp

section \<open>The report does not depend on the interleaving\<close>

definition isSuccess :: "int \<times> int option \<Rightarrow> bool" where
  "isSuccess x \<longleftrightarrow> (case snd x of None \<Rightarrow> False | Some c \<Rightarrow> 200 \<le> c \<and> c < 300)"

definition codeCount :: "int \<Rightarrow> (int \<times> int option) list \<Rightarrow> int" where
  "codeCount c xs = int (length (filter (\<lambda>x. snd x = Some c) xs))"

lemma runLoadTest_spec:
  "totalRequests (runLoadTest xs) = int (length xs) \<and> successCount (runLoadTest xs) = int (length (filter isSuccess xs)) \<and>
   errorCount (runLoadTest xs) = int (length (filter (\<lambda>x. \<not> isSuccess x) xs)) \<and>
   latencies (runLoadTest xs) = map fst (filter (\<lambda>x. snd x \<noteq> None) xs) \<and>
   distinct (map fst (statusCodes (runLoadTest xs))) \<and>
   (\<forall>c. map_of (statusCodes (runLoadTest xs)) c = (if codeCount c xs = 0 then None else Some (codeCount c xs)))"
proof (induction xs rule: rev_induct)
  case Nil
  then show ?case by (simp add: runLoadTest_def NewStats_def codeCount_def)
next
  case (snoc x xs)
  have r: "runLoadTest (xs @ [x]) = RecordRequest x (runLoadTest xs)" by (simp add: runLoadTest_def)
  obtain d o' where x: "x = (d, o')" by fastforce
  show ?case
  proof (cases o')
    case None
    have "codeCount c (xs @ [x]) = codeCount c xs" for c by (simp add: codeCount_def x None)
    with snoc None show ?thesis unfolding r by (simp add: x RecordRequest_def Let_def isSuccess_def)
  next
    case (Some c)
    have k: "codeCount c' (xs @ [x]) = codeCount c' xs + (if c' = c then 1 else 0)" for c'
      by (simp add: codeCount_def x Some)
    have "0 \<le> codeCount c' xs" for c' by (simp add: codeCount_def)
    then have p: "codeCount c' xs + 1 \<noteq> 0" for c' by (smt (verit))
    show ?thesis
      unfolding r k using snoc p by (auto simp: x Some RecordRequest_def Let_def isSuccess_def update_conv' distinct_update)
  qed
qed

lemma sort_key_map_of:
  assumes "distinct (map fst xs)" and "distinct (map fst ys)" and "map_of xs = map_of ys"
  shows "sort_key fst xs = sort_key fst (ys :: ('k :: linorder \<times> 'v) list)"
proof -
  have "p \<in> set xs \<longleftrightarrow> p \<in> set ys" for p
    using map_of_eq_Some_iff [OF assms(1), of "fst p" "snd p"] map_of_eq_Some_iff [OF assms(2), of "fst p" "snd p"] assms(3) by simp
  then have "set xs = set ys" by blast
  then have "mset xs = mset ys" using assms(1,2) by (simp add: distinct_map set_eq_iff_mset_eq_distinct)
  then show ?thesis using assms(1) by (rule sort_key_unique)
qed

text \<open>
  The report depends on which outcomes the workers recorded, not on the order in which they arrived.
\<close>

theorem report_interleaving:
  assumes "mset xs = mset ys"
  shows "printReport (runLoadTest xs) seconds = printReport (runLoadTest ys) seconds"
proof -
  note X = runLoadTest_spec [of xs] and Y = runLoadTest_spec [of ys]
  have len: "length (filter P xs) = length (filter P ys)" for P using assms by (metis mset_filter size_mset)
  then have c: "codeCount c xs = codeCount c ys" for c by (simp add: codeCount_def)
  have l: "mset (latencies (runLoadTest xs)) = mset (latencies (runLoadTest ys))" using X Y assms by (simp add: mset_filter)
  then have "sort (latencies (runLoadTest xs)) = sort (latencies (runLoadTest ys))" by (rule sort_mset_eq)
  moreover have "latencies (runLoadTest xs) = [] \<longleftrightarrow> latencies (runLoadTest ys) = []" using l by (metis mset_zero_iff)
  ultimately have "latencyReport (latencies (runLoadTest xs)) = latencyReport (latencies (runLoadTest ys))"
    by (simp add: latencyReport_def)
  moreover have "sort_key fst (statusCodes (runLoadTest xs)) = sort_key fst (statusCodes (runLoadTest ys))"
    using X Y c by (intro sort_key_map_of) auto
  moreover have "length xs = length ys" using assms by (rule mset_eq_length)
  ultimately show ?thesis using X Y len by (simp add: printReport_def)
qed

lemma percentile_index:
  "ls \<noteq> [] \<Longrightarrow> percentile ls p = ls ! nat (min (max 0 (\<lceil>p / 100 * real (length ls)\<rceil> - 1)) (int (length ls) - 1))"
  unfolding percentile_def Let_def min_def max_def by (auto intro!: arg_cong [where f = "\<lambda>i. ls ! nat i"])

text \<open>
  Nearest rank: at least \<open>p\<close> percent of the latencies are at most the \<open>p\<close>-th percentile, and fewer are below it.
\<close>

theorem nearest_rank:
  assumes "sorted ls" and "ls \<noteq> []" and "0 < p" and "p \<le> 100"
  shows "p / 100 * real (length ls) \<le> real (length (filter (\<lambda>x. x \<le> percentile ls p) ls))"
    and "real (length (filter (\<lambda>x. x < percentile ls p) ls)) < p / 100 * real (length ls)"
proof -
  let ?q = "p / 100 * real (length ls)"
  define z where "z = \<lceil>?q\<rceil>"
  define k where "k = nat (z - 1)"
  have "0 < ?q" "?q \<le> real (length ls)" using assms(2-4) by (auto simp: field_simps)
  then have c: "0 < z" "z \<le> int (length ls)" by (simp_all only: z_def ceiling_le_iff zero_less_ceiling of_int_of_nat_eq)
  then have k: "k < length ls" "int k = z - 1" by (auto simp: k_def)
  then have q: "real k < ?q" "?q \<le> real k + 1" unfolding z_def by linarith+
  have "nat (min (max 0 (z - 1)) (int (length ls) - 1)) = k" using c by (simp add: k_def)
  then have v: "percentile ls p = ls ! k" using percentile_index [OF assms(2), of p] by (simp only: z_def)
  have "filter (\<lambda>x. x \<le> ls ! k) (take (Suc k) ls) = take (Suc k) ls"
    using assms(1) k(1) by (intro filter_True) (auto simp: in_set_conv_nth sorted_nth_mono)
  then have "Suc k \<le> length (filter (\<lambda>x. x \<le> ls ! k) ls)"
    using k(1) by (metis Suc_leI append_take_drop_id filter_append le_add1 length_append length_take min.absorb2)
  then show "?q \<le> real (length (filter (\<lambda>x. x \<le> percentile ls p) ls))" unfolding v using q(2) by linarith
  have "filter (\<lambda>x. x < ls ! k) (drop k ls) = []"
    using assms(1) k(1) by (auto simp: filter_empty_conv in_set_conv_nth not_less sorted_nth_mono)
  then have "filter (\<lambda>x. x < ls ! k) ls = filter (\<lambda>x. x < ls ! k) (take k ls)"
    by (metis append_Nil2 append_take_drop_id filter_append)
  then have "length (filter (\<lambda>x. x < ls ! k) ls) \<le> k" using length_filter_le [of "\<lambda>x. x < ls ! k" "take k ls"] k(1) by simp
  then show "real (length (filter (\<lambda>x. x < percentile ls p) ls)) < ?q" unfolding v using q(1) by linarith
qed

lemma nearest_rank_mono:
  assumes "sorted ls" and "p \<le> q"
  shows "percentile ls p \<le> percentile ls q"
proof (cases "ls = []")
  case False
  have "p / 100 * real (length ls) \<le> q / 100 * real (length ls)" using assms(2) by (simp add: mult_right_mono divide_right_mono)
  then have "\<lceil>p / 100 * real (length ls)\<rceil> \<le> \<lceil>q / 100 * real (length ls)\<rceil>" by (rule ceiling_mono)
  moreover have "nat (min (max 0 (x - 1)) (int (length ls) - 1)) \<le> nat (min (max 0 (y - 1)) (int (length ls) - 1))" if "x \<le> y" for x y
    using that by (intro nat_mono) (simp add: min_def max_def)
  moreover have "0 < length ls" using False by simp
  then have "nat (min x (int (length ls) - 1)) < length ls" for x by linarith
  ultimately show ?thesis unfolding percentile_index [OF False] using assms(1) by (intro sorted_nth_mono) auto
qed (simp add: percentile_def)

end
