(* ===== verification/Auth_Cli.thy ===== *)
theory Auth_Cli
  imports Api_Keys
begin

text \<open>
  \<open>cmd/auth/main.go\<close>: the command line that creates, revokes and lists API keys. A command ends with an exit
  code and what it printed. \<open>parseOne\<close> is the loop of \<open>flag.FlagSet.Parse\<close> for flags that take a value,
  which is checked (\<open>valid\<close>) when it is set; the conversions \<open>strconv.ParseInt\<close> with base 0 and \<open>time.ParseDuration\<close> are parameters.
\<close>

section \<open>Flags\<close>

datatype flag_error = HelpRequested | BadSyntax string | NotDefined string | NeedsArgument string | InvalidValue string

text \<open>The name and value of \<open>-name=value\<close>; an \<open>=\<close> in first position does not count.\<close>

definition splitFlag :: "string \<Rightarrow> string \<times> string option" where
  "splitFlag s =
     (case s of
        [] \<Rightarrow> ([], None)
      | c # cs \<Rightarrow>
          (case dropWhile (\<lambda>x. x \<noteq> CHR ''='') cs of
             [] \<Rightarrow> (s, None)
           | _ # v \<Rightarrow> (c # takeWhile (\<lambda>x. x \<noteq> CHR ''='') cs, Some v)))"

fun parseOne :: "(string \<Rightarrow> string \<Rightarrow> bool) \<Rightarrow> string list \<Rightarrow> string list \<Rightarrow> (string \<times> string) list \<Rightarrow> flag_error + (string \<times> string) list" where
  "parseOne valid defined [] vals = Inr vals"
| "parseOne valid defined (s # args) vals =
     (if length s < 2 \<or> hd s \<noteq> CHR ''-'' then Inr vals
      else if s = ''--'' then Inr vals
      else
        (let name = (if s ! 1 = CHR ''-'' then drop 2 s else drop 1 s)
         in if name = [] \<or> hd name = CHR ''-'' \<or> hd name = CHR ''='' then Inl (BadSyntax s)
            else
              (case splitFlag name of
                 (n, v) \<Rightarrow>
                   (if n \<notin> set defined then Inl (if n = ''help'' \<or> n = ''h'' then HelpRequested else NotDefined n)
                    else
                      (case v of
                         Some x \<Rightarrow> if valid n x then parseOne valid defined args ((n, x) # vals) else Inl (InvalidValue n)
                       | None \<Rightarrow>
                           (case args of
                              [] \<Rightarrow> Inl (NeedsArgument n)
                            | x # args' \<Rightarrow>
                                if valid n x then parseOne valid defined args' ((n, x) # vals) else Inl (InvalidValue n)))))))"

definition flagValue :: "(string \<times> string) list \<Rightarrow> string \<Rightarrow> string \<Rightarrow> string" where
  "flagValue vals n dflt = (case map_of vals n of None \<Rightarrow> dflt | Some v \<Rightarrow> v)"

section \<open>Commands\<close>

datatype cli_output =
  Nothing
| FlagUsage flag_error
| Usage "string option"
| NameRequired
| KeyRequired
| InvalidExpiry string
| Failed key_error
| Created string string int "int option"
| Revoked
| NoKeys
| Keys "KeyInfo list" nat

text \<open>\<open>flag.ExitOnError\<close>: 0 after the help text, else 2.\<close>

definition flagExit :: "flag_error \<Rightarrow> int \<times> cli_output" where
  "flagExit err = (if err = HelpRequested then 0 else 2, FlagUsage err)"

definition cmdCreate ::
  "(string \<Rightarrow> int option) \<Rightarrow> (string \<Rightarrow> int option) \<Rightarrow> ('d \<Rightarrow> string \<Rightarrow> string \<Rightarrow> int \<Rightarrow> int option \<Rightarrow> string option \<times> 'd) \<Rightarrow>
   string \<Rightarrow> int \<Rightarrow> string list \<Rightarrow> 'd \<Rightarrow> (int \<times> cli_output) \<times> 'd" where
  "cmdCreate parseInt parseDuration insertKey randomBytes now args d =
     (case parseOne (\<lambda>n v. n = ''rate-limit'' \<longrightarrow> parseInt v \<noteq> None) [''name'', ''rate-limit'', ''expires-in''] args [] of
        Inl err \<Rightarrow> (flagExit err, d)
      | Inr vals \<Rightarrow>
             (let name = flagValue vals ''name'' [];
                  rateLimit = (case map_of vals ''rate-limit'' of None \<Rightarrow> 100 | Some v \<Rightarrow> the (parseInt v));
                  expiresIn = flagValue vals ''expires-in'' []
              in if name = [] then ((1, NameRequired), d)
                 else if expiresIn \<noteq> [] \<and> parseDuration expiresIn = None then ((1, InvalidExpiry expiresIn), d)
                 else
                   (let expiresAt = (if expiresIn = [] then None else map_option (\<lambda>x. now + x) (parseDuration expiresIn))
                    in case CreateKey insertKey randomBytes name rateLimit expiresAt d of
                         (Inl err, d') \<Rightarrow> ((1, Failed err), d')
                       | (Inr key, d') \<Rightarrow> ((0, Created key name rateLimit expiresAt), d'))))"

definition cmdRevoke :: "('d \<Rightarrow> string \<Rightarrow> (string + int) \<times> 'd) \<Rightarrow> string list \<Rightarrow> 'd \<Rightarrow> (int \<times> cli_output) \<times> 'd" where
  "cmdRevoke revokeKey args d =
     (case parseOne (\<lambda>_ _. True) [''key''] args [] of
        Inl err \<Rightarrow> (flagExit err, d)
      | Inr vals \<Rightarrow>
          (let key = flagValue vals ''key'' []
           in if key = [] then ((1, KeyRequired), d)
              else (case RevokeKey revokeKey d key of
                      (Some err, d') \<Rightarrow> ((1, Failed err), d')
                    | (None, d') \<Rightarrow> ((0, Revoked), d'))))"

definition cmdList :: "('d \<Rightarrow> string + KeyInfo option list \<times> string option) \<Rightarrow> 'd \<Rightarrow> int \<times> cli_output" where
  "cmdList selectKeys d =
     (case ListKeys selectKeys d of
        Inl err \<Rightarrow> (1, Failed err)
      | Inr keys \<Rightarrow> if keys = [] then (0, NoKeys) else (0, Keys keys (length keys)))"

text \<open>The command after the global flags, with a connected database.\<close>

definition authMain ::
  "(string \<Rightarrow> int option) \<Rightarrow> (string \<Rightarrow> int option) \<Rightarrow> ('d \<Rightarrow> string \<Rightarrow> string \<Rightarrow> int \<Rightarrow> int option \<Rightarrow> string option \<times> 'd) \<Rightarrow>
   ('d \<Rightarrow> string \<Rightarrow> (string + int) \<times> 'd) \<Rightarrow> ('d \<Rightarrow> string + KeyInfo option list \<times> string option) \<Rightarrow>
   string \<Rightarrow> int \<Rightarrow> string list \<Rightarrow> 'd \<Rightarrow> (int \<times> cli_output) \<times> 'd" where
  "authMain parseInt parseDuration insertKey revokeKey selectKeys randomBytes now args d =
     (case args of
        [] \<Rightarrow> ((1, Usage None), d)
      | c # rest \<Rightarrow>
          (if c = ''create'' then cmdCreate parseInt parseDuration insertKey randomBytes now rest d
           else if c = ''revoke'' then cmdRevoke revokeKey rest d
           else if c = ''list'' then (cmdList selectKeys d, d)
           else ((1, Usage (Some c)), d)))"

section \<open>Properties\<close>

text \<open>Anything but a creation or a revocation leaves the table alone, as does a command that fails before the database.\<close>

definition changesTable :: "cli_output \<Rightarrow> bool" where
  "changesTable out = (case out of Failed _ \<Rightarrow> True | Created _ _ _ _ \<Rightarrow> True | Revoked \<Rightarrow> True | _ \<Rightarrow> False)"

lemma authMain_frame:
  assumes "authMain parseInt parseDuration insertKey revokeKey selectKeys rb now args d = ((code, out), d')" and "\<not> changesTable out"
  shows "d' = d"
  using assms
  by (auto simp: authMain_def cmdCreate_def cmdRevoke_def flagExit_def Let_def changesTable_def
      split: list.splits if_splits sum.splits prod.splits option.splits)

text \<open>A value that does not look like a flag is taken as the value after its flag.\<close>

lemma parseOne_long:
  assumes "n \<in> set defined" and "n \<noteq> []" and "hd n \<noteq> CHR ''-''" and "hd n \<noteq> CHR ''=''" and "CHR ''='' \<notin> set n" and "valid n v"
  shows "parseOne valid defined ((''--'' @ n) # v # args) vals = parseOne valid defined args ((n, v) # vals)"
proof -
  obtain c cs where n: "n = c # cs" using assms(2) by (cases n) auto
  have d: "dropWhile (\<lambda>x. x \<noteq> CHR ''='') cs = []" using assms(5) n by auto
  have "splitFlag n = (n, None)" unfolding splitFlag_def n list.case d ..
  with assms n show ?thesis by (auto simp: Let_def)
qed

text \<open>
  The key that \<open>create\<close> prints validates with the name, limit and expiry it was given, until
  \<open>revoke\<close> is called with it.
\<close>

theorem cli_lifecycle:
  assumes "api_keys_db findKey insertKey revokeKey"
    and "authMain parseInt parseDuration insertKey revokeKey selectKeys rb now args d = ((code, Created key name rate ex), d1)"
    and "authMain parseInt parseDuration insertKey revokeKey selectKeys rb' now' [''revoke'', ''--key'', key] d1 = ((0, Revoked), d2)"
  shows "code = 0 \<and> name \<noteq> [] \<and> key = hexString rb \<and>
    (\<exists>info. kiName info = name \<and> kiRateLimit info = rate \<and>
      (\<forall>t. Validate findKey t d1 key = (if \<exists>x. ex = Some x \<and> x < t then Inl ErrExpiredKey else Inr info))) \<and>
    (\<forall>t. Validate findKey t d2 key = Inl ErrInvalidKey)"
proof -
  have c: "CreateKey insertKey rb name rate ex d = (Inr key, d1)" "code = 0" "name \<noteq> []"
    using assms(2)
    by (auto simp: authMain_def cmdCreate_def cmdRevoke_def cmdList_def flagExit_def Let_def split: list.splits if_splits sum.splits prod.splits option.splits)
  have k: "parseOne (\<lambda>_ _. True) [''key''] [''--key'', key] [] = Inr [(''key'', key)]"
    using parseOne_long [of "''key''" "[''key'']" "\<lambda>_ _. True" key "[]" "[]"] by simp
  have r: "RevokeKey revokeKey d1 key = (None, d2)"
    using assms(3) unfolding authMain_def cmdRevoke_def
    by (simp add: k flagValue_def Let_def del: parseOne.simps(2) split: if_splits prod.splits option.splits)
  from api_keys_db.created_valid [OF assms(1) c(1)] obtain info where i: "key = hexString rb" "kiName info = name" "kiRateLimit info = rate"
    "\<forall>t. Validate findKey t d1 key = (case ex of Some x \<Rightarrow> if x < t then Inl ErrExpiredKey else Inr info | None \<Rightarrow> Inr info)"
    by blast
  then have "\<forall>t. Validate findKey t d1 key = (if \<exists>x. ex = Some x \<and> x < t then Inl ErrExpiredKey else Inr info)"
    by (auto split: option.splits)
  with c i(1-3) api_keys_db.revoked_invalid [OF assms(1) r] show ?thesis by blast
qed

end
