(* ===== verification/Configuration.thy ===== *)
theory Configuration
  imports Http
begin

text \<open>
  \<open>pkg/config/config.go\<close>: the configuration structs, the defaults, \<open>Load\<close> and the overrides from the
  environment. Reading the file and the YAML decoder are parameters; the decoder overwrites the fields
  the file mentions in the configuration it is given. Durations are nanoseconds.
\<close>

record ServerConfig =
  svPort :: int
  svReadTimeout :: int
  svWriteTimeout :: int
  svShutdownTimeout :: int

record PostgresConfig =
  pgHost :: string
  pgPort :: int
  pgDatabase :: string
  pgUser :: string
  pgPassword :: string
  pgSSLMode :: string
  pgMaxOpenConns :: int
  pgMaxIdleConns :: int
  pgConnMaxLifetime :: int

record KafkaTopics =
  tpDocumentIngest :: string
  tpIndexComplete :: string
  tpCacheInvalidate :: string
  tpAnalyticsEvents :: string

record KafkaConfig =
  kfBrokers :: "string list"
  kfConsumerGroup :: string
  kfTopics :: KafkaTopics

record RedisConfig =
  rdAddr :: string
  rdPassword :: string
  rdDB :: int
  rdPoolSize :: int
  rdCacheTTL :: int

record IndexerConfig =
  ixDataDir :: string
  ixSegmentMaxSize :: int
  ixMergeInterval :: int
  ixFlushInterval :: int
  ixMaxSegmentsBeforeMerge :: int

record SearchConfig =
  scMaxResults :: int
  scDefaultLimit :: int
  scTimeoutPerShard :: int
  scMaxConcurrentQueries :: int

record LoggingConfig =
  lgLevel :: string
  lgFormat :: string

record TracingConfig =
  trEnabled :: bool
  trEndpoint :: string
  trSampleRate :: real

record MetricsConfig =
  mtEnabled :: bool
  mtPort :: int

record GatewayConfig =
  gwPort :: int
  gwIngestionURL :: string
  gwSearcherURL :: string

record Config =
  cfServer :: ServerConfig
  cfPostgres :: PostgresConfig
  cfKafka :: KafkaConfig
  cfRedis :: RedisConfig
  cfIndexer :: IndexerConfig
  cfSearch :: SearchConfig
  cfGateway :: GatewayConfig
  cfLogging :: LoggingConfig
  cfTracing :: TracingConfig
  cfMetrics :: MetricsConfig

definition DSN :: "PostgresConfig \<Rightarrow> string" where
  "DSN p = ''host='' @ pgHost p @ '' port='' @ show_int (pgPort p) @ '' user='' @ pgUser p @
     '' password='' @ pgPassword p @ '' dbname='' @ pgDatabase p @ '' sslmode='' @ pgSSLMode p"

definition Second :: int where "Second = 1000000000"

text \<open>The sections a composite literal does not mention have Go's zero values.\<close>

definition defaultConfig :: Config where
  "defaultConfig = \<lparr>
     cfServer = \<lparr>svPort = 8080, svReadTimeout = 30 * Second, svWriteTimeout = 30 * Second, svShutdownTimeout = 15 * Second\<rparr>,
     cfPostgres = \<lparr>pgHost = ''localhost'', pgPort = 5432, pgDatabase = ''searchplatform'', pgUser = ''searchplatform'',
       pgPassword = ''localdev'', pgSSLMode = ''disable'', pgMaxOpenConns = 25, pgMaxIdleConns = 5,
       pgConnMaxLifetime = 5 * 60 * Second\<rparr>,
     cfKafka = \<lparr>kfBrokers = [''localhost:9092''], kfConsumerGroup = ''searchplatform-group'',
       kfTopics = \<lparr>tpDocumentIngest = ''document-ingest'', tpIndexComplete = ''index.complete'',
         tpCacheInvalidate = ''cache-invalidate'', tpAnalyticsEvents = ''analytics-events''\<rparr>\<rparr>,
     cfRedis = \<lparr>rdAddr = ''localhost:6379'', rdPassword = '''', rdDB = 0, rdPoolSize = 10, rdCacheTTL = 60 * Second\<rparr>,
     cfIndexer = \<lparr>ixDataDir = '''', ixSegmentMaxSize = 0, ixMergeInterval = 0, ixFlushInterval = 0, ixMaxSegmentsBeforeMerge = 0\<rparr>,
     cfSearch = \<lparr>scMaxResults = 0, scDefaultLimit = 0, scTimeoutPerShard = 0, scMaxConcurrentQueries = 0\<rparr>,
     cfGateway = \<lparr>gwPort = 8082, gwIngestionURL = ''http://localhost:8081'', gwSearcherURL = ''http://localhost:8080''\<rparr>,
     cfLogging = \<lparr>lgLevel = ''info'', lgFormat = ''json''\<rparr>,
     cfTracing = \<lparr>trEnabled = False, trEndpoint = '''', trSampleRate = 0\<rparr>,
     cfMetrics = \<lparr>mtEnabled = True, mtPort = 9090\<rparr>\<rparr>"

text \<open>\<open>strings.Split\<close> at a single character.\<close>

fun splitOn :: "char \<Rightarrow> string \<Rightarrow> string list" where
  "splitOn c [] = [[]]"
| "splitOn c (x # xs) = (if x = c then [] # splitOn c xs else (x # hd (splitOn c xs)) # tl (splitOn c xs))"

text \<open>The two kinds of override: a string variable that is not empty, a number that parses.\<close>

definition overrideStr :: "string \<Rightarrow> string \<Rightarrow> string" where
  "overrideStr v old = (if v \<noteq> [] then v else old)"

definition overrideInt :: "string \<Rightarrow> int \<Rightarrow> int" where
  "overrideInt v old = (if v \<noteq> [] then (case Atoi v of Some port \<Rightarrow> port | None \<Rightarrow> old) else old)"

definition applyEnvOverrides :: "(string \<Rightarrow> string) \<Rightarrow> Config \<Rightarrow> Config" where
  "applyEnvOverrides getenv cfg = cfg\<lparr>
     cfServer := (cfServer cfg)\<lparr>svPort := overrideInt (getenv ''SP_SERVER_PORT'') (svPort (cfServer cfg))\<rparr>,
     cfPostgres := (cfPostgres cfg)\<lparr>
       pgHost := overrideStr (getenv ''SP_POSTGRES_HOST'') (pgHost (cfPostgres cfg)),
       pgPort := overrideInt (getenv ''SP_POSTGRES_PORT'') (pgPort (cfPostgres cfg)),
       pgDatabase := overrideStr (getenv ''SP_POSTGRES_DATABASE'') (pgDatabase (cfPostgres cfg)),
       pgUser := overrideStr (getenv ''SP_POSTGRES_USER'') (pgUser (cfPostgres cfg)),
       pgPassword := overrideStr (getenv ''SP_POSTGRES_PASSWORD'') (pgPassword (cfPostgres cfg)),
       pgSSLMode := overrideStr (getenv ''SP_POSTGRES_SSLMODE'') (pgSSLMode (cfPostgres cfg))\<rparr>,
     cfKafka := (cfKafka cfg)\<lparr>
       kfBrokers := (let v = getenv ''SP_KAFKA_BROKERS'' in if v \<noteq> [] then splitOn CHR '','' v else kfBrokers (cfKafka cfg))\<rparr>,
     cfRedis := (cfRedis cfg)\<lparr>
       rdAddr := overrideStr (getenv ''SP_REDIS_ADDR'') (rdAddr (cfRedis cfg)),
       rdPassword := overrideStr (getenv ''SP_REDIS_PASSWORD'') (rdPassword (cfRedis cfg))\<rparr>,
     cfLogging := (cfLogging cfg)\<lparr>
       lgLevel := overrideStr (getenv ''SP_LOGGING_LEVEL'') (lgLevel (cfLogging cfg)),
       lgFormat := overrideStr (getenv ''SP_LOGGING_FORMAT'') (lgFormat (cfLogging cfg))\<rparr>,
     cfGateway := (cfGateway cfg)\<lparr>
       gwPort := overrideInt (getenv ''SP_GATEWAY_PORT'') (gwPort (cfGateway cfg)),
       gwIngestionURL := overrideStr (getenv ''SP_GATEWAY_INGESTION_URL'') (gwIngestionURL (cfGateway cfg)),
       gwSearcherURL := overrideStr (getenv ''SP_GATEWAY_SEARCHER_URL'') (gwSearcherURL (cfGateway cfg))\<rparr>\<rparr>"

datatype config_error = ReadingConfig string string | ParsingConfig string string

definition Load ::
  "(string \<Rightarrow> string + 'b) \<Rightarrow> ('b \<Rightarrow> Config \<Rightarrow> string + Config) \<Rightarrow> (string \<Rightarrow> string) \<Rightarrow> string \<Rightarrow> config_error + Config" where
  "Load readFile unmarshal getenv path =
     (if path \<noteq> [] then
        (case readFile path of
           Inl err \<Rightarrow> Inl (ReadingConfig path err)
         | Inr contents \<Rightarrow>
             (case unmarshal contents defaultConfig of
                Inl err \<Rightarrow> Inl (ParsingConfig path err)
              | Inr cfg \<Rightarrow> Inr (applyEnvOverrides getenv cfg)))
      else Inr (applyEnvOverrides getenv defaultConfig))"

section \<open>Overrides\<close>

lemma override_unset [simp]: "overrideStr [] s = s" "overrideInt [] i = i"
  by (simp_all add: overrideStr_def overrideInt_def)

lemma override_idem [simp]:
  "overrideStr v (overrideStr v s) = overrideStr v s" "overrideInt v (overrideInt v i) = overrideInt v i"
  by (simp_all add: overrideStr_def overrideInt_def split: option.splits)

text \<open>An empty environment changes nothing, and the environment applies once: what it sets is set.\<close>

lemma applyEnvOverrides_none: "(\<And>v. getenv v = []) \<Longrightarrow> applyEnvOverrides getenv cfg = cfg"
  by (simp add: applyEnvOverrides_def)

lemma applyEnvOverrides_idem: "applyEnvOverrides getenv (applyEnvOverrides getenv cfg) = applyEnvOverrides getenv cfg"
  by (simp add: applyEnvOverrides_def Let_def)

text \<open>The sections that have no variables are those of the file.\<close>

lemma applyEnvOverrides_frame:
  "cfIndexer (applyEnvOverrides getenv cfg) = cfIndexer cfg" "cfSearch (applyEnvOverrides getenv cfg) = cfSearch cfg"
  "cfTracing (applyEnvOverrides getenv cfg) = cfTracing cfg" "cfMetrics (applyEnvOverrides getenv cfg) = cfMetrics cfg"
  by (simp_all add: applyEnvOverrides_def)

lemma overrideInt_number: "int64 i \<Longrightarrow> overrideInt (show_int i) old = i"
  using Atoi_show_int [of i] show_nat_digits [of "nat i"] show_nat_digits [of "nat (- i)"]
  by (auto simp: overrideInt_def show_int_def split: if_splits)

lemma splitOn_nonempty: "splitOn c s \<noteq> []"
  by (cases s) auto

lemma splitOn_append: "c \<notin> set b \<Longrightarrow> splitOn c (b @ c # s) = b # splitOn c s"
  by (induction b) auto

lemma splitOn_plain: "c \<notin> set b \<Longrightarrow> splitOn c b = [b]"
  by (induction b) auto

text \<open>A list of brokers without commas survives being joined into the variable.\<close>

lemma splitOn_Join: "bs \<noteq> [] \<Longrightarrow> \<forall>b \<in> set bs. c \<notin> set b \<Longrightarrow> splitOn c (Join bs [c]) = bs"
  by (induction bs "[c]" rule: Join.induct) (auto simp: splitOn_append splitOn_plain)

text \<open>Without a file the searcher has no default limit and no maximum, and the indexer no directory.\<close>

lemma Load_no_file:
  "\<exists>cfg. Load readFile unmarshal getenv [] = Inr cfg \<and> scDefaultLimit (cfSearch cfg) = 0 \<and> scMaxResults (cfSearch cfg) = 0 \<and>
     ixDataDir (cfIndexer cfg) = [] \<and> ixSegmentMaxSize (cfIndexer cfg) = 0"
  by (simp add: Load_def applyEnvOverrides_frame) (simp add: defaultConfig_def)

end
