(* ===== verification/Query_Cache.thy ===== *)
theory Query_Cache
  imports Executor Hashing
begin

text \<open>
  \<open>internal/searcher/cache/cache.go\<close> over \<open>pkg/redis/client.go\<close>: the query cache. Redis is a parameter: \<open>rget\<close>,
  \<open>rset\<close>, \<open>rscan\<close> and \<open>rdel\<close> are the commands the client issues on a store of type \<open>'d\<close>, with the laws of the locale
  \<open>redis_store\<close>. \<open>marshal\<close> and \<open>unmarshal\<close> are the JSON conversions of a search result.
\<close>

section \<open>Keys\<close>

definition keyPrefix :: string where "keyPrefix = ''search:''"

fun normLoop :: "string \<Rightarrow> string list \<Rightarrow> string list \<Rightarrow> bool \<Rightarrow> string list \<Rightarrow> string \<times> string list \<times> string list" where
  "normLoop queryType terms excludes excludeNext [] = (queryType, terms, excludes)"
| "normLoop queryType terms excludes excludeNext (w # words) =
     (let upper = ToUpper w
      in if upper = ''AND'' then normLoop ''AND'' terms excludes excludeNext words
         else if upper = ''OR'' then normLoop ''OR'' terms excludes excludeNext words
         else if upper = ''NOT'' then normLoop queryType terms excludes True words
         else if excludeNext then normLoop queryType terms (excludes @ [w]) False words
         else normLoop queryType (terms @ [w]) excludes False words)"

definition normalizeQuery :: "string \<Rightarrow> string" where
  "normalizeQuery query =
     (case normLoop ''AND'' [] [] False (Fields (ToLower query)) of
        (queryType, terms, excludes) \<Rightarrow>
          (let terms = sort terms;
               excludes = sort excludes;
               parts = [queryType, Join terms '','']
                 @ (if length excludes > 0 then [''NOT:'' @ Join excludes '',''] else [])
           in Join parts ''|''))"

text \<open>The string that is hashed.\<close>

definition rawKey :: "string \<Rightarrow> int \<Rightarrow> string" where
  "rawKey query limit = normalizeQuery query @ '':limit='' @ show_int limit"

definition buildKey :: "string \<Rightarrow> int \<Rightarrow> string" where
  "buildKey query limit = keyPrefix @ hexString (take 16 (Sum256 (rawKey query limit)))"

section \<open>Redis client\<close>

datatype redis_get = RedisFound string | RedisNil | RedisErr string

datatype redis_error = DeletingKey string | ScanningPattern string

fun flushKeys ::
  "('d \<Rightarrow> string \<Rightarrow> bool \<times> 'd) \<Rightarrow> 'd \<Rightarrow> int \<Rightarrow> string list \<Rightarrow> (redis_error option \<times> int) \<times> 'd" where
  "flushKeys rdel d deleted [] = ((None, deleted), d)"
| "flushKeys rdel d deleted (key # keys) =
     (case rdel d key of
        (False, d') \<Rightarrow> ((Some (DeletingKey key), deleted), d')
      | (True, d') \<Rightarrow> flushKeys rdel d' (deleted + 1) keys)"

text \<open>\<open>rscan d pattern\<close> is what the iterator yields, and whether it ended without an error.\<close>

definition FlushByPattern ::
  "('d \<Rightarrow> string \<Rightarrow> string list \<times> bool) \<Rightarrow> ('d \<Rightarrow> string \<Rightarrow> bool \<times> 'd) \<Rightarrow> 'd \<Rightarrow> string \<Rightarrow>
   (redis_error option \<times> int) \<times> 'd" where
  "FlushByPattern rscan rdel d pattern =
     (case rscan d pattern of
        (keys, scanOk) \<Rightarrow>
          (case flushKeys rdel d 0 keys of
             ((Some err, deleted), d') \<Rightarrow> ((Some err, deleted), d')
           | ((None, deleted), d') \<Rightarrow>
               if scanOk then ((None, deleted), d') else ((Some (ScanningPattern pattern), deleted), d')))"

section \<open>The cache\<close>

record QueryCache =
  CacheTTL :: int
  cHits :: int
  cMisses :: int

definition newCache :: "int \<Rightarrow> QueryCache" where
  "newCache ttl = \<lparr>CacheTTL = ttl, cHits = 0, cMisses = 0\<rparr>"

definition cacheGet ::
  "('d \<Rightarrow> string \<Rightarrow> redis_get) \<Rightarrow> (string \<Rightarrow> SearchResult option) \<Rightarrow> QueryCache \<Rightarrow> 'd \<Rightarrow> string \<Rightarrow> int \<Rightarrow>
   SearchResult option \<times> QueryCache" where
  "cacheGet rget unmarshal c d query limit =
     (case rget d (buildKey query limit) of
        RedisNil \<Rightarrow> (None, c\<lparr>cMisses := cMisses c + 1\<rparr>)
      | RedisErr _ \<Rightarrow> (None, c\<lparr>cMisses := cMisses c + 1\<rparr>)
      | RedisFound data \<Rightarrow>
          (case unmarshal data of
             None \<Rightarrow> (None, c\<lparr>cMisses := cMisses c + 1\<rparr>)
           | Some result \<Rightarrow> (Some result, c\<lparr>cHits := cHits c + 1\<rparr>)))"

definition cacheSet ::
  "('d \<Rightarrow> string \<Rightarrow> string \<Rightarrow> int \<Rightarrow> bool \<times> 'd) \<Rightarrow> (SearchResult \<Rightarrow> string option) \<Rightarrow> QueryCache \<Rightarrow> 'd \<Rightarrow>
   string \<Rightarrow> int \<Rightarrow> SearchResult \<Rightarrow> 'd" where
  "cacheSet rset marshal c d query limit result =
     (case marshal result of
        None \<Rightarrow> d
      | Some data \<Rightarrow> snd (rset d (buildKey query limit) data (CacheTTL c)))"

text \<open>
  \<open>GetOrCompute\<close>. \<open>interfere\<close> is what other clients of Redis do between the two lookups. \<open>shared\<close> is the outcome of
  \<open>singleflight\<close>: \<open>Some v\<close> when this call joins another one in flight for the same key and takes its
  value \<open>v\<close>, \<open>None\<close> when it runs the function itself.
\<close>

definition GetOrCompute ::
  "('d \<Rightarrow> string \<Rightarrow> redis_get) \<Rightarrow> ('d \<Rightarrow> string \<Rightarrow> string \<Rightarrow> int \<Rightarrow> bool \<times> 'd) \<Rightarrow>
   (SearchResult \<Rightarrow> string option) \<Rightarrow> (string \<Rightarrow> SearchResult option) \<Rightarrow>
   ('d \<Rightarrow> 'd) \<Rightarrow> ('e + SearchResult) option \<Rightarrow> ('e + SearchResult) \<Rightarrow> QueryCache \<Rightarrow> 'd \<Rightarrow> string \<Rightarrow> int \<Rightarrow>
   ('e + SearchResult \<times> bool) \<times> QueryCache \<times> 'd" where
  "GetOrCompute rget rset marshal unmarshal interfere shared computeFn c d query limit =
     (case cacheGet rget unmarshal c d query limit of
        (Some result, c1) \<Rightarrow> (Inr (result, True), c1, d)
      | (None, c1) \<Rightarrow>
          (let d1 = interfere d
           in case shared of
                Some (Inl err) \<Rightarrow> (Inl err, c1, d1)
              | Some (Inr result) \<Rightarrow> (Inr (result, False), c1, d1)
              | None \<Rightarrow>
                  (case cacheGet rget unmarshal c1 d1 query limit of
                     (Some result, c2) \<Rightarrow> (Inr (result, False), c2, d1)
                   | (None, c2) \<Rightarrow>
                       (case computeFn of
                          Inl err \<Rightarrow> (Inl err, c2, d1)
                        | Inr result \<Rightarrow>
                            (Inr (result, False), c2, cacheSet rset marshal c2 d1 query limit result)))))"

definition Invalidate ::
  "('d \<Rightarrow> string \<Rightarrow> string list \<times> bool) \<Rightarrow> ('d \<Rightarrow> string \<Rightarrow> bool \<times> 'd) \<Rightarrow> 'd \<Rightarrow> redis_error option \<times> 'd" where
  "Invalidate rscan rdel d =
     (case FlushByPattern rscan rdel d (keyPrefix @ ''*'') of
        ((Some err, _), d') \<Rightarrow> (Some err, d')
      | ((None, _), d') \<Rightarrow> (None, d'))"

definition cacheStats :: "QueryCache \<Rightarrow> int \<times> int" where
  "cacheStats c = (cHits c, cMisses c)"

section \<open>What a key determines\<close>

definition normParts :: "string \<Rightarrow> string \<times> string list \<times> string list" where
  "normParts q = normLoop ''AND'' [] [] False (Fields (ToLower q))"

definition normType :: "string \<Rightarrow> string" where "normType q = fst (normParts q)"
definition normTerms :: "string \<Rightarrow> string list" where "normTerms q = fst (snd (normParts q))"
definition normExcludes :: "string \<Rightarrow> string list" where "normExcludes q = snd (snd (normParts q))"

lemma normalizeQuery_alt:
  "normalizeQuery q = normType q @ CHR ''|'' # Join (sort (normTerms q)) '','' @
     (if normExcludes q = [] then [] else CHR ''|'' # ''NOT:'' @ Join (sort (normExcludes q)) '','')"
proof -
  have "sort (xs :: string list) = [] \<longleftrightarrow> xs = []" for xs by (metis length_0_conv length_sort)
  then show ?thesis
    by (simp add: normalizeQuery_def normParts_def normType_def normTerms_def normExcludes_def Let_def
        split: prod.splits)
qed

lemma normLoop_words:
  assumes "normLoop ty ts xs ex ws = (ty', ts', xs')"
  shows "ty' \<in> {ty, ''AND'', ''OR''} \<and> set ts' \<subseteq> set ts \<union> set ws \<and> set xs' \<subseteq> set xs \<union> set ws"
  using assms by (induction ty ts xs ex ws rule: normLoop.induct) (auto simp: Let_def split: if_splits)

definition sepFree :: "string \<Rightarrow> bool" where
  "sepFree q \<longleftrightarrow> CHR '','' \<notin> set q \<and> CHR ''|'' \<notin> set q"

lemma lowerChar_eq_punct:
  "lowerChar c = CHR '','' \<Longrightarrow> c = CHR '',''" "lowerChar c = CHR ''|'' \<Longrightarrow> c = CHR ''|''"
  using lowerChar_nat [of c] by (auto simp: of_char_eq_iff [where ?'a = nat, symmetric] split: if_splits)

lemma sepFree_lower: "sepFree q \<Longrightarrow> sepFree (ToLower q)"
  using lowerChar_eq_punct by (force simp: sepFree_def ToLower_def)

lemma Fields_sub: "w \<in> set (Fields s) \<Longrightarrow> w \<noteq> [] \<and> set w \<subseteq> set s"
  using FieldsFunc_fields [of w s IsSpace] by (auto simp: Fields_def)

lemma norm_words:
  assumes "sepFree q"
  shows "normType q \<in> {''AND'', ''OR''}"
    and "w \<in> set (normTerms q) \<union> set (normExcludes q) \<Longrightarrow> w \<noteq> [] \<and> sepFree w"
proof -
  obtain ty ts xs where n: "normParts q = (ty, ts, xs)" by (metis prod_cases3)
  note W = normLoop_words [OF n [unfolded normParts_def]]
  show "normType q \<in> {''AND'', ''OR''}" using W n by (auto simp: normType_def)
  assume "w \<in> set (normTerms q) \<union> set (normExcludes q)"
  with W n have "w \<in> set (Fields (ToLower q))" by (auto simp: normTerms_def normExcludes_def)
  from Fields_sub [OF this] sepFree_lower [OF assms] show "w \<noteq> [] \<and> sepFree w"
    by (auto simp: sepFree_def)
qed

lemma takeWhile_sep: "x \<notin> set a \<Longrightarrow> takeWhile (\<lambda>y. y \<noteq> x) (a @ x # r) = a"
  by (induction a) auto

lemma split_sep:
  assumes "x \<notin> set a" and "x \<notin> set a'"
  shows "a @ x # r = a' @ x # r' \<longleftrightarrow> a = a' \<and> r = r'"
  using takeWhile_sep [OF assms(1), of r] takeWhile_sep [OF assms(2), of r'] by (metis append_same_eq list.inject same_append_eq)

lemma split_end:
  assumes "x \<notin> set a" and "x \<notin> set a'" and "r = [] \<or> hd r = x" and "r' = [] \<or> hd r' = x"
  shows "a @ r = a' @ r' \<longleftrightarrow> a = a' \<and> r = r'"
proof -
  have "takeWhile (\<lambda>y. y \<noteq> x) (b @ z) = b" if "x \<notin> set b" "z = [] \<or> hd z = x" for b z
    using that by (cases z) (auto simp: takeWhile_sep takeWhile_eq_all_conv)
  from this [OF assms(1,3)] this [OF assms(2,4)] show ?thesis by (metis same_append_eq)
qed

lemma FieldsFunc_Join:
  "p c \<Longrightarrow> \<forall>w \<in> set ws. w \<noteq> [] \<and> (\<forall>x \<in> set w. \<not> p x) \<Longrightarrow> FieldsFunc (Join ws [c]) p = ws"
proof (induction ws "[c]" rule: Join.induct)
  case 1
  then show ?case by (simp add: FieldsFunc_def)
qed (simp_all add: FieldsFunc_word FieldsFunc_app)

lemma Join_comma_inj:
  assumes "\<forall>w \<in> set ws. w \<noteq> [] \<and> sepFree w" and "\<forall>w \<in> set vs. w \<noteq> [] \<and> sepFree w"
  shows "Join ws '','' = Join vs '','' \<longleftrightarrow> ws = vs"
proof -
  have "FieldsFunc (Join us '','') (\<lambda>c. c = CHR '','') = us" if "\<forall>w \<in> set us. w \<noteq> [] \<and> sepFree w" for us
    using that by (intro FieldsFunc_Join) (auto simp: sepFree_def)
  then show ?thesis using assms by metis
qed

lemma Join_no_bar: "\<forall>w \<in> set ws. sepFree w \<Longrightarrow> CHR ''|'' \<notin> set (Join ws '','')"
  by (induction ws "'',''" rule: Join.induct) (auto simp: sepFree_def)

lemma sort_eq_iff: "sort (xs :: string list) = sort ys \<longleftrightarrow> mset xs = mset ys"
  by (metis mset_sort sort_mset_eq)

lemma normalizeQuery_eq:
  assumes "sepFree q" and "sepFree q'"
  shows "normalizeQuery q = normalizeQuery q' \<longleftrightarrow>
    normType q = normType q' \<and> mset (normTerms q) = mset (normTerms q') \<and> mset (normExcludes q) = mset (normExcludes q')"
proof -
  have ty: "CHR ''|'' \<notin> set (normType p)" if "sepFree p" for p using norm_words(1) [OF that] by auto
  have ok: "\<forall>w \<in> set (sort (normTerms p)). w \<noteq> [] \<and> sepFree w" "\<forall>w \<in> set (sort (normExcludes p)). w \<noteq> [] \<and> sepFree w"
    if "sepFree p" for p using norm_words(2) [OF that] by auto
  have bar: "CHR ''|'' \<notin> set (Join (sort (normTerms p)) '','')" if "sepFree p" for p
    using ok(1) [OF that] by (intro Join_no_bar) blast
  define tl where "tl p = (if normExcludes p = [] then [] else CHR ''|'' # ''NOT:'' @ Join (sort (normExcludes p)) '','')" for p
  have tl: "tl p = [] \<or> hd (tl p) = CHR ''|''" for p by (simp add: tl_def)
  have tls: "tl q = tl q' \<longleftrightarrow> mset (normExcludes q) = mset (normExcludes q')"
    using Join_comma_inj [OF ok(2) [OF assms(1)] ok(2) [OF assms(2)]]
    by (auto simp: tl_def sort_eq_iff)
  have "normalizeQuery p = normType p @ CHR ''|'' # (Join (sort (normTerms p)) '','' @ tl p)" for p
    by (simp add: normalizeQuery_alt tl_def)
  then show ?thesis
    by (simp only: split_sep [OF ty [OF assms(1)] ty [OF assms(2)]] split_end [OF bar [OF assms(1)] bar [OF assms(2)] tl tl]
        tls Join_comma_inj [OF ok(1) [OF assms(1)] ok(1) [OF assms(2)]] sort_eq_iff)
qed

lemma rawKey_eq: "rawKey q l = rawKey q' l' \<longleftrightarrow> normalizeQuery q = normalizeQuery q' \<and> l = l'"
proof -
  have no: "CHR ''='' \<notin> set (rev (show_int i))" for i
    using show_nat_digits [of "nat i"] show_nat_digits [of "nat (- i)"]
    by (auto simp: show_int_def list_all_iff IsDigit_def char_le_nat)
  have "rev (rawKey p k) = rev (show_int k) @ CHR ''='' # (rev '':limit'' @ rev (normalizeQuery p))" for p k
    by (simp add: rawKey_def)
  then have "rev (rawKey q l) = rev (rawKey q' l') \<longleftrightarrow> normalizeQuery q = normalizeQuery q' \<and> l = l'"
    by (auto simp: split_sep [OF no no] show_int_inj)
  then show ?thesis by simp
qed

section \<open>Keys and plans\<close>

text \<open>
  On queries without separators in which every word that is no operator has a term, the key's parts
  are those of the plan, word by word.
\<close>

definition plainQuery :: "string \<Rightarrow> bool" where
  "plainQuery q \<longleftrightarrow> sepFree q \<and> (\<forall>w \<in> set (Fields q). isOperator w \<or> Tokenize w \<noteq> [])"

definition firstTerm :: "string \<Rightarrow> string" where
  "firstTerm w = (case Tokenize w of [] \<Rightarrow> [] | tok # _ \<Rightarrow> Term tok)"

lemma Tokenize_ToLower: "Tokenize (ToLower w) = Tokenize w"
  by (simp add: Tokenize_def)

lemma upper_lowerChar: "upperChar (lowerChar c) = upperChar c"
proof (cases "isUpperAscii c")
  case True
  then have c: "65 \<le> (of_char c :: nat)" "(of_char c :: nat) \<le> 90" by (auto simp: isUpperAscii_def char_le_nat)
  then have n: "of_char (lowerChar c) = (of_char c + 32 :: nat)" by (simp add: lowerChar_nat)
  then show ?thesis using c by (simp add: upperChar_def isLowerAscii_def char_le_nat)
qed (simp add: lowerChar_id)

lemma ToUpper_ToLower: "ToUpper (ToLower w) = ToUpper w"
  by (simp add: ToUpper_def ToLower_def upper_lowerChar)

lemma IsSpace_low: "IsSpace c \<Longrightarrow> (of_char c :: nat) \<le> 64"
  by (auto simp: IsSpace_def char_le_nat)

lemma Fields_ToLower: "Fields (ToLower q) = map ToLower (Fields q)"
proof -
  have "IsSpace (lowerChar c) = IsSpace c" for c
  proof (cases "isUpperAscii c")
    case True
    then have "64 < (of_char c :: nat)" "64 < (of_char (lowerChar c) :: nat)"
      by (simp_all add: isUpperAscii_def char_le_nat lowerChar_nat)
    then show ?thesis using IsSpace_low [of c] IsSpace_low [of "lowerChar c"] by auto
  qed (simp add: lowerChar_id)
  from fieldsLoop_map [of IsSpace lowerChar "[]" q, OF this] show ?thesis
    by (simp add: Fields_def FieldsFunc_def ToLower_def map_idI)
qed

definition typeOf :: "string \<Rightarrow> QueryType" where
  "typeOf ty = (if ty = ''OR'' then QueryOR else QueryAND)"

definition agrees :: "QueryPlan \<Rightarrow> string \<times> string list \<times> string list \<Rightarrow> bool" where
  "agrees plan n \<longleftrightarrow> Type plan = typeOf (fst n) \<and> planTerms plan = map firstTerm (fst (snd n)) \<and>
     ExcludeTerms plan = map firstTerm (snd (snd n))"

lemma normLoop_parse:
  assumes "\<forall>w \<in> set ws. isOperator w \<or> Tokenize w \<noteq> []" and "agrees plan (ty, ts, xs)"
  shows "agrees (parseLoop ex plan ws) (normLoop ty ts xs ex (map ToLower ws))"
  using assms
proof (induction ws arbitrary: ty ts xs ex plan)
  case (Cons w ws)
  have IH: "agrees plan' (ty', ts', xs') \<Longrightarrow> agrees (parseLoop ex' plan' ws) (normLoop ty' ts' xs' ex' (map ToLower ws))"
    for plan' ty' ts' xs' ex' using Cons.prems(1) by (intro Cons.IH) auto
  consider "isOperator w" | tok toks where "\<not> isOperator w" "Tokenize w = tok # toks"
    using Cons.prems(1) by (cases "Tokenize w") auto
  then show ?case
  proof cases
    case 1
    then show ?thesis
      using Cons.prems(2)
      by (auto simp: Let_def ToUpper_ToLower isOperator_def intro!: IH) (auto simp: agrees_def typeOf_def)
  next
    case 2
    then have "firstTerm (ToLower w) = Term tok" by (simp add: firstTerm_def Tokenize_ToLower)
    then show ?thesis
      using 2 Cons.prems(2)
      by (auto simp: Let_def ToUpper_ToLower isOperator_def intro!: IH) (auto simp: agrees_def)
  qed
qed simp

lemma plan_of_norm:
  assumes "plainQuery q"
  shows "Type (Parse q) = typeOf (normType q)" and "planTerms (Parse q) = map firstTerm (normTerms q)"
    and "ExcludeTerms (Parse q) = map firstTerm (normExcludes q)"
proof -
  have "agrees (Parse q) (normParts q)"
    unfolding Parse_alt normParts_def Fields_ToLower
    by (rule normLoop_parse) (use assms in \<open>simp_all add: plainQuery_def agrees_def typeOf_def\<close>)
  then show "Type (Parse q) = typeOf (normType q)" and "planTerms (Parse q) = map firstTerm (normTerms q)"
    and "ExcludeTerms (Parse q) = map firstTerm (normExcludes q)"
    by (simp_all add: agrees_def normType_def normTerms_def normExcludes_def)
qed

section \<open>Redis\<close>

text \<open>
  What the cache relies on: a key holds the last value set for it, unless it has expired, so that a
  command may forget but never invent an entry; a scan that ends without an error has seen every
  key of its prefix; a deleted key is gone.
\<close>

locale redis_store =
  fixes rget :: "'d \<Rightarrow> string \<Rightarrow> redis_get"
    and rset :: "'d \<Rightarrow> string \<Rightarrow> string \<Rightarrow> int \<Rightarrow> bool \<times> 'd"
    and rscan :: "'d \<Rightarrow> string \<Rightarrow> string list \<times> bool"
    and rdel :: "'d \<Rightarrow> string \<Rightarrow> bool \<times> 'd"
  assumes set_get: "rset d k v ttl = (ok, d') \<Longrightarrow> rget d' k' = RedisFound x \<Longrightarrow>
      k' = k \<and> x = v \<or> rget d k' = RedisFound x"
    and scan_all: "rscan d (pre @ ''*'') = (ks, True) \<Longrightarrow> rget d (pre @ k) = RedisFound x \<Longrightarrow> pre @ k \<in> set ks"
    and del_get: "rdel d k = (True, d') \<Longrightarrow> rget d' k' = RedisFound x \<Longrightarrow> k' \<noteq> k \<and> rget d k' = RedisFound x"
begin

lemma flushKeys_gone:
  "flushKeys rdel d n ks = ((None, m), d') \<Longrightarrow> rget d' k = RedisFound x \<Longrightarrow> k \<notin> set ks \<and> rget d k = RedisFound x"
proof (induction ks arbitrary: d n)
  case (Cons key ks)
  obtain ok d1 where r: "rdel d key = (ok, d1)" by fastforce
  with Cons.prems(1) have ok: "ok" and f: "flushKeys rdel d1 (n + 1) ks = ((None, m), d')" by (auto split: bool.splits)
  from Cons.IH [OF f Cons.prems(2)] del_get [of d key d1 k x] r ok show ?case by auto
qed simp

lemma Invalidate_gone:
  assumes "Invalidate rscan rdel d = (None, d')"
  shows "rget d' (keyPrefix @ k) \<noteq> RedisFound x"
proof
  assume x: "rget d' (keyPrefix @ k) = RedisFound x"
  obtain ks ok where s: "rscan d (keyPrefix @ ''*'') = (ks, ok)" by fastforce
  obtain r n d1 where f: "flushKeys rdel d 0 ks = ((r, n), d1)" by (metis prod.exhaust)
  from assms s f have "r = None" "ok" "d1 = d'"
    by (auto simp: Invalidate_def FlushByPattern_def split: option.splits if_splits)
  with f have "flushKeys rdel d 0 ks = ((None, n), d')" by simp
  note gone = flushKeys_gone [OF this x]
  have "keyPrefix @ k \<in> set ks" using scan_all [of d keyPrefix ks k x] s \<open>ok\<close> gone by simp
  with gone show False by simp
qed

end

text \<open>The store as an association list; nothing expires and no command fails.\<close>

definition memGet :: "(string \<times> string) list \<Rightarrow> string \<Rightarrow> redis_get" where
  "memGet d k = (case map_of d k of None \<Rightarrow> RedisNil | Some v \<Rightarrow> RedisFound v)"

definition memSet :: "(string \<times> string) list \<Rightarrow> string \<Rightarrow> string \<Rightarrow> int \<Rightarrow> bool \<times> (string \<times> string) list" where
  "memSet d k v ttl = (True, AList.update k v d)"

definition memScan :: "(string \<times> string) list \<Rightarrow> string \<Rightarrow> string list \<times> bool" where
  "memScan d pattern = (filter (\<lambda>k. HasPrefix k (butlast pattern)) (map fst d), True)"

definition memDel :: "(string \<times> string) list \<Rightarrow> string \<Rightarrow> bool \<times> (string \<times> string) list" where
  "memDel d k = (True, AList.delete k d)"

interpretation memRedis: redis_store memGet memSet memScan memDel
proof
  show "k' = k \<and> x = v \<or> memGet d k' = RedisFound x"
    if "memSet d k v ttl = (ok, d')" "memGet d' k' = RedisFound x" for d k v ttl ok d' k' x
    using that by (auto simp: memSet_def memGet_def update_conv' split: option.splits if_splits)
  show "pre @ k \<in> set ks" if "memScan d (pre @ ''*'') = (ks, True)" "memGet d (pre @ k) = RedisFound x" for d pre ks k x
    using that by (force simp: memScan_def memGet_def HasPrefix_def split: option.splits dest!: map_of_SomeD)
  show "k' \<noteq> k \<and> memGet d k' = RedisFound x" if "memDel d k = (True, d')" "memGet d' k' = RedisFound x" for d k d' k' x
    using that by (auto simp: memDel_def memGet_def delete_conv' split: option.splits if_splits)
qed

section \<open>Coherence\<close>

text \<open>
  Every entry is a result of one of the queries \<open>Q\<close> asked so far, under that query's key. \<open>F\<close> is the
  search that is cached.
\<close>

definition coherent ::
  "('d \<Rightarrow> string \<Rightarrow> redis_get) \<Rightarrow> (string \<Rightarrow> SearchResult option) \<Rightarrow> (string \<Rightarrow> int \<Rightarrow> 'e + SearchResult) \<Rightarrow>
   (string \<times> int) set \<Rightarrow> 'd \<Rightarrow> bool" where
  "coherent rget unmarshal F Q d \<longleftrightarrow>
     (\<forall>q l data r. rget d (buildKey q l) = RedisFound data \<and> unmarshal data = Some r \<longrightarrow>
        (\<exists>(q', l') \<in> Q. buildKey q' l' = buildKey q l \<and> F q' l' = Inr r))"

lemma cacheGet_cases:
  assumes "cacheGet rget unmarshal c d query limit = (res, c')"
  obtains (hit) data r where "res = Some r" "c' = c\<lparr>cHits := cHits c + 1\<rparr>"
      "rget d (buildKey query limit) = RedisFound data" "unmarshal data = Some r"
  | (miss) "res = None" "c' = c\<lparr>cMisses := cMisses c + 1\<rparr>"
proof (cases "rget d (buildKey query limit)")
  case (RedisFound data)
  show ?thesis
  proof (cases "unmarshal data")
    case None
    then show ?thesis using RedisFound assms by (intro miss) (auto simp: cacheGet_def)
  next
    case (Some r)
    then show ?thesis using RedisFound assms by (intro hit [of r data]) (auto simp: cacheGet_def)
  qed
qed (use assms miss in \<open>auto simp: cacheGet_def\<close>)

lemma coherent_hit:
  "coherent rget unmarshal F Q d \<Longrightarrow> rget d (buildKey q l) = RedisFound data \<Longrightarrow> unmarshal data = Some r \<Longrightarrow>
   \<exists>(q', l') \<in> Q. buildKey q' l' = buildKey q l \<and> F q' l' = Inr r"
  by (simp add: coherent_def)

lemma coherent_cacheSet:
  assumes "redis_store rget rset rscan rdel" and "\<forall>r s. marshal r = Some s \<longrightarrow> unmarshal s = Some r"
    and "coherent rget unmarshal F Q d" and "(q, l) \<in> Q" and "F q l = Inr r"
  shows "coherent rget unmarshal F Q (cacheSet rset marshal c d q l r)"
proof (cases "marshal r")
  case (Some s)
  obtain ok d' where r: "rset d (buildKey q l) s (CacheTTL c) = (ok, d')" by fastforce
  have "\<exists>(q', l') \<in> Q. buildKey q' l' = buildKey p k \<and> F q' l' = Inr r'"
    if "rget d' (buildKey p k) = RedisFound data" "unmarshal data = Some r'" for p k data r'
  proof -
    from redis_store.set_get [OF assms(1) r that(1)]
    consider "buildKey p k = buildKey q l" "data = s" | "rget d (buildKey p k) = RedisFound data" by blast
    then show ?thesis
    proof cases
      case 1
      with that(2) assms(2,4,5) Some show ?thesis by fastforce
    next
      case 2
      then show ?thesis using coherent_hit [OF assms(3)] that(2) by blast
    qed
  qed
  with r Some show ?thesis unfolding coherent_def by (simp add: cacheSet_def)
qed (simp add: assms(3) cacheSet_def)

text \<open>Plans with the same terms, as sets, have the same hits in the same order.\<close>

lemma Execute_plan_cong:
  assumes "wf_engine e" and "\<forall>t \<in> set (planTerms plan). int (length (postingsOf e t)) < maxInt"
    and "Type plan' = Type plan" and "set (planTerms plan') = set (planTerms plan)"
    and "set (ExcludeTerms plan') = set (ExcludeTerms plan)"
  shows "\<exists>r r'. Execute e plan limit = Inr r \<and> Execute e plan' limit = Inr r' \<and>
    TotalHits r' = TotalHits r \<and> Results r' = Results r"
proof (cases "planTerms plan = []")
  case True
  then have "planTerms plan' = []" using assms(4) by simp
  with True show ?thesis by (simp add: Execute_def emptyResult_def)
next
  case False
  then have ne: "planTerms plan' \<noteq> []" using assms(4) by auto
  have b: "\<forall>t \<in> set (planTerms plan'). int (length (postingsOf e t)) < maxInt" using assms(2,4) by simp
  have M: "matchSet H plan' = matchSet H plan" for H unfolding matchSet_def assms(3-5) ..
  obtain m st where 1: "holds (set (planTerms plan)) (postingsOf e) m"
    "Execute e plan limit = Inr \<lparr>srQuery = RawQuery plan, TotalHits = int (card (matchSet (\<lambda>t. DocID ` set (postingsOf e t)) plan)),
        Results = Rank (filterPostings (matchSet (\<lambda>t. DocID ` set (postingsOf e t)) plan) m) (execParams e) (GetDocLength e) limit,
        TermStats = st\<rparr>" by (rule Execute_wf [OF assms(1,2) False])
  obtain m' st' where 2: "holds (set (planTerms plan')) (postingsOf e) m'"
    "Execute e plan' limit = Inr \<lparr>srQuery = RawQuery plan', TotalHits = int (card (matchSet (\<lambda>t. DocID ` set (postingsOf e t)) plan')),
        Results = Rank (filterPostings (matchSet (\<lambda>t. DocID ` set (postingsOf e t)) plan') m') (execParams e) (GetDocLength e) limit,
        TermStats = st'\<rparr>" by (rule Execute_wf [OF assms(1) b ne])
  have "Rank (filterPostings C m') (execParams e) (GetDocLength e) limit =
      Rank (filterPostings C m) (execParams e) (GetDocLength e) limit" for C
    by (rule Rank_holds_cong [OF 1(1) 2(1) [unfolded assms(4)]]) simp_all
  with 1(2) 2(2) M show ?thesis by simp
qed

lemma rawKey_plan:
  assumes "plainQuery q" and "plainQuery q'"
  shows "(rawKey q l = rawKey q' l' \<longleftrightarrow> l = l' \<and> normType q = normType q' \<and>
      mset (normTerms q) = mset (normTerms q') \<and> mset (normExcludes q) = mset (normExcludes q')) \<and>
    (rawKey q l = rawKey q' l' \<longrightarrow> Type (Parse q) = Type (Parse q') \<and>
      mset (planTerms (Parse q)) = mset (planTerms (Parse q')) \<and>
      mset (ExcludeTerms (Parse q)) = mset (ExcludeTerms (Parse q')))"
proof -
  have s: "sepFree q" "sepFree q'" using assms by (simp_all add: plainQuery_def)
  have "rawKey q l = rawKey q' l' \<longleftrightarrow> l = l' \<and> normType q = normType q' \<and>
      mset (normTerms q) = mset (normTerms q') \<and> mset (normExcludes q) = mset (normExcludes q')"
    by (auto simp: rawKey_eq normalizeQuery_eq [OF s])
  then show ?thesis by (simp add: plan_of_norm assms)
qed

definition bump :: "int \<Rightarrow> int \<Rightarrow> QueryCache \<Rightarrow> QueryCache" where
  "bump h m c = c\<lparr>cHits := cHits c + h, cMisses := cMisses c + m\<rparr>"

lemma GetOrCompute_spec:
  assumes "redis_store rget rset rscan rdel" and "\<forall>r s. marshal r = Some s \<longrightarrow> unmarshal s = Some r"
    and "coherent rget unmarshal F Q d" and "coherent rget unmarshal F Q (interfere d)" and "(q, l) \<in> Q"
    and "\<forall>v. shared = Some v \<longrightarrow> (\<exists>(q', l') \<in> Q. buildKey q' l' = buildKey q l \<and> F q' l' = v)"
    and "GetOrCompute rget rset marshal unmarshal interfere shared (F q l) c d q l = (res, c', d')"
  shows "coherent rget unmarshal F Q d' \<and>
    (\<exists>(q', l') \<in> Q. buildKey q' l' = buildKey q l \<and> map_sum id fst res = F q' l') \<and>
    (if \<exists>r. res = Inr (r, True) then c' = bump 1 0 c else c' \<in> {bump 0 1 c, bump 1 1 c, bump 0 2 c}) \<and>
    (shared = None \<and> cHits c' = cHits c \<longrightarrow> c' = bump 0 2 c \<and> map_sum id fst res = F q l)"
proof -
  obtain r1 c1 where g1: "cacheGet rget unmarshal c d q l = (r1, c1)" by fastforce
  obtain r2 c2 where g2: "cacheGet rget unmarshal c1 (interfere d) q l = (r2, c2)" by fastforce
  from g1 show ?thesis
  proof (cases rule: cacheGet_cases)
    case (hit data r)
    then have res: "res = Inr (r, True)" "c' = c1" "d' = d" using assms(7) g1 by (auto simp: GetOrCompute_def)
    with coherent_hit [OF assms(3) hit(3,4)] hit(2) assms(3) show ?thesis by (auto simp: bump_def)
  next
    case miss
    note m1 = this
    show ?thesis
    proof (cases shared)
      case (Some v)
      then have res: "map_sum id fst res = v" "\<nexists>r. res = Inr (r, True)" "c' = c1" "d' = interfere d"
        using assms(7) g1 m1 by (auto simp: GetOrCompute_def Let_def split: sum.splits)
      with assms(4,6) Some m1(2) show ?thesis by (auto simp: bump_def)
    next
      case None
      from g2 show ?thesis
      proof (cases rule: cacheGet_cases)
        case (hit data r)
        then have res: "res = Inr (r, False)" "c' = c2" "d' = interfere d"
          using None assms(7) g1 g2 m1 by (auto simp: GetOrCompute_def Let_def)
        with coherent_hit [OF assms(4) hit(3,4)] hit(2) m1(2) assms(4) show ?thesis by (auto simp: bump_def)
      next
        case miss
        then have res: "map_sum id fst res = F q l" "\<nexists>r. res = Inr (r, True)" "c' = c2"
            "d' = (case F q l of Inl _ \<Rightarrow> interfere d | Inr r \<Rightarrow> cacheSet rset marshal c2 (interfere d) q l r)"
          using None assms(7) g1 g2 m1 by (auto simp: GetOrCompute_def Let_def split: sum.splits)
        then have "coherent rget unmarshal F Q d'"
          using assms(4) coherent_cacheSet [OF assms(1,2,4,5)] by (auto split: sum.splits)
        moreover have "c' = bump 0 2 c" using res(3) miss(2) m1(2) by (simp add: bump_def)
        ultimately show ?thesis using res(1,2) assms(5) by auto
      qed
    qed
  qed
qed

section \<open>Properties\<close>

text \<open>
  Cache keys: for queries without commas and bars, in which every word that is no operator has a
  term, two requests are hashed from the same string exactly when their limits, their operators
  and their words agree, up to case and order of the words, and then their plans have the same type,
  terms and exclusions up to order.
\<close>

theorem rawKey_correct:
  assumes "plainQuery q" and "plainQuery q'"
  shows "(rawKey q l = rawKey q' l' \<longleftrightarrow> l = l' \<and> normType q = normType q' \<and>
      mset (normTerms q) = mset (normTerms q') \<and> mset (normExcludes q) = mset (normExcludes q')) \<and>
    (rawKey q l = rawKey q' l' \<longrightarrow> Type (Parse q) = Type (Parse q') \<and>
      mset (planTerms (Parse q)) = mset (planTerms (Parse q')) \<and>
      mset (ExcludeTerms (Parse q)) = mset (ExcludeTerms (Parse q')))"
  by (rule rawKey_plan [OF assms])

theorem rawKey_correct_witness:
  "rawKey ''Go NOT rust search'' 10 = rawKey ''search go not RUST'' 10 \<and>
   mset (planTerms (Parse ''Go NOT rust search'')) = mset (planTerms (Parse ''search go not RUST''))"
proof -
  have p: "plainQuery ''Go NOT rust search''" "plainQuery ''search go not RUST''" by code_simp+
  have "rawKey ''Go NOT rust search'' 10 = rawKey ''search go not RUST'' 10" by code_simp
  with rawKey_correct [OF p] show ?thesis by blast
qed

text \<open>
  Without these restrictions different plans share a key: a stop word takes the exclusion in the key but
  not in the plan, and a comma does not separate words of the key.
\<close>

lemma rawKey_collisions:
  "normalizeQuery ''xx NOT the yy'' = normalizeQuery ''xx yy NOT the''"
  "ExcludeTerms (Parse ''xx NOT the yy'') \<noteq> ExcludeTerms (Parse ''xx yy NOT the'')"
  "normalizeQuery ''bar,foo'' = normalizeQuery ''foo bar''"
  "planTerms (Parse ''bar,foo'') \<noteq> planTerms (Parse ''foo bar'')"
  by code_simp+

text \<open>
  \<open>GetOrCompute\<close> on a coherent cache, whatever other clients do to it meanwhile and whether the call
  runs or joins another one: the result or error is that of a query asked under the same key, the
  cache stays coherent, a hit counts once, and a call that has to compute counts two misses.
\<close>

theorem GetOrCompute_correct:
  assumes "redis_store rget rset rscan rdel" and "\<forall>r s. marshal r = Some s \<longrightarrow> unmarshal s = Some r"
    and "coherent rget unmarshal F Q d" and "coherent rget unmarshal F Q (interfere d)" and "(q, l) \<in> Q"
    and "\<forall>v. shared = Some v \<longrightarrow> (\<exists>(q', l') \<in> Q. buildKey q' l' = buildKey q l \<and> F q' l' = v)"
    and "GetOrCompute rget rset marshal unmarshal interfere shared (F q l) c d q l = (res, c', d')"
  shows "coherent rget unmarshal F Q d' \<and>
    (\<exists>(q', l') \<in> Q. buildKey q' l' = buildKey q l \<and> map_sum id fst res = F q' l') \<and>
    (if \<exists>r. res = Inr (r, True) then c' = bump 1 0 c else c' \<in> {bump 0 1 c, bump 1 1 c, bump 0 2 c}) \<and>
    (shared = None \<and> cHits c' = cHits c \<longrightarrow> c' = bump 0 2 c \<and> map_sum id fst res = F q l)"
  by (rule GetOrCompute_spec [OF assms])

definition sampleResult :: SearchResult where
  "sampleResult = \<lparr>srQuery = ''go'', TotalHits = 1, Results = [], TermStats = []\<rparr>"

theorem GetOrCompute_correct_witness:
  "\<exists>c' d'. GetOrCompute memGet memSet (\<lambda>r. if r = sampleResult then Some ''R'' else None) (\<lambda>s. if s = ''R'' then Some sampleResult else None)
     id None (Inr sampleResult :: unit + SearchResult) (newCache 60) [] ''go'' 10 = (Inr (sampleResult, False), c', d') \<and>
     cMisses c' = 2 \<and> coherent memGet (\<lambda>s. if s = ''R'' then Some sampleResult else None) (\<lambda>_ _. Inr sampleResult :: unit + SearchResult) {(''go'', 10)} d'"
proof -
  let ?m = "\<lambda>r. if r = sampleResult then Some ''R'' else None" and ?u = "\<lambda>s. if s = ''R'' then Some sampleResult else None"
  let ?F = "\<lambda>(_ :: string) (_ :: int). Inr sampleResult :: unit + SearchResult"
  obtain res c' d' where g: "GetOrCompute memGet memSet ?m ?u id None (?F ''go'' 10) (newCache 60) [] ''go'' 10 = (res, c', d')"
    by (metis prod_cases3)
  then have r: "res = Inr (sampleResult, False)" "c' = (newCache 60)\<lparr>cMisses := 2\<rparr>"
    by (auto simp: GetOrCompute_def cacheGet_def memGet_def newCache_def)
  have e: "coherent memGet ?u ?F {(''go'', 10)} []" by (simp add: coherent_def memGet_def)
  have "coherent memGet ?u ?F {(''go'', 10)} d'"
    using GetOrCompute_correct [where F = ?F and Q = "{(''go'', 10)}", OF memRedis.redis_store_axioms _ e _ _ _ g] e by simp
  with g r show ?thesis by simp
qed



text \<open>
  Invalidation: when \<open>Invalidate\<close> reports success, no cached result is left, so that the next lookup of
  any query misses.
\<close>

theorem Invalidate_correct:
  assumes "redis_store rget rset rscan rdel" and "Invalidate rscan rdel d = (None, d')"
  shows "fst (cacheGet rget unmarshal c d' q l) = None"
proof -
  have "rget d' (buildKey q l) \<noteq> RedisFound x" for x
    unfolding buildKey_def by (rule redis_store.Invalidate_gone [OF assms])
  then show ?thesis by (auto simp: cacheGet_def split: redis_get.splits)
qed

theorem Invalidate_correct_witness:
  "\<exists>d'. Invalidate memScan memDel [(''search:ab'', ''R''), (''other'', ''X'')] = (None, d') \<and> d' = [(''other'', ''X'')] \<and>
     fst (cacheGet memGet (\<lambda>_. Some sampleResult) (newCache 60) d' ''go'' 10) = None"
proof -
  have "Invalidate memScan memDel [(''search:ab'', ''R''), (''other'', ''X'')] = (None, [(''other'', ''X'')])" by code_simp
  with Invalidate_correct [OF memRedis.redis_store_axioms this] show ?thesis by blast
qed

end
