(* ===== verification/Clients.thy ===== *)
theory Clients
  imports Configuration Messaging Query_Cache
begin

text \<open>
  How the services set up their clients: \<open>NewConsumer\<close> and \<open>NewProducer\<close> of \<open>pkg/kafka\<close>, \<open>New\<close> of \<open>pkg/postgres\<close>, \<open>NewClient\<close>
  of \<open>pkg/redis\<close>. The client libraries are parameters: a function from the options to a client, and the outcome of a ping.
\<close>

section \<open>Kafka\<close>

datatype start_offset = LastOffset | FirstOffset

record ReaderConfig =
  rcBrokers :: "string list"
  rcTopic :: string
  rcGroupID :: string
  rcMinBytes :: int
  rcMaxBytes :: int
  rcStartOffset :: start_offset

text \<open>A consumer holds the reader and the callback; \<open>None\<close> is a nil callback.\<close>

record ('r, 'h) Consumer =
  cnReader :: 'r
  cnHandler :: "'h option"

definition NewConsumer ::
  "(ReaderConfig \<Rightarrow> 'r) \<Rightarrow> KafkaConfig \<Rightarrow> string \<Rightarrow> 'h option \<Rightarrow> ('r, 'h) Consumer" where
  "NewConsumer newReader cfg topic handler =
     \<lparr>cnReader = newReader \<lparr>rcBrokers = kfBrokers cfg, rcTopic = topic, rcGroupID = kfConsumerGroup cfg,
        rcMinBytes = 1000, rcMaxBytes = 10000000, rcStartOffset = LastOffset\<rparr>,
      cnHandler = handler\<rparr>"

record WriterConfig =
  wrAddr :: "string list"
  wrTopic :: string
  wrHashBalancer :: bool
  wrBatchSize :: int
  wrBatchTimeout :: int
  wrMaxAttempts :: int
  wrRequireAll :: bool
  wrAsync :: bool

definition NewProducer :: "(WriterConfig \<Rightarrow> 'k) \<Rightarrow> KafkaConfig \<Rightarrow> string \<Rightarrow> 'k" where
  "NewProducer newWriter cfg topic =
     newWriter \<lparr>wrAddr = kfBrokers cfg, wrTopic = topic, wrHashBalancer = True, wrBatchSize = 100,
       wrBatchTimeout = 10000000, wrMaxAttempts = 3, wrRequireAll = True, wrAsync = False\<rparr>"

datatype decode_error = DecodingKafkaMessage string

definition DecodeJSON :: "('b \<Rightarrow> string + 't) \<Rightarrow> 'b \<Rightarrow> decode_error + 't" where
  "DecodeJSON unmarshal v =
     (case unmarshal v of Inl err \<Rightarrow> Inl (DecodingKafkaMessage err) | Inr result \<Rightarrow> Inr result)"

section \<open>PostgreSQL\<close>

datatype pg_error = OpeningPostgres string | PingingPostgres string

record 'd pgClient =
  pcDB :: 'd
  pcMaxOpen :: int
  pcMaxIdle :: int
  pcLifetime :: int

definition postgresNew :: "(string \<Rightarrow> string + 'd) \<Rightarrow> ('d \<Rightarrow> string option) \<Rightarrow> PostgresConfig \<Rightarrow> pg_error + 'd pgClient" where
  "postgresNew openDB ping cfg =
     (case openDB (DSN cfg) of
        Inl err \<Rightarrow> Inl (OpeningPostgres err)
      | Inr db \<Rightarrow>
          (let client = \<lparr>pcDB = db, pcMaxOpen = pgMaxOpenConns cfg, pcMaxIdle = pgMaxIdleConns cfg, pcLifetime = pgConnMaxLifetime cfg\<rparr>
           in case ping db of Some err \<Rightarrow> Inl (PingingPostgres err) | None \<Rightarrow> Inr client))"

section \<open>Redis\<close>

record redis_options =
  roAddr :: string
  roPassword :: string
  roDB :: int
  roPoolSize :: int

definition redisNewClient :: "(redis_options \<Rightarrow> 'c) \<Rightarrow> ('c \<Rightarrow> string option) \<Rightarrow> RedisConfig \<Rightarrow> string + 'c" where
  "redisNewClient connect ping cfg =
     (let rdb = connect \<lparr>roAddr = rdAddr cfg, roPassword = rdPassword cfg, roDB = rdDB cfg, roPoolSize = rdPoolSize cfg\<rparr>
      in case ping rdb of Some err \<Rightarrow> Inl (''redis ping failed: '' @ err) | None \<Rightarrow> Inr rdb)"

definition IsNilError :: "redis_get \<Rightarrow> bool" where
  "IsNilError res \<longleftrightarrow> res = RedisNil"

section \<open>Facts\<close>

text \<open>A client is handed out only for a server that answered.\<close>

lemma postgresNew_Inr:
  "postgresNew openDB ping cfg = Inr c \<longleftrightarrow>
     (\<exists>db. openDB (DSN cfg) = Inr db \<and> ping db = None \<and>
       c = \<lparr>pcDB = db, pcMaxOpen = pgMaxOpenConns cfg, pcMaxIdle = pgMaxIdleConns cfg, pcLifetime = pgConnMaxLifetime cfg\<rparr>)"
  by (auto simp: postgresNew_def Let_def split: sum.splits option.splits)

lemma redisNewClient_Inr: "redisNewClient connect ping cfg = Inr c \<Longrightarrow> ping c = None"
  by (auto simp: redisNewClient_def Let_def split: option.splits)

text \<open>Consumers of one service share the group and start at the end of a partition that has no committed offset.\<close>

lemma NewConsumer_group:
  assumes "\<And>c. configOf (newReader c) = c"
  shows "rcGroupID (configOf (cnReader (NewConsumer newReader cfg topic h))) = kfConsumerGroup cfg"
    and "rcStartOffset (configOf (cnReader (NewConsumer newReader cfg topic h))) = LastOffset"
  by (simp_all add: NewConsumer_def assms)

end
