(* ===== verification/Service_Process.thy ===== *)
theory Service_Process
  imports Clients
begin

text \<open>
  The life of the HTTP services \<open>cmd/ingestion\<close>, \<open>cmd/gateway\<close>, \<open>cmd/searcher\<close> and \<open>cmd/analytics\<close>: what \<open>main\<close> sets up before
  it listens, with the exits in between (also for \<open>cmd/indexer\<close> and \<open>cmd/auth\<close>), and the process from \<open>ListenAndServe\<close> to its end. The goroutine that waits for
  the signal and calls \<open>Shutdown\<close>, the requests in flight and \<open>main\<close> itself interleave. As \<open>net/http\<close> documents,
  \<open>ListenAndServe\<close> returns as soon as \<open>Shutdown\<close> is called, while \<open>Shutdown\<close> waits for the requests. \<open>os.Exit\<close> runs no deferred call.
\<close>

section \<open>Setting up\<close>

text \<open>The calls that the mains defer.\<close>

datatype resource = DbClose | ProducerClose | StopSignals | MetricsShutdown | RouterClose | RedisClose | CollectorClose

record http_server =
  hsAddr :: string
  hsReadTimeout :: int
  hsWriteTimeout :: int

definition httpServer :: "int \<Rightarrow> ServerConfig \<Rightarrow> http_server" where
  "httpServer port cfg =
     \<lparr>hsAddr = '':'' @ show_int port, hsReadTimeout = svReadTimeout cfg, hsWriteTimeout = svWriteTimeout cfg\<rparr>"

text \<open>A set-up ends with an exit code, or with the server and the deferred calls in the order they were deferred.\<close>

definition ingestionBoot ::
  "config_error + Config \<Rightarrow> (PostgresConfig \<Rightarrow> pg_error + 'd pgClient) \<Rightarrow> int + http_server \<times> resource list" where
  "ingestionBoot load newPostgres =
     (case load of
        Inl err \<Rightarrow> Inl 1
      | Inr cfg \<Rightarrow>
          (case newPostgres (cfPostgres cfg) of
             Inl err \<Rightarrow> Inl 1
           | Inr db \<Rightarrow> Inr (httpServer (svPort (cfServer cfg)) (cfServer cfg), [DbClose, ProducerClose, StopSignals])))"

definition gatewayBoot ::
  "config_error + Config \<Rightarrow> (PostgresConfig \<Rightarrow> pg_error + 'd pgClient) \<Rightarrow> int + http_server \<times> resource list" where
  "gatewayBoot load newPostgres =
     (case load of
        Inl err \<Rightarrow> Inl 1
      | Inr cfg \<Rightarrow>
          (case newPostgres (cfPostgres cfg) of
             Inl err \<Rightarrow> Inl 1
           | Inr db \<Rightarrow> Inr (httpServer (gwPort (cfGateway cfg)) (cfServer cfg), [DbClose, StopSignals])))"

definition analyticsBoot :: "config_error + Config \<Rightarrow> int + http_server \<times> resource list" where
  "analyticsBoot load =
     (case load of
        Inl err \<Rightarrow> Inl 1
      | Inr cfg \<Rightarrow> Inr (httpServer (svPort (cfServer cfg)) (cfServer cfg), [StopSignals]))"

text \<open>The searcher does without Redis, and without metrics when they are not enabled.\<close>

definition searcherBoot ::
  "config_error + Config \<Rightarrow> (IndexerConfig \<Rightarrow> 'e + 'r) \<Rightarrow> (RedisConfig \<Rightarrow> string + 'c) \<Rightarrow>
   int + http_server \<times> resource list \<times> 'r \<times> 'c option" where
  "searcherBoot load newRouter newRedis =
     (case load of
        Inl err \<Rightarrow> Inl 1
      | Inr cfg \<Rightarrow>
          (let ds = (if mtEnabled (cfMetrics cfg) then [MetricsShutdown] else [])
           in case newRouter (cfIndexer cfg) of
                Inl err \<Rightarrow> Inl 1
              | Inr router \<Rightarrow>
                  (let ds = ds @ [RouterClose];
                       (redis, ds) = (case newRedis (cfRedis cfg) of
                          Inl err \<Rightarrow> (None, ds)
                        | Inr client \<Rightarrow> (Some client, ds @ [RedisClose]));
                       ds = ds @ [StopSignals, CollectorClose]
                   in Inr (httpServer (svPort (cfServer cfg)) (cfServer cfg), ds, router, redis))))"

text \<open>
  The indexer does without PostgreSQL. It serves no HTTP: what it gets are the router, the database for status updates, and the reader
  of its topic.
\<close>

definition indexerBoot ::
  "config_error + Config \<Rightarrow> (IndexerConfig \<Rightarrow> 'e + 'r) \<Rightarrow> (PostgresConfig \<Rightarrow> pg_error + 'd pgClient) \<Rightarrow> (ReaderConfig \<Rightarrow> 'k) \<Rightarrow>
   ('r \<Rightarrow> 'd option \<Rightarrow> 'h) \<Rightarrow> int + 'r \<times> ('k, 'h) Consumer \<times> resource list" where
  "indexerBoot load newRouter newPostgres newReader handler =
     (case load of
        Inl err \<Rightarrow> Inl 1
      | Inr cfg \<Rightarrow>
          (case newRouter (cfIndexer cfg) of
             Inl err \<Rightarrow> Inl 1
           | Inr router \<Rightarrow>
               (let db = (case newPostgres (cfPostgres cfg) of Inl err \<Rightarrow> None | Inr client \<Rightarrow> Some client);
                    ds = RouterClose # (if db = None then [] else [DbClose]) @ [StopSignals];
                    sqlDB = map_option pcDB db
                in Inr (router, NewConsumer newReader (cfKafka cfg) (tpDocumentIngest (kfTopics (cfKafka cfg))) (Some (handler router sqlDB)), ds))))"

text \<open>The key command, up to the choice of its sub-command.\<close>

definition authBoot ::
  "config_error + Config \<Rightarrow> (PostgresConfig \<Rightarrow> pg_error + 'd pgClient) \<Rightarrow> string list \<Rightarrow> int + 'd pgClient \<times> resource list" where
  "authBoot load newPostgres args =
     (case load of
        Inl err \<Rightarrow> Inl 1
      | Inr cfg \<Rightarrow>
          (case newPostgres (cfPostgres cfg) of
             Inl err \<Rightarrow> Inl 1
           | Inr db \<Rightarrow> if args = [] then Inl 1 else Inr (db, [DbClose])))"

lemma indexerBoot_nil_handler: "indexerBoot load newRouter newPostgres newReader h = Inr (r, c, ds) \<Longrightarrow> cnHandler c \<noteq> None \<and> hd ds = RouterClose"
  by (auto simp: indexerBoot_def Let_def NewConsumer_def split: sum.splits)

section \<open>The process\<close>

datatype main_pc = Serving | Returning "resource list" | Exited int

text \<open>The last component collects, as a ghost, the resources that a request used after they were closed.\<close>

record process =
  prListening :: bool
  prInFlight :: nat
  prSignalled :: bool
  prShutdown :: bool
  prMain :: main_pc
  prClosed :: "resource list"
  prLate :: "resource list"

definition startProcess :: process where
  "startProcess =
     \<lparr>prListening = True, prInFlight = 0, prSignalled = False, prShutdown = False, prMain = Serving, prClosed = [], prLate = []\<rparr>"

definition isExited :: "main_pc \<Rightarrow> bool" where
  "isExited pc = (case pc of Exited _ \<Rightarrow> True | _ \<Rightarrow> False)"

text \<open>\<open>ds\<close> are the deferred calls: they run in reverse order when \<open>main\<close> returns.\<close>

inductive proc_step :: "resource list \<Rightarrow> process \<Rightarrow> process \<Rightarrow> bool" for ds where
  accept_request: "prListening p \<Longrightarrow> \<not> isExited (prMain p) \<Longrightarrow> proc_step ds p (p\<lparr>prInFlight := prInFlight p + 1\<rparr>)"
| use_resource: "0 < prInFlight p \<Longrightarrow> \<not> isExited (prMain p) \<Longrightarrow> d \<in> set ds \<Longrightarrow>
    proc_step ds p (if d \<in> set (prClosed p) then p\<lparr>prLate := d # prLate p\<rparr> else p)"
| finish_request: "0 < prInFlight p \<Longrightarrow> \<not> isExited (prMain p) \<Longrightarrow> proc_step ds p (p\<lparr>prInFlight := prInFlight p - 1\<rparr>)"
| signal: "\<not> isExited (prMain p) \<Longrightarrow> proc_step ds p (p\<lparr>prSignalled := True\<rparr>)"
| shutdown_called: "prSignalled p \<Longrightarrow> \<not> isExited (prMain p) \<Longrightarrow> proc_step ds p (p\<lparr>prShutdown := True, prListening := False\<rparr>)"
| serve_closed: "prMain p = Serving \<Longrightarrow> prShutdown p \<Longrightarrow> proc_step ds p (p\<lparr>prMain := Returning (rev ds)\<rparr>)"
| serve_failed: "prMain p = Serving \<Longrightarrow> \<not> prShutdown p \<Longrightarrow> proc_step ds p (p\<lparr>prMain := Exited 1, prListening := False\<rparr>)"
| run_deferred: "prMain p = Returning (d # rs) \<Longrightarrow> proc_step ds p (p\<lparr>prMain := Returning rs, prClosed := prClosed p @ [d]\<rparr>)"
| main_returns: "prMain p = Returning [] \<Longrightarrow> proc_step ds p (p\<lparr>prMain := Exited 0\<rparr>)"

inductive_cases proc_stepE: "proc_step ds p p'"

definition proc_inv :: "resource list \<Rightarrow> process \<Rightarrow> bool" where
  "proc_inv ds p \<longleftrightarrow> (prListening p \<longrightarrow> \<not> prShutdown p \<and> prMain p = Serving) \<and> (prShutdown p \<longrightarrow> prSignalled p) \<and>
     set (prLate p) \<subseteq> set (prClosed p) \<and>
     (case prMain p of
        Serving \<Rightarrow> prClosed p = []
      | Returning rs \<Rightarrow> prShutdown p \<and> prClosed p @ rs = rev ds
      | Exited c \<Rightarrow> (c = 0 \<and> prShutdown p \<and> prClosed p = rev ds) \<or> (c = 1 \<and> \<not> prShutdown p \<and> prClosed p = []))"

lemma proc_inv_start: "proc_inv ds startProcess"
  by (simp add: proc_inv_def startProcess_def)

lemma proc_inv_step: "proc_step ds p p' \<Longrightarrow> proc_inv ds p \<Longrightarrow> proc_inv ds p'"
  by (induction rule: proc_step.induct) (auto simp: proc_inv_def isExited_def split: main_pc.splits)

lemma proc_inv_run: "(proc_step ds)\<^sup>*\<^sup>* startProcess p \<Longrightarrow> proc_inv ds p"
  by (induction rule: rtranclp_induct) (auto intro: proc_inv_start proc_inv_step)

section \<open>Shutting down\<close>

text \<open>With \<open>n\<close> requests accepted and a signal, \<open>main\<close> can run all its deferred calls and return.\<close>

definition returning :: "nat \<Rightarrow> resource list \<Rightarrow> resource list \<Rightarrow> process" where
  "returning n done rs = \<lparr>prListening = False, prInFlight = n, prSignalled = True, prShutdown = True,
     prMain = Returning rs, prClosed = done, prLate = []\<rparr>"

lemma run_accept: "(proc_step ds)\<^sup>*\<^sup>* startProcess (startProcess\<lparr>prInFlight := n\<rparr>)"
proof (induction n)
  case 0
  have "startProcess\<lparr>prInFlight := 0\<rparr> = startProcess" by (simp add: startProcess_def)
  then show ?case by simp
next
  case (Suc n)
  have "proc_step ds (startProcess\<lparr>prInFlight := n\<rparr>) (startProcess\<lparr>prInFlight := Suc n\<rparr>)"
    using accept_request [of "startProcess\<lparr>prInFlight := n\<rparr>" ds] by (simp add: startProcess_def isExited_def)
  with Suc show ?case by simp
qed

lemma run_signal: "(proc_step ds)\<^sup>*\<^sup>* startProcess (returning n [] (rev ds))"
proof -
  let ?p = "startProcess\<lparr>prInFlight := n\<rparr>"
  let ?p1 = "?p\<lparr>prSignalled := True\<rparr>"
  let ?p2 = "?p1\<lparr>prShutdown := True, prListening := False\<rparr>"
  have 1: "proc_step ds ?p ?p1" by (rule signal) (simp add: startProcess_def isExited_def)
  have 2: "proc_step ds ?p1 ?p2" by (rule shutdown_called) (simp_all add: startProcess_def isExited_def)
  have 3: "proc_step ds ?p2 (?p2\<lparr>prMain := Returning (rev ds)\<rparr>)" by (rule serve_closed) (simp_all add: startProcess_def)
  have "?p2\<lparr>prMain := Returning (rev ds)\<rparr> = returning n [] (rev ds)" by (simp add: startProcess_def returning_def)
  with run_accept [of ds n] 1 2 3 show ?thesis by (metis (no_types, lifting) rtranclp.rtrancl_into_rtrancl)
qed

lemma run_returning: "(proc_step ds)\<^sup>*\<^sup>* (returning n done (rs @ rs')) (returning n (done @ rs) rs')"
proof (induction rs arbitrary: "done")
  case (Cons d rs)
  have "proc_step ds (returning n done (d # rs @ rs')) (returning n (done @ [d]) (rs @ rs'))"
    using run_deferred [of "returning n done (d # rs @ rs')" d "rs @ rs'" ds] by (simp add: returning_def)
  with Cons [of "done @ [d]"] show ?case by (simp add: converse_rtranclp_into_rtranclp)
qed simp

section \<open>Properties\<close>



end
