(* ===== verification/Collectors.thy ===== *)
theory Collectors
  imports Prelude "HOL-Library.Multiset"
begin

text \<open>
  \<open>internal/analytics/collector.go\<close> and \<open>internal/analytics/collector/batch.go\<close>: the two collectors that carry
  analytics events to Kafka in the background. Producers and the background goroutine interleave:
  the operations are the atomic steps (a channel operation, a critical section), and the step
  relations below allow every interleaving of them. What Kafka does with a published event is the
  outcome of \<open>Publish\<close>, which the first collector only logs.
\<close>

section \<open>The channel collector\<close>

text \<open>\<open>published\<close> are the events handed to \<open>producer.Publish\<close>, in order.\<close>

record 'e collector =
  eventCh :: "'e list"
  chCap :: nat
  chClosed :: bool
  loopDone :: bool
  published :: "'e list"

definition NewCollector :: "int \<Rightarrow> 'e collector" where
  "NewCollector bufferSize =
     \<lparr>eventCh = [], chCap = nat (if bufferSize \<le> 0 then 10000 else bufferSize), chClosed = False,
      loopDone = False, published = []\<rparr>"

text \<open>\<open>Track\<close> does not block. \<open>None\<close> is the panic of a send on a closed channel.\<close>

definition Track :: "'e collector \<Rightarrow> 'e \<Rightarrow> 'e collector option" where
  "Track c event =
     (if chClosed c then None
      else if length (eventCh c) < chCap c then Some (c\<lparr>eventCh := eventCh c @ [event]\<rparr>)
      else Some c)"

text \<open>
  One iteration of the goroutine of \<open>Start\<close> that receives: \<open>None\<close> while the receive blocks.
\<close>

definition loopReceive :: "'e collector \<Rightarrow> 'e collector option" where
  "loopReceive c =
     (case eventCh c of
        event # rest \<Rightarrow> Some (c\<lparr>eventCh := rest, published := published c @ [event]\<rparr>)
      | [] \<Rightarrow> (if chClosed c then Some (c\<lparr>loopDone := True\<rparr>) else None))"

fun chDrain :: "'e list \<Rightarrow> 'e list \<Rightarrow> 'e list \<times> 'e list" where
  "chDrain [] out = ([], out)"
| "chDrain (event # rest) out = chDrain rest (out @ [event])"

definition drainRemaining :: "'e collector \<Rightarrow> 'e collector" where
  "drainRemaining c = (case chDrain (eventCh c) (published c) of (ch, out) \<Rightarrow> c\<lparr>eventCh := ch, published := out\<rparr>)"

text \<open>The iteration that sees the context done.\<close>

definition loopCancel :: "'e collector \<Rightarrow> 'e collector" where
  "loopCancel c = (drainRemaining c)\<lparr>loopDone := True\<rparr>"

text \<open>\<open>Close\<close> closes the channel (a panic if it is closed already) and then waits for \<open>loopDone\<close>.\<close>

definition closeCollector :: "'e collector \<Rightarrow> 'e collector option" where
  "closeCollector c = (if chClosed c then None else Some (c\<lparr>chClosed := True\<rparr>))"

text \<open>
  All interleavings. The ghost components are the events \<open>Track\<close> put into the channel and whether the
  context was cancelled.
\<close>

type_synonym 'e collector_sys = "'e collector \<times> 'e list \<times> bool"

inductive col_step :: "'e collector_sys \<Rightarrow> 'e collector_sys \<Rightarrow> bool" where
  track_in: "Track c e = Some c' \<Longrightarrow> length (eventCh c) < chCap c \<Longrightarrow> col_step (c, acc, k) (c', acc @ [e], k)"
| track_drop: "Track c e = Some c' \<Longrightarrow> \<not> length (eventCh c) < chCap c \<Longrightarrow> col_step (c, acc, k) (c', acc, k)"
| receive: "\<not> loopDone c \<Longrightarrow> loopReceive c = Some c' \<Longrightarrow> col_step (c, acc, k) (c', acc, k)"
| cancel: "\<not> loopDone c \<Longrightarrow> col_step (c, acc, k) (loopCancel c, acc, True)"
| close: "closeCollector c = Some c' \<Longrightarrow> col_step (c, acc, k) (c', acc, k)"

inductive col_reach :: "int \<Rightarrow> 'e collector_sys \<Rightarrow> bool" for n where
  col_start: "col_reach n (NewCollector n, [], False)"
| col_next: "col_reach n s \<Longrightarrow> col_step s s' \<Longrightarrow> col_reach n s'"

inductive_cases col_stepE: "col_step s s'"

section \<open>The batch collector\<close>

record 'e batch_collector =
  bcBuffer :: "'e list"
  batchSize :: nat
  flushInterval :: int

definition NewBatchCollector :: "int \<Rightarrow> int \<Rightarrow> 'e batch_collector" where
  "NewBatchCollector n t =
     \<lparr>bcBuffer = [], batchSize = nat (if n \<le> 0 then 100 else n),
      flushInterval = (if t \<le> 0 then 5000000000 else t)\<rparr>"

text \<open>\<open>Track\<close> also says whether it spawns a flush.\<close>

definition bcTrack :: "'e batch_collector \<Rightarrow> 'e \<Rightarrow> 'e batch_collector \<times> bool" where
  "bcTrack bc event =
     (let bc' = bc\<lparr>bcBuffer := bcBuffer bc @ [event]\<rparr>
      in (bc', batchSize bc \<le> length (bcBuffer bc')))"

definition BufferLen :: "'e batch_collector \<Rightarrow> nat" where
  "BufferLen bc = length (bcBuffer bc)"

text \<open>The two critical sections of \<open>flush\<close>: before \<open>PublishBatch\<close>, and after it failed.\<close>

definition flushTake :: "'e batch_collector \<Rightarrow> ('e list \<times> 'e batch_collector) option" where
  "flushTake bc = (if bcBuffer bc = [] then None else Some (bcBuffer bc, bc\<lparr>bcBuffer := []\<rparr>))"

definition flushRequeue :: "'e batch_collector \<Rightarrow> 'e list \<Rightarrow> 'e batch_collector" where
  "flushRequeue bc batch =
     (let buf = batch @ bcBuffer bc
      in bc\<lparr>bcBuffer := (if length buf > batchSize bc * 3 then take (batchSize bc * 3) buf else buf)\<rparr>)"

text \<open>\<open>flush\<close> without interference; \<open>ok\<close> is the outcome of \<open>PublishBatch\<close>. It returns what was published.\<close>

definition bcFlush :: "bool \<Rightarrow> 'e batch_collector \<Rightarrow> 'e batch_collector \<times> 'e list" where
  "bcFlush ok bc =
     (case flushTake bc of
        None \<Rightarrow> (bc, [])
      | Some (batch, bc') \<Rightarrow> if ok then (bc', batch) else (flushRequeue bc' batch, []))"

text \<open>The background loop of \<open>Start\<close>: ticks, then the final flush when the context is done.\<close>

datatype bc_event = Tick bool | Done bool

fun bcLoop :: "bc_event list \<Rightarrow> 'e batch_collector \<Rightarrow> 'e batch_collector \<times> 'e list" where
  "bcLoop [] bc = (bc, [])"
| "bcLoop (Tick ok # evs) bc =
     (case bcFlush ok bc of (bc', out) \<Rightarrow> (case bcLoop evs bc' of (bc'', out') \<Rightarrow> (bc'', out @ out')))"
| "bcLoop (Done ok # evs) bc = bcFlush ok bc"

text \<open>
  All interleavings of \<open>Track\<close> and concurrent flushes. \<open>inflight\<close> are the batches being published; the
  ghosts are all events tracked, those published and those dropped by the overflow of a requeue.
\<close>

record 'e bc_sys =
  bc :: "'e batch_collector"
  inflight :: "'e list multiset"
  tracked :: "'e list"
  delivered :: "'e list"
  dropped :: "'e list"

inductive bc_step :: "'e bc_sys \<Rightarrow> 'e bc_sys \<Rightarrow> bool" where
  bc_track: "bc_step s (s\<lparr>bc := fst (bcTrack (bc s) e), tracked := tracked s @ [e]\<rparr>)"
| bc_take: "flushTake (bc s) = Some (batch, bc') \<Longrightarrow> bc_step s (s\<lparr>bc := bc', inflight := add_mset batch (inflight s)\<rparr>)"
| bc_sent: "batch \<in># inflight s \<Longrightarrow>
    bc_step s (s\<lparr>inflight := inflight s - {#batch#}, delivered := delivered s @ batch\<rparr>)"
| bc_failed: "batch \<in># inflight s \<Longrightarrow>
    bc_step s (s\<lparr>inflight := inflight s - {#batch#}, bc := flushRequeue (bc s) batch,
                 dropped := dropped s @ drop (batchSize (bc s) * 3) (batch @ bcBuffer (bc s))\<rparr>)"

inductive bc_reach :: "int \<Rightarrow> int \<Rightarrow> 'e bc_sys \<Rightarrow> bool" for n t where
  bc_start: "bc_reach n t
    \<lparr>bc = NewBatchCollector n t, inflight = {#}, tracked = [], delivered = [], dropped = []\<rparr>"
| bc_next: "bc_reach n t s \<Longrightarrow> bc_step s s' \<Longrightarrow> bc_reach n t s'"

section \<open>Invariants\<close>

lemma chDrain_alt: "chDrain ch out = ([], out @ ch)"
  by (induction ch arbitrary: out) auto

lemma drainRemaining_alt: "drainRemaining c = c\<lparr>eventCh := [], published := published c @ eventCh c\<rparr>"
  by (simp add: drainRemaining_def chDrain_alt)

definition col_inv :: "int \<Rightarrow> 'e collector_sys \<Rightarrow> bool" where
  "col_inv n s \<longleftrightarrow> (case s of (c, acc, cancelled) \<Rightarrow>
     acc = published c @ eventCh c \<and> length (eventCh c) \<le> chCap c \<and> chCap c = chCap (NewCollector n :: 'e collector) \<and>
     (loopDone c \<and> \<not> cancelled \<longrightarrow> chClosed c \<and> eventCh c = []))"

lemma col_inv_step: "col_step s s' \<Longrightarrow> col_inv n s \<Longrightarrow> col_inv n s'"
  by (erule col_stepE)
    (auto simp: col_inv_def Track_def loopReceive_def loopCancel_def drainRemaining_alt closeCollector_def
      split: if_splits list.splits)

lemma col_inv_reach: "col_reach n s \<Longrightarrow> col_inv n s"
proof (induction rule: col_reach.induct)
  case col_start
  show ?case by (simp add: col_inv_def NewCollector_def)
qed (rule col_inv_step)

definition bc_inv :: "int \<Rightarrow> 'e bc_sys \<Rightarrow> bool" where
  "bc_inv n s \<longleftrightarrow> batchSize (bc s) = nat (if n \<le> 0 then 100 else n) \<and>
     mset (tracked s) = mset (delivered s) + mset (bcBuffer (bc s)) + \<Sum>\<^sub># (image_mset mset (inflight s)) + mset (dropped s) \<and>
     [] \<notin># inflight s"

lemma flushRequeue_alt:
  "flushRequeue b batch = b\<lparr>bcBuffer := take (batchSize b * 3) (batch @ bcBuffer b)\<rparr>"
  by (simp add: flushRequeue_def Let_def del: take_append)

lemma bc_inv_step:
  assumes "bc_step s s'" and "bc_inv n s"
  shows "bc_inv n s'"
  using assms
proof cases
  case (bc_failed batch)
  then obtain I where I: "inflight s = add_mset batch I" by (metis insert_DiffM)
  let ?n = "batchSize (bc s) * 3" and ?buf = "batch @ bcBuffer (bc s)"
  have split: "mset batch + mset (bcBuffer (bc s)) = mset (take ?n ?buf) + mset (drop ?n ?buf)"
    by (metis append_take_drop_id mset_append)
  have "mset (tracked s) = mset (delivered s) + (mset batch + mset (bcBuffer (bc s))) + \<Sum>\<^sub># (image_mset mset I) + mset (dropped s)"
    using assms(2) I by (simp add: bc_inv_def ac_simps)
  then have "mset (tracked s) = mset (delivered s) + mset (take ?n ?buf) + \<Sum>\<^sub># (image_mset mset I) + mset (dropped s @ drop ?n ?buf)"
    unfolding split by (simp add: ac_simps del: take_append drop_append)
  then show ?thesis
    using bc_failed(1) assms(2) I by (simp add: bc_inv_def flushRequeue_alt del: take_append drop_append)
next
  case (bc_sent batch)
  then obtain I where "inflight s = add_mset batch I" by (metis insert_DiffM)
  then show ?thesis using bc_sent assms(2) by (auto simp: bc_inv_def)
qed (auto simp: bc_inv_def bcTrack_def flushTake_def Let_def split: if_splits)

lemma bc_inv_reach: "bc_reach n t s \<Longrightarrow> bc_inv n s"
proof (induction rule: bc_reach.induct)
  case bc_start
  show ?case by (simp add: bc_inv_def NewBatchCollector_def)
qed (rule bc_inv_step)

text \<open>Receiving \<open>k\<close> times without blocking.\<close>

fun receives :: "nat \<Rightarrow> 'e collector \<Rightarrow> 'e collector option" where
  "receives 0 c = Some c"
| "receives (Suc k) c = (case loopReceive c of None \<Rightarrow> None | Some c' \<Rightarrow> receives k c')"

lemma receives_closed:
  "chClosed c \<Longrightarrow> receives (Suc (length (eventCh c))) c =
     Some (c\<lparr>eventCh := [], published := published c @ eventCh c, loopDone := True\<rparr>)"
proof (induction "eventCh c" arbitrary: c)
  case Nil
  from Nil(1) [symmetric] Nil(2) show ?case by (simp add: loopReceive_def)
next
  case (Cons e es)
  let ?c = "c\<lparr>eventCh := es, published := published c @ [e]\<rparr>"
  have "receives (Suc (length (eventCh c))) c = receives (Suc (length es)) ?c"
    using Cons.hyps(2) [symmetric] by (simp add: loopReceive_def)
  also have "\<dots> = Some (?c\<lparr>eventCh := [], published := published ?c @ es, loopDone := True\<rparr>)"
    using Cons.hyps(1) [of ?c] Cons.prems by simp
  finally show ?case using Cons.hyps(2) [symmetric] by simp
qed

section \<open>Properties\<close>

text \<open>
  C31. The channel collector, under every interleaving of callers and the background goroutine: the events
  accepted are published in order, each once, the rest waiting in the channel, which never
  exceeds its capacity; an event is dropped only when the channel is full. The goroutine publishes
  everything accepted so far when the context is cancelled, and everything ever accepted when the
  channel is closed instead, within one iteration per waiting event and a last one.
\<close>

theorem collector_delivers:
  assumes "col_reach n (c, acc, cancelled)"
  shows "acc = published c @ eventCh c \<and> length (eventCh c) \<le> nat (if n \<le> 0 then 10000 else n) \<and>
    (\<forall>e c'. Track c e = Some c' \<longrightarrow>
       eventCh c' = eventCh c @ [e] \<or> c' = c \<and> length (eventCh c) = nat (if n \<le> 0 then 10000 else n)) \<and>
    published (loopCancel c) = acc \<and>
    (loopDone c \<and> \<not> cancelled \<longrightarrow> published c = acc) \<and>
    (chClosed c \<longrightarrow> (\<exists>c'. receives (Suc (length (eventCh c))) c = Some c' \<and> loopDone c' \<and> published c' = acc))"
  using col_inv_reach [OF assms] receives_closed [of c]
  by (auto simp: col_inv_def NewCollector_def Track_def loopCancel_def drainRemaining_alt split: if_splits)

lemma col_sample:
  "col_reach 1 (\<lparr>eventCh = [''a''], chCap = 1, chClosed = False, loopDone = False, published = []\<rparr>, [''a''], False)"
proof -
  have "Track (NewCollector 1) ''a'' =
      Some \<lparr>eventCh = [''a''], chCap = 1, chClosed = False, loopDone = False, published = []\<rparr>"
    by (simp add: Track_def NewCollector_def)
  from col_next [OF col_start track_in [OF this]] show ?thesis by (simp add: NewCollector_def)
qed

theorem collector_delivers_witness:
  "let c = \<lparr>eventCh = [''a''], chCap = 1, chClosed = False, loopDone = False, published = []\<rparr>
   in published (loopCancel c) = [''a''] \<and> length (eventCh c) \<le> 1"
  using collector_delivers [OF col_sample] by simp

text \<open>
  C32. The batch collector, under every interleaving of callers and concurrent flushes: every tracked
  event is published, buffered, in a batch being published, or was dropped, and in exactly one of
  these ways; nothing is dropped unless publishing failed with more than three batches in hand, and
  a requeue leaves at most three batches buffered. The background loop's final flush, when
  publishing succeeds, leaves nothing behind.
\<close>

theorem batch_conserves:
  assumes "bc_reach n t s"
  shows "mset (tracked s) = mset (delivered s) + mset (bcBuffer (bc s)) +
      \<Sum>\<^sub># (image_mset mset (inflight s)) + mset (dropped s) \<and>
    (\<forall>batch. length (bcBuffer (flushRequeue (bc s) batch)) \<le> 3 * nat (if n \<le> 0 then 100 else n)) \<and>
    (\<forall>s'. bc_step s s' \<and> dropped s' \<noteq> dropped s \<longrightarrow>
      (\<exists>batch \<in># inflight s. delivered s' = delivered s \<and>
        length (batch @ bcBuffer (bc s)) > 3 * nat (if n \<le> 0 then 100 else n))) \<and>
    bcLoop [Done True] (bc s) = ((bc s)\<lparr>bcBuffer := []\<rparr>, bcBuffer (bc s))"
proof (intro conjI allI impI)
  note inv = bc_inv_reach [OF assms, unfolded bc_inv_def]
  show "mset (tracked s) = mset (delivered s) + mset (bcBuffer (bc s)) +
      \<Sum>\<^sub># (image_mset mset (inflight s)) + mset (dropped s)" using inv by simp
  show "length (bcBuffer (flushRequeue (bc s) batch)) \<le> 3 * nat (if n \<le> 0 then 100 else n)" for batch
    using inv by (simp add: flushRequeue_alt del: take_append)
  show "bcLoop [Done True] (bc s) = ((bc s)\<lparr>bcBuffer := []\<rparr>, bcBuffer (bc s))"
    by (simp add: bcFlush_def flushTake_def)
  fix s' assume "bc_step s s' \<and> dropped s' \<noteq> dropped s"
  then have "bc_step s s'" and d: "dropped s' \<noteq> dropped s" by auto
  then show "\<exists>batch \<in># inflight s. delivered s' = delivered s \<and>
      length (batch @ bcBuffer (bc s)) > 3 * nat (if n \<le> 0 then 100 else n)"
    by cases (use inv in \<open>auto intro!: bexI\<close>)
qed

theorem batch_conserves_witness:
  "\<exists>s :: string bc_sys. bc_reach 2 0 s \<and> tracked s = [''a'', ''b''] \<and>
     mset (tracked s) = mset (delivered s) + mset (bcBuffer (bc s)) + \<Sum>\<^sub># (image_mset mset (inflight s)) + mset (dropped s)"
proof -
  from bc_next [OF bc_next [OF bc_start bc_track [of _ "''a''"]] bc_track [of _ "''b''"], of 2 0]
  obtain s :: "string bc_sys" where s: "bc_reach 2 0 s" "tracked s = [''a'', ''b'']" by auto
  from batch_conserves [OF s(1)] s show ?thesis by blast
qed

end
