(* ===== verification/Aggregator.thy ===== *)
theory Aggregator
  imports Prelude Complex_Main "HOL-Library.Multiset"
begin

text \<open>
  \<open>internal/analytics/events.go\<close> and \<open>aggregator.go\<close>: the in-memory aggregation of analytics events and its
  statistics. Each operation is atomic (the counters are atomic, the rest is under the mutex). The
  maps are association lists in an arbitrary order, the order Go iterates in. Counters and sums are
  unbounded integers; durations are in minutes, floating-point numbers are reals.
\<close>

section \<open>Events and state\<close>

record SearchEvent =
  seType :: string
  seQuery :: string
  seTerms :: "string list"
  seTotalHits :: int
  seReturned :: int
  seLatencyMs :: int
  seCacheHit :: bool
  seShardCount :: int
  seTimestamp :: int
  seRequestID :: string

record IndexEvent =
  ieType :: string
  ieDocumentID :: string
  ieShardID :: int
  ieTokenCount :: int
  ieSizeBytes :: int
  ieLatencyMs :: int
  ieTimestamp :: int

record QueryCount =
  qcQuery :: string
  qcCount :: int

record AggregatedStats =
  TotalSearches :: int
  TotalDocIndexed :: int
  CacheHits :: int
  CacheMisses :: int
  ZeroResultCount :: int
  AvgLatencyMs :: real
  P50LatencyMs :: int
  P95LatencyMs :: int
  P99LatencyMs :: int
  TopQueries :: "QueryCount list"
  ZeroResultQueries :: "QueryCount list"
  QueriesPerMinute :: real

record aggregator =
  agSearches :: int
  agDocIndexed :: int
  agHits :: int
  agMisses :: int
  agZero :: int
  latencies :: "int list"
  queryCounts :: "(string \<times> int) list"
  zeroResultQueries :: "(string \<times> int) list"
  startTime :: real

definition NewAggregator :: "real \<Rightarrow> aggregator" where
  "NewAggregator now =
     \<lparr>agSearches = 0, agDocIndexed = 0, agHits = 0, agMisses = 0, agZero = 0, latencies = [],
      queryCounts = [], zeroResultQueries = [], startTime = now\<rparr>"

section \<open>Recording\<close>

text \<open>\<open>m[k]++\<close> on a Go map: a missing key counts from 0.\<close>

definition incr :: "string \<Rightarrow> (string \<times> int) list \<Rightarrow> (string \<times> int) list" where
  "incr k m = AList.update k (case map_of m k of None \<Rightarrow> 1 | Some n \<Rightarrow> n + 1) m"

definition recordSearchEvent :: "aggregator \<Rightarrow> SearchEvent \<Rightarrow> aggregator" where
  "recordSearchEvent a event =
     (let a1 = a\<lparr>agSearches := agSearches a + 1\<rparr>;
          a2 = (if seCacheHit event then a1\<lparr>agHits := agHits a1 + 1\<rparr> else a1\<lparr>agMisses := agMisses a1 + 1\<rparr>);
          a3 = (if seTotalHits event = 0 then a2\<lparr>agZero := agZero a2 + 1\<rparr> else a2);
          a4 = a3\<lparr>latencies := latencies a3 @ [seLatencyMs event], queryCounts := incr (seQuery event) (queryCounts a3)\<rparr>
      in if seTotalHits event = 0 then a4\<lparr>zeroResultQueries := incr (seQuery event) (zeroResultQueries a4)\<rparr> else a4)"

definition recordIndexEvent :: "aggregator \<Rightarrow> IndexEvent \<Rightarrow> aggregator" where
  "recordIndexEvent a event = a\<lparr>agDocIndexed := agDocIndexed a + 1\<rparr>"

text \<open>\<open>decodeSearch\<close> and \<open>decodeIndex\<close> are \<open>kafka.DecodeJSON\<close> at the two event types. The handler never returns an error.\<close>

definition HandleEvent ::
  "('b \<Rightarrow> SearchEvent option) \<Rightarrow> ('b \<Rightarrow> IndexEvent option) \<Rightarrow> aggregator \<Rightarrow> 'b \<Rightarrow> aggregator" where
  "HandleEvent decodeSearch decodeIndex agg value =
     (case decodeSearch value of
        None \<Rightarrow>
          (case decodeIndex value of
             None \<Rightarrow> agg
           | Some idxEvent \<Rightarrow> recordIndexEvent agg idxEvent)
      | Some event \<Rightarrow> recordSearchEvent agg event)"

section \<open>Statistics\<close>

definition percentile :: "int list \<Rightarrow> nat \<Rightarrow> int" where
  "percentile xs pct =
     (if length xs = 0 then 0
      else
        (let idx = (pct * length xs) div 100;
             idx = (if idx \<ge> length xs then length xs - 1 else idx)
         in xs ! idx))"

text \<open>
  \<open>sort.Slice\<close> is not stable: \<open>srt\<close> stands for what it does to a slice, some permutation that is
  descending by count (the laws of the locale \<open>slice_sort\<close> below).
\<close>

definition topN :: "(QueryCount list \<Rightarrow> QueryCount list) \<Rightarrow> (string \<times> int) list \<Rightarrow> nat \<Rightarrow> QueryCount list" where
  "topN srt counts n =
     (let result = srt (map (\<lambda>(query, count). \<lparr>qcQuery = query, qcCount = count\<rparr>) counts)
      in if length result > n then take n result else result)"

definition Stats :: "(QueryCount list \<Rightarrow> QueryCount list) \<Rightarrow> real \<Rightarrow> aggregator \<Rightarrow> AggregatedStats" where
  "Stats srt now a =
     (let srted = sort (latencies a);
          elapsed = now - startTime a
      in \<lparr>TotalSearches = agSearches a, TotalDocIndexed = agDocIndexed a, CacheHits = agHits a,
          CacheMisses = agMisses a, ZeroResultCount = agZero a,
          AvgLatencyMs = (if latencies a = [] then 0 else real_of_int (sum_list srted) / real (length srted)),
          P50LatencyMs = (if latencies a = [] then 0 else percentile srted 50),
          P95LatencyMs = (if latencies a = [] then 0 else percentile srted 95),
          P99LatencyMs = (if latencies a = [] then 0 else percentile srted 99),
          TopQueries = topN srt (queryCounts a) 10,
          ZeroResultQueries = topN srt (zeroResultQueries a) 10,
          QueriesPerMinute = (if elapsed > 0 then real_of_int (agSearches a) / elapsed else 0)\<rparr>)"

section \<open>Sorting\<close>

locale slice_sort =
  fixes srt :: "QueryCount list \<Rightarrow> QueryCount list"
  assumes srt_perm: "mset (srt xs) = mset xs"
    and srt_desc: "sorted_wrt (\<lambda>x y. qcCount y \<le> qcCount x) (srt xs)"
begin

lemma srt_set: "set (srt xs) = set xs"
  using srt_perm [of xs] by (metis set_mset_mset)

lemma srt_length: "length (srt xs) = length xs"
  using srt_perm [of xs] by (metis size_mset)

lemma topN_take:
  "topN srt counts n = take n (srt (map (\<lambda>(query, count). \<lparr>qcQuery = query, qcCount = count\<rparr>) counts))"
  by (simp add: topN_def Let_def)

text \<open>The queries listed, and why the ones left out are.\<close>

lemma topN_spec:
  assumes "distinct (map fst counts)"
  shows "sorted_wrt (\<lambda>x y. qcCount y \<le> qcCount x) (topN srt counts n)"
    and "length (topN srt counts n) = min n (length counts)"
    and "x \<in> set (topN srt counts n) \<Longrightarrow> map_of counts (qcQuery x) = Some (qcCount x)"
    and "map_of counts q = Some c \<Longrightarrow> q \<notin> qcQuery ` set (topN srt counts n) \<Longrightarrow> x \<in> set (topN srt counts n) \<Longrightarrow>
      c \<le> qcCount x"
proof -
  define r where "r = srt (map (\<lambda>(query, count). \<lparr>qcQuery = query, qcCount = count\<rparr>) counts)"
  have t: "topN srt counts n = take n r" by (simp add: topN_take r_def)
  have r: "sorted_wrt (\<lambda>x y. qcCount y \<le> qcCount x) (take n r @ drop n r)" by (simp add: r_def srt_desc)
  then show "sorted_wrt (\<lambda>x y. qcCount y \<le> qcCount x) (topN srt counts n)" by (simp add: t sorted_wrt_append)
  show "length (topN srt counts n) = min n (length counts)" by (simp add: t r_def srt_length)
  have m: "y \<in> set r \<longleftrightarrow> map_of counts (qcQuery y) = Some (qcCount y)" for y
    using assms by (cases y) (force simp: r_def srt_set map_of_eq_Some_iff image_iff)
  show "map_of counts (qcQuery x) = Some (qcCount x)" if "x \<in> set (topN srt counts n)"
    using that m by (auto simp: t dest: in_set_takeD)
  show "c \<le> qcCount x" if q: "map_of counts q = Some c" "q \<notin> qcQuery ` set (topN srt counts n)"
    and x: "x \<in> set (topN srt counts n)"
  proof -
    have "\<lparr>qcQuery = q, qcCount = c\<rparr> \<in> set (take n r @ drop n r)" using q(1) m by simp
    then have "\<lparr>qcQuery = q, qcCount = c\<rparr> \<in> set (drop n r)"
      using q(2) by (force simp: t simp del: append_take_drop_id)
    with r [unfolded sorted_wrt_append] x [unfolded t] show ?thesis by force
  qed
qed

end

definition sortByCount :: "QueryCount list \<Rightarrow> QueryCount list" where
  "sortByCount = sort_key (\<lambda>q. - qcCount q)"

interpretation stable: slice_sort sortByCount
proof
  show "mset (sortByCount xs) = mset xs" for xs by (simp add: sortByCount_def)
  have "sorted_wrt (\<lambda>x y. - qcCount x \<le> - qcCount y) (sortByCount xs)" for xs
    using sorted_sort_key [of "\<lambda>q. - qcCount q" xs] by (simp add: sortByCount_def sorted_map)
  then show "sorted_wrt (\<lambda>x y. qcCount y \<le> qcCount x) (sortByCount xs)" for xs by simp
qed

section \<open>Percentiles\<close>

lemma percentile_nth:
  "xs \<noteq> [] \<Longrightarrow> percentile xs pct = xs ! min (pct * length xs div 100) (length xs - 1)"
  by (auto simp: percentile_def Let_def min_def)

lemma percentile_mono:
  assumes "sorted xs" and "p \<le> q"
  shows "percentile xs p \<le> percentile xs q"
proof (cases "xs = []")
  case False
  have "p * length xs div 100 \<le> q * length xs div 100" using assms(2) by (intro div_le_mono mult_le_mono) auto
  with False show ?thesis
    unfolding percentile_nth [OF False]
    by (intro sorted_nth_mono [OF assms(1)]) (auto simp: min_def length_greater_0_conv [symmetric] simp del: length_greater_0_conv)
qed (simp add: percentile_def)

lemma sorted_rank:
  assumes "sorted xs" and "i < length xs"
  shows "i < length (filter (\<lambda>l. l \<le> xs ! i) xs)" and "length xs - i \<le> length (filter (\<lambda>l. xs ! i \<le> l) xs)"
proof -
  have "filter (\<lambda>l. l \<le> xs ! i) (take (Suc i) xs) = take (Suc i) xs"
    using assms by (auto simp: filter_id_conv in_set_conv_nth intro!: sorted_nth_mono)
  then have "length (filter (\<lambda>l. l \<le> xs ! i) (take (Suc i) xs @ drop (Suc i) xs)) \<ge> Suc i"
    using assms(2) unfolding filter_append by simp
  then show "i < length (filter (\<lambda>l. l \<le> xs ! i) xs)" by simp
  have "filter (\<lambda>l. xs ! i \<le> l) (drop i xs) = drop i xs"
    using assms by (auto simp: filter_id_conv in_set_conv_nth intro!: sorted_nth_mono)
  then have "length (filter (\<lambda>l. xs ! i \<le> l) (take i xs @ drop i xs)) \<ge> length xs - i"
    unfolding filter_append by simp
  then show "length xs - i \<le> length (filter (\<lambda>l. xs ! i \<le> l) xs)" by simp
qed

text \<open>The \<open>pct\<close>-th percentile of the unsorted latencies: how many lie below and above it.\<close>

lemma percentile_rank:
  assumes "xs \<noteq> []" and "pct < 100"
  shows "pct * length xs div 100 < length (filter (\<lambda>l. l \<le> percentile (sort xs) pct) xs)"
    and "length xs - pct * length xs div 100 \<le> length (filter (\<lambda>l. percentile (sort xs) pct \<le> l) xs)"
proof -
  let ?i = "pct * length xs div 100"
  have i: "?i < length xs" using assms by (simp add: div_less_iff_less_mult)
  then have p: "percentile (sort xs) pct = sort xs ! ?i"
    using assms(1) percentile_nth [of "sort xs" pct] by (simp add: min_def length_0_conv [symmetric] del: length_0_conv)
  have len: "length (filter P (sort xs)) = length (filter P xs)" for P :: "int \<Rightarrow> bool"
    by (metis mset_filter mset_sort size_mset)
  show "?i < length (filter (\<lambda>l. l \<le> percentile (sort xs) pct) xs)"
    using sorted_rank(1) [of "sort xs" ?i] i unfolding p len by simp
  show "length xs - ?i \<le> length (filter (\<lambda>l. percentile (sort xs) pct \<le> l) xs)"
    using sorted_rank(2) [of "sort xs" ?i] i unfolding p len by simp
qed

section \<open>Counting\<close>

text \<open>A map that counts the occurrences in a list of queries.\<close>

definition counts_ok :: "(string \<times> int) list \<Rightarrow> string list \<Rightarrow> bool" where
  "counts_ok m qs \<longleftrightarrow> distinct (map fst m) \<and>
     (\<forall>q. map_of m q = (if q \<in> set qs then Some (int (count_list qs q)) else None))"

lemma counts_ok_incr: "counts_ok m qs \<Longrightarrow> counts_ok (incr q m) (qs @ [q])"
  by (auto simp: counts_ok_def incr_def update_conv' distinct_update count_list_append split: option.splits)

definition searchesIn :: "('b \<Rightarrow> SearchEvent option) \<Rightarrow> 'b list \<Rightarrow> SearchEvent list" where
  "searchesIn decodeSearch msgs = List.map_filter decodeSearch msgs"

definition indexesIn :: "('b \<Rightarrow> SearchEvent option) \<Rightarrow> ('b \<Rightarrow> IndexEvent option) \<Rightarrow> 'b list \<Rightarrow> IndexEvent list" where
  "indexesIn decodeSearch decodeIndex msgs = List.map_filter (\<lambda>m. if decodeSearch m = None then decodeIndex m else None) msgs"

definition agg_ok :: "aggregator \<Rightarrow> SearchEvent list \<Rightarrow> IndexEvent list \<Rightarrow> bool" where
  "agg_ok a S I \<longleftrightarrow> agSearches a = int (length S) \<and> agDocIndexed a = int (length I) \<and>
     agHits a = int (length (filter seCacheHit S)) \<and> agMisses a = int (length (filter (\<lambda>e. \<not> seCacheHit e) S)) \<and>
     agZero a = int (length (filter (\<lambda>e. seTotalHits e = 0) S)) \<and> latencies a = map seLatencyMs S \<and>
     counts_ok (queryCounts a) (map seQuery S) \<and>
     counts_ok (zeroResultQueries a) (map seQuery (filter (\<lambda>e. seTotalHits e = 0) S))"

lemma agg_ok_New: "agg_ok (NewAggregator t) [] []"
  by (simp add: agg_ok_def NewAggregator_def counts_ok_def)

lemma agg_ok_search: "agg_ok a S I \<Longrightarrow> agg_ok (recordSearchEvent a e) (S @ [e]) I"
  by (simp add: agg_ok_def recordSearchEvent_def Let_def counts_ok_incr)

lemma agg_ok_index: "agg_ok a S I \<Longrightarrow> agg_ok (recordIndexEvent a e) S (I @ [e])"
  by (simp add: agg_ok_def recordIndexEvent_def)

lemma map_filter_snoc: "List.map_filter f (xs @ [x]) = List.map_filter f xs @ (case f x of None \<Rightarrow> [] | Some y \<Rightarrow> [y])"
  by (simp add: List.map_filter_def split: option.splits)

lemma agg_ok_run:
  "agg_ok (foldl (HandleEvent ds di) (NewAggregator t) msgs) (searchesIn ds msgs) (indexesIn ds di msgs)"
proof (induction msgs rule: rev_induct)
  case Nil
  show ?case using agg_ok_New by (simp add: searchesIn_def indexesIn_def List.map_filter_def)
next
  case (snoc m msgs)
  then show ?case
    by (auto simp: searchesIn_def indexesIn_def map_filter_snoc HandleEvent_def agg_ok_search agg_ok_index
        split: option.splits)
qed

text \<open>A list of the most frequent queries: descending, with their exact counts, nothing more frequent left out.\<close>

definition topQueries :: "string list \<Rightarrow> QueryCount list \<Rightarrow> bool" where
  "topQueries qs r \<longleftrightarrow> sorted_wrt (\<lambda>x y. qcCount y \<le> qcCount x) r \<and> length r = min 10 (card (set qs)) \<and>
     (\<forall>x \<in> set r. qcQuery x \<in> set qs \<and> qcCount x = int (count_list qs (qcQuery x)) \<and>
       (\<forall>q. q \<notin> qcQuery ` set r \<longrightarrow> int (count_list qs q) \<le> qcCount x))"

lemma topN_counts:
  assumes "slice_sort srt" and "counts_ok m qs"
  shows "topQueries qs (topN srt m 10)"
proof -
  have d: "distinct (map fst m)" and c: "map_of m q = (if q \<in> set qs then Some (int (count_list qs q)) else None)" for q
    using assms(2) by (auto simp: counts_ok_def)
  note T = slice_sort.topN_spec [OF assms(1) d, where n = 10]
  have "set qs = fst ` set m"
  proof (rule set_eqI)
    show "q \<in> set qs \<longleftrightarrow> q \<in> fst ` set m" for q
      using c [of q] map_of_eq_None_iff [of m q] by (auto split: if_splits)
  qed
  then have "card (set qs) = length m" using d by (metis distinct_card length_map set_map)
  moreover have "int (count_list qs q) \<le> qcCount x"
    if "q \<notin> qcQuery ` set (topN srt m 10)" "x \<in> set (topN srt m 10)" for q x
  proof (cases "q \<in> set qs")
    case True
    then show ?thesis using c [of q] T(4) [OF _ that] by simp
  next
    case False
    then have "count_list qs q = 0" by (simp add: count_list_0_iff)
    moreover have "0 \<le> qcCount x" using T(3) [OF that(2)] c [of "qcQuery x"] by (auto split: if_splits)
    ultimately show ?thesis by simp
  qed
  moreover have "qcQuery x \<in> set qs \<and> qcCount x = int (count_list qs (qcQuery x))" if "x \<in> set (topN srt m 10)" for x
    using T(3) [OF that] c [of "qcQuery x"] by (auto split: if_splits)
  ultimately show ?thesis
    unfolding topQueries_def using T(1,2) by simp
qed

section \<open>Properties\<close>

text \<open>
  C30. The statistics after any sequence of messages are those of the decoded events: the totals count
  the search and index events, hits and misses add up to the searches, the average is that of the
  latencies, the percentiles are ordered and have at least their share of the latencies below and
  the rest above, and the query lists hold the ten most frequent queries with their exact
  counts, whatever the sort does with ties. A payload that decodes as a search event is counted as
  a search, even if it is an index event.
\<close>

theorem Stats_correct:
  assumes "slice_sort srt" and "S = searchesIn ds msgs" and "I = indexesIn ds di msgs"
    and "st = Stats srt now (foldl (HandleEvent ds di) (NewAggregator t) msgs)"
  shows "TotalSearches st = int (length S) \<and> TotalDocIndexed st = int (length I) \<and>
    CacheHits st + CacheMisses st = TotalSearches st \<and> CacheHits st = int (length (filter seCacheHit S)) \<and>
    ZeroResultCount st = int (length (filter (\<lambda>e. seTotalHits e = 0) S)) \<and>
    AvgLatencyMs st * length S = sum_list (map seLatencyMs S) \<and>
    P50LatencyMs st \<le> P95LatencyMs st \<and> P95LatencyMs st \<le> P99LatencyMs st \<and>
    (\<forall>(pct, p) \<in> {(50, P50LatencyMs st), (95, P95LatencyMs st), (99, P99LatencyMs st)}. S \<noteq> [] \<longrightarrow>
       pct * length S div 100 < length (filter (\<lambda>e. seLatencyMs e \<le> p) S) \<and>
       length S - pct * length S div 100 \<le> length (filter (\<lambda>e. p \<le> seLatencyMs e) S)) \<and>
    topQueries (map seQuery S) (TopQueries st) \<and>
    topQueries (map seQuery (filter (\<lambda>e. seTotalHits e = 0) S)) (ZeroResultQueries st) \<and>
    (t < now \<longrightarrow> QueriesPerMinute st * (now - t) = TotalSearches st)"
proof -
  define a where "a = foldl (HandleEvent ds di) (NewAggregator t) msgs"
  have ok: "agg_ok a S I" unfolding a_def assms(2,3) by (rule agg_ok_run)
  have start: "startTime a = t"
    unfolding a_def by (induction msgs rule: rev_induct)
      (auto simp: NewAggregator_def HandleEvent_def recordSearchEvent_def recordIndexEvent_def Let_def split: option.splits)
  note o = ok [unfolded agg_ok_def]
  have st: "st = Stats srt now a" using assms(4) a_def by simp
  have len: "length (filter seCacheHit S) + length (filter (\<lambda>e. \<not> seCacheHit e) S) = length S"
    by (rule sum_length_filter_compl)
  have pc: "pct * length S div 100 < length (filter (\<lambda>e. seLatencyMs e \<le> percentile (sort (map seLatencyMs S)) pct) S)"
      "length S - pct * length S div 100 \<le> length (filter (\<lambda>e. percentile (sort (map seLatencyMs S)) pct \<le> seLatencyMs e) S)"
    if "S \<noteq> []" "pct < 100" for pct
    using percentile_rank [of "map seLatencyMs S" pct] that by (simp_all add: filter_map comp_def)
  have mono: "percentile (sort (map seLatencyMs S)) 50 \<le> percentile (sort (map seLatencyMs S)) 95"
      "percentile (sort (map seLatencyMs S)) 95 \<le> percentile (sort (map seLatencyMs S)) 99"
    by (simp_all add: percentile_mono)
  show ?thesis
  proof (intro conjI)
    show "topQueries (map seQuery S) (TopQueries st)"
      "topQueries (map seQuery (filter (\<lambda>e. seTotalHits e = 0) S)) (ZeroResultQueries st)"
      using o topN_counts [OF assms(1)] by (simp_all add: st Stats_def Let_def)
    have "sum_list (sort (map seLatencyMs S)) = sum_list (map seLatencyMs S)"
      by (metis mset_sort sum_mset_sum_list)
    then show "AvgLatencyMs st * length S = sum_list (map seLatencyMs S)"
      using o by (auto simp: st Stats_def Let_def)
    show "\<forall>(pct, p) \<in> {(50, P50LatencyMs st), (95, P95LatencyMs st), (99, P99LatencyMs st)}. S \<noteq> [] \<longrightarrow>
       pct * length S div 100 < length (filter (\<lambda>e. seLatencyMs e \<le> p) S) \<and>
       length S - pct * length S div 100 \<le> length (filter (\<lambda>e. p \<le> seLatencyMs e) S)"
      using o pc [of 50] pc [of 95] pc [of 99] by (auto simp: st Stats_def Let_def)
    show "t < now \<longrightarrow> QueriesPerMinute st * (now - t) = TotalSearches st"
      using o start by (simp add: st Stats_def Let_def)
  qed (use o len mono in \<open>auto simp: st Stats_def Let_def\<close>)
qed

definition sampleSearch :: "string \<Rightarrow> int \<Rightarrow> int \<Rightarrow> SearchEvent" where
  "sampleSearch q n ms = \<lparr>seType = ''search'', seQuery = q, seTerms = [q], seTotalHits = n, seReturned = n,
     seLatencyMs = ms, seCacheHit = False, seShardCount = 8, seTimestamp = 0, seRequestID = ''r''\<rparr>"

theorem Stats_correct_witness:
  "let st = Stats sortByCount 2 (foldl (HandleEvent Some (\<lambda>_. None)) (NewAggregator 1)
       [sampleSearch ''go'' 3 10, sampleSearch ''go'' 0 30, sampleSearch ''rust'' 1 20])
   in TotalSearches st = 3 \<and> P50LatencyMs st \<le> P99LatencyMs st \<and> CacheHits st + CacheMisses st = 3"
proof -
  let ?msgs = "[sampleSearch ''go'' 3 10, sampleSearch ''go'' 0 30, sampleSearch ''rust'' 1 20]"
  have "searchesIn Some ?msgs = ?msgs" by (simp add: searchesIn_def List.map_filter_def)
  with Stats_correct [OF stable.slice_sort_axioms refl refl refl, where msgs = ?msgs and ds = Some and di = "\<lambda>_. None" and now = 2 and t = 1]
  show ?thesis by (simp add: Let_def)
qed

end
