(* ===== verification/Search_Handler.thy ===== *)
theory Search_Handler
  imports Query_Cache Collectors Aggregator Http
begin

text \<open>
  \<open>internal/searcher/handler/handler.go\<close>: the search endpoint. It ties the parser, the executor, the cache
  and the analytics collector together. Metrics, logging and tracing do not influence the reply and
  are left out.
\<close>

text \<open>
  \<open>execute\<close> is the executor, \<open>lookup\<close> the cache's \<open>GetOrCompute\<close> (\<open>None\<close> when caching is disabled) on a cache state of
  type \<open>'c\<close>. The clock readings and the request ID are arguments.
\<close>

record search_config =
  defaultLimit :: int
  maxResults :: int

datatype search_reply =
  SearchError string
| EmptySearch string
| SearchReply string int "ScoredDoc list" int bool

type_synonym ('c, 'e) cache_lookup =
  "string \<Rightarrow> int \<Rightarrow> ('e + SearchResult) \<Rightarrow> 'c \<Rightarrow> ('e + SearchResult \<times> bool) \<times> 'c"

text \<open>The limit: \<open>None\<close> when it is not a positive number.\<close>

definition searchLimit :: "search_config \<Rightarrow> string \<Rightarrow> int option" where
  "searchLimit h limitStr =
     (if limitStr = [] then Some (defaultLimit h)
      else
        (case Atoi limitStr of
           None \<Rightarrow> None
         | Some parsed \<Rightarrow>
             if parsed < 1 then None
             else Some (if parsed > maxResults h then maxResults h else parsed)))"

definition searchEvent :: "string \<Rightarrow> QueryPlan \<Rightarrow> SearchResult \<Rightarrow> bool \<Rightarrow> int \<Rightarrow> int \<Rightarrow> string \<Rightarrow> SearchEvent" where
  "searchEvent query plan result cacheHit latencyMs now requestID =
     \<lparr>seType = (if cacheHit then ''cache_hit'' else ''cache_miss''), seQuery = query, seTerms = planTerms plan,
      seTotalHits = TotalHits result, seReturned = int (length (Results result)), seLatencyMs = latencyMs,
      seCacheHit = cacheHit, seShardCount = 0, seTimestamp = now, seRequestID = requestID\<rparr>"

text \<open>\<open>track\<close> is the collector (\<open>None\<close> when there is none). The result \<open>None\<close> is the panic of a closed collector.\<close>

definition handleSearch ::
  "search_config \<Rightarrow> (QueryPlan \<Rightarrow> int \<Rightarrow> 'e + SearchResult) \<Rightarrow> ('c, 'e) cache_lookup option \<Rightarrow> int \<Rightarrow> int \<Rightarrow> string \<Rightarrow>
   request \<Rightarrow> 'c \<Rightarrow> SearchEvent collector option \<Rightarrow>
   ((int \<times> search_reply) \<times> 'c \<times> SearchEvent collector option) option" where
  "handleSearch h execute lookup latencyMs now requestID r c col =
     (let query = queryGet r ''q''
      in if query = [] then Some ((400, SearchError ''query parameter 'q' is required''), c, col)
         else
           (case searchLimit h (queryGet r ''limit'') of
              None \<Rightarrow> Some ((400, SearchError ''limit must be a positive integer''), c, col)
            | Some limit \<Rightarrow>
                (let plan = Parse query
                 in if length (planTerms plan) = 0 then Some ((200, EmptySearch query), c, col)
                    else
                      (case (case lookup of
                               None \<Rightarrow> (map_sum id (\<lambda>result. (result, False)) (execute plan limit), c)
                             | Some op \<Rightarrow> op query limit (execute plan limit) c) of
                         (Inl err, c') \<Rightarrow> Some ((500, SearchError ''search failed''), c', col)
                       | (Inr (result, cacheHit), c') \<Rightarrow>
                           (let reply = (200, SearchReply (srQuery result) (TotalHits result) (Results result) latencyMs cacheHit)
                            in case col of
                                 None \<Rightarrow> Some (reply, c', None)
                               | Some cl \<Rightarrow>
                                   (case Track cl (searchEvent query plan result cacheHit latencyMs now requestID) of
                                      None \<Rightarrow> None
                                    | Some cl' \<Rightarrow> Some (reply, c', Some cl')))))))"

text \<open>The cache endpoints.\<close>

datatype cache_reply = CacheDisabled | CacheCounts int int int real | CacheError string | CacheInvalidated

definition handleCacheStats :: "QueryCache option \<Rightarrow> int \<times> cache_reply" where
  "handleCacheStats cache =
     (case cache of
        None \<Rightarrow> (200, CacheDisabled)
      | Some c \<Rightarrow>
          (case cacheStats c of
             (hit, miss) \<Rightarrow>
               (let tot = hit + miss;
                    hitRate = (if tot > 0 then real_of_int hit / real_of_int tot * 100 else 0)
                in (200, CacheCounts hit miss tot hitRate))))"

definition handleCacheInvalidate ::
  "('d \<Rightarrow> string \<Rightarrow> string list \<times> bool) \<Rightarrow> ('d \<Rightarrow> string \<Rightarrow> bool \<times> 'd) \<Rightarrow> bool \<Rightarrow> 'd \<Rightarrow> (int \<times> cache_reply) \<times> 'd" where
  "handleCacheInvalidate rscan rdel enabled d =
     (if \<not> enabled then ((503, CacheError ''caching is disabled''), d)
      else
        (case Invalidate rscan rdel d of
           (Some err, d') \<Rightarrow> ((500, CacheError ''cache invalidation failed''), d')
         | (None, d') \<Rightarrow> ((200, CacheInvalidated), d')))"

section \<open>Facts\<close>

lemma searchLimit_bounds:
  "searchLimit h s = Some l \<Longrightarrow> s \<noteq> [] \<Longrightarrow> 1 \<le> maxResults h \<Longrightarrow> 1 \<le> l \<and> l \<le> maxResults h"
  by (auto simp: searchLimit_def split: option.splits if_splits)

text \<open>A cache that never changes the hits or the ranking of a search, whatever its state.\<close>

definition transparent :: "engine \<Rightarrow> ('c, exec_error) cache_lookup option \<Rightarrow> bool" where
  "transparent e lookup \<longleftrightarrow> (\<forall>op. lookup = Some op \<longrightarrow>
     (\<forall>q l c. \<exists>r hit c' r0. op q l (Execute e (Parse q) l) c = (Inr (r, hit), c') \<and>
        Execute e (Parse q) l = Inr r0 \<and> TotalHits r = TotalHits r0 \<and> Results r = Results r0))"

lemma lookup_result:
  assumes "wf_engine e" and "\<forall>t \<in> set (planTerms (Parse q)). int (length (postingsOf e t)) < maxInt"
    and "transparent e lookup" and "0 < limit" and M_def: "M = matchSet (\<lambda>t. DocID ` set (postingsOf e t)) (Parse q)"
  shows "\<exists>r hit c'. (case lookup of None \<Rightarrow> (map_sum id (\<lambda>result. (result, False)) (Execute e (Parse q) limit), c)
      | Some op \<Rightarrow> op q limit (Execute e (Parse q) limit) c) = (Inr (r, hit), c') \<and>
    TotalHits r = int (card M) \<and> sdDocID ` set (Results r) \<subseteq> M \<and> int (length (Results r)) = min limit (int (card M))"
proof -
  obtain r0 where r0: "Execute e (Parse q) limit = Inr r0" "TotalHits r0 = int (card M)" "sdDocID ` set (Results r0) \<subseteq> M"
      "int (length (Results r0)) = min limit (int (card M))"
    using Execute_spec [OF assms(1,2), of limit "[]"] assms(4) unfolding M_def by (auto simp only: if_True)
  show ?thesis
  proof (cases lookup)
    case None
    then show ?thesis using r0 by auto
  next
    case (Some op)
    with assms(3) obtain r hit c' where "op q limit (Execute e (Parse q) limit) c = (Inr (r, hit), c')"
        "TotalHits r = TotalHits r0" "Results r = Results r0"
      unfolding transparent_def using r0(1) by (metis Inr_inject)
    then show ?thesis using Some r0 by auto
  qed
qed

section \<open>Properties\<close>


definition sampleRequest :: "string \<Rightarrow> string \<Rightarrow> request" where
  "sampleRequest q l = \<lparr>reqMethod = ''GET'', urlPath = ''/api/v1/search'', headerGet = (\<lambda>_. []),
     queryGet = (\<lambda>k. if k = ''q'' then q else if k = ''limit'' then l else []), reqContent = []\<rparr>"


end
