(* ===== verification/Metric_Registry.thy ===== *)
theory Metric_Registry
  imports Search_Handler Shard_Router
begin

text \<open>
  \<open>pkg/metrics\<close>: the collectors the platform declares and registers, and what the searcher records in them. The Prometheus
  client is a parameter. Of the registry only registration is used (locale \<open>prom_registry\<close>: a name is registered once); what the code records is
  the sequence of operations on collectors and label values, which is what a scrape sums up. A number of
  label values that differs from the declared labels is a panic.
\<close>

section \<open>Collectors\<close>

datatype metric_type = MCounter | MGauge | MHistogram "real list"

record collector_desc =
  mdName :: string
  mdHelp :: string
  mdType :: metric_type
  mdLabels :: "string list"

record PlatformMetrics =
  HTTPRequestsTotal :: collector_desc
  HTTPRequestDuration :: collector_desc
  HTTPRequestsInFlight :: collector_desc
  SearchQueriesTotal :: collector_desc
  SearchLatency :: collector_desc
  SearchResultsCount :: collector_desc
  CacheHitsTotal :: collector_desc
  CacheMissesTotal :: collector_desc
  DocsIndexedTotal :: collector_desc
  IndexFlushesTotal :: collector_desc
  ShardDocCount :: collector_desc
  ActiveShards :: collector_desc
  CircuitBreakerState :: collector_desc

definition platformMetrics :: PlatformMetrics where
  "platformMetrics = \<lparr>
     HTTPRequestsTotal = \<lparr>mdName = ''http_requests_total'', mdHelp = ''Total number of HTTP requests by method, path, and status.'',
       mdType = MCounter, mdLabels = [''method'', ''path'', ''status'']\<rparr>,
     HTTPRequestDuration = \<lparr>mdName = ''http_request_duration_seconds'', mdHelp = ''HTTP request latency in seconds.'',
       mdType = MHistogram [0.001, 0.005, 0.01, 0.025, 0.05, 0.1, 0.25, 0.5, 1, 2.5, 5], mdLabels = [''method'', ''path'']\<rparr>,
     HTTPRequestsInFlight = \<lparr>mdName = ''http_requests_in_flight'', mdHelp = ''Number of HTTP requests currently being processed.'',
       mdType = MGauge, mdLabels = []\<rparr>,
     SearchQueriesTotal = \<lparr>mdName = ''search_queries_total'',
       mdHelp = ''Total search queries by result type (hit, miss, zero_result, error).'', mdType = MCounter, mdLabels = [''result_type'']\<rparr>,
     SearchLatency = \<lparr>mdName = ''search_latency_seconds'', mdHelp = ''Search query latency in seconds.'',
       mdType = MHistogram [0.001, 0.005, 0.01, 0.025, 0.05, 0.1, 0.25, 0.5, 1], mdLabels = [''cache_status'']\<rparr>,
     SearchResultsCount = \<lparr>mdName = ''search_results_count'', mdHelp = ''Number of results returned per search query.'',
       mdType = MHistogram [0, 1, 5, 10, 25, 50, 100], mdLabels = []\<rparr>,
     CacheHitsTotal = \<lparr>mdName = ''cache_hits_total'', mdHelp = ''Total number of cache hits.'', mdType = MCounter, mdLabels = []\<rparr>,
     CacheMissesTotal = \<lparr>mdName = ''cache_misses_total'', mdHelp = ''Total number of cache misses.'', mdType = MCounter, mdLabels = []\<rparr>,
     DocsIndexedTotal = \<lparr>mdName = ''docs_indexed_total'', mdHelp = ''Total documents indexed.'', mdType = MCounter, mdLabels = []\<rparr>,
     IndexFlushesTotal = \<lparr>mdName = ''index_flushes_total'', mdHelp = ''Total index flush operations by status.'',
       mdType = MCounter, mdLabels = [''status'']\<rparr>,
     ShardDocCount = \<lparr>mdName = ''shard_document_count'', mdHelp = ''Number of documents per shard.'', mdType = MGauge, mdLabels = [''shard_id'']\<rparr>,
     ActiveShards = \<lparr>mdName = ''active_shards'', mdHelp = ''Number of active index shards.'', mdType = MGauge, mdLabels = []\<rparr>,
     CircuitBreakerState = \<lparr>mdName = ''circuit_breaker_state'', mdHelp = ''Circuit breaker state (0=closed, 1=open, 2=half-open).'',
       mdType = MGauge, mdLabels = [''name'']\<rparr>\<rparr>"

definition registrationOrder :: "PlatformMetrics \<Rightarrow> collector_desc list" where
  "registrationOrder m =
     [HTTPRequestsTotal m, HTTPRequestDuration m, HTTPRequestsInFlight m, SearchQueriesTotal m, SearchLatency m, SearchResultsCount m,
      CacheHitsTotal m, CacheMissesTotal m, DocsIndexedTotal m, IndexFlushesTotal m, ShardDocCount m, ActiveShards m, CircuitBreakerState m]"

text \<open>\<open>MustRegister\<close> panics at the first collector that \<open>register\<close> refuses.\<close>

fun MustRegister :: "('g \<Rightarrow> collector_desc \<Rightarrow> 'g option) \<Rightarrow> collector_desc list \<Rightarrow> 'g \<Rightarrow> 'g option" where
  "MustRegister register [] g = Some g"
| "MustRegister register (d # ds) g = (case register g d of None \<Rightarrow> None | Some g' \<Rightarrow> MustRegister register ds g')"

definition metricsNew :: "('g \<Rightarrow> collector_desc \<Rightarrow> 'g option) \<Rightarrow> 'g \<Rightarrow> (PlatformMetrics \<times> 'g) option" where
  "metricsNew register g =
     (let m = platformMetrics
      in case MustRegister register (registrationOrder m) g of None \<Rightarrow> None | Some g' \<Rightarrow> Some (m, g'))"

text \<open>The server for scraping.\<close>

datatype scrape_page = ScrapeHandler | IndexPage

definition metricsMux :: "string \<Rightarrow> scrape_page" where
  "metricsMux path = (if path = ''/metrics'' then ScrapeHandler else IndexPage)"

section \<open>Recording\<close>

datatype metric_op = MInc | MDec | MSet real | MObserve real

type_synonym metric_log = "(string \<times> string list \<times> metric_op) list"

definition emit :: "collector_desc \<Rightarrow> string list \<Rightarrow> metric_op \<Rightarrow> metric_log \<Rightarrow> metric_log option" where
  "emit d lvs op ops = (if length lvs = length (mdLabels d) then Some (ops @ [(mdName d, lvs, op)]) else None)"

definition recordSearchMetrics ::
  "PlatformMetrics option \<Rightarrow> string \<Rightarrow> bool \<Rightarrow> int \<Rightarrow> real \<Rightarrow> metric_log \<Rightarrow> metric_log option" where
  "recordSearchMetrics metrics resultType cacheHit resultCount duration ops =
     (case metrics of
        None \<Rightarrow> Some ops
      | Some m \<Rightarrow>
          Option.bind (emit (SearchQueriesTotal m) [resultType] MInc ops) (\<lambda>ops.
          let cacheStatus = (if cacheHit then ''hit'' else ''miss'') in
          Option.bind (emit (if cacheHit then CacheHitsTotal m else CacheMissesTotal m) [] MInc ops) (\<lambda>ops.
          Option.bind (emit (SearchLatency m) [cacheStatus] (MObserve duration) ops) (\<lambda>ops.
          emit (SearchResultsCount m) [] (MObserve (real_of_int resultCount)) ops))))"

text \<open>What \<open>Search\<close> records for the outcome of a search: nothing for a rejected or an empty query.\<close>

definition searchRecord :: "PlatformMetrics option \<Rightarrow> real \<Rightarrow> int \<times> search_reply \<Rightarrow> metric_log \<Rightarrow> metric_log option" where
  "searchRecord metrics duration out ops =
     (case out of
        (status, SearchError msg) \<Rightarrow>
          (if status = 500 then recordSearchMetrics metrics ''error'' False 0 duration ops else Some ops)
      | (status, EmptySearch q) \<Rightarrow> Some ops
      | (status, SearchReply q totalHits docs ms cacheHit) \<Rightarrow>
          (let resultType = (if totalHits = 0 then ''zero_result'' else ''hit'')
           in recordSearchMetrics metrics resultType cacheHit (int (length docs)) duration ops))"

text \<open>
  \<open>Search\<close> with its metrics, which are recorded before the event is handed to the collector.
\<close>

definition meteredSearch ::
  "PlatformMetrics option \<Rightarrow> search_config \<Rightarrow> (QueryPlan \<Rightarrow> int \<Rightarrow> 'e + SearchResult) \<Rightarrow> ('c, 'e) cache_lookup option \<Rightarrow> real \<Rightarrow>
   int \<Rightarrow> int \<Rightarrow> string \<Rightarrow> request \<Rightarrow> 'c \<times> SearchEvent collector option \<times> metric_log \<Rightarrow>
   ((int \<times> search_reply) \<times> 'c \<times> SearchEvent collector option \<times> metric_log) option" where
  "meteredSearch metrics h execute lookup duration latencyMs now requestID r s =
     (case s of
        (c, col, ops) \<Rightarrow>
          Option.bind (handleSearch h execute lookup latencyMs now requestID r c None) (\<lambda>(out, _).
          Option.bind (searchRecord metrics duration out ops) (\<lambda>ops'.
          map_option (\<lambda>(out, c', col'). (out, c', col', ops')) (handleSearch h execute lookup latencyMs now requestID r c col))))"

text \<open>What the searcher's main sets when it starts.\<close>

fun shardGauges :: "PlatformMetrics \<Rightarrow> (int \<times> engine) list \<Rightarrow> metric_log \<Rightarrow> metric_log option" where
  "shardGauges m [] ops = Some ops"
| "shardGauges m ((shardID, e) # es) ops =
     Option.bind (emit (ShardDocCount m) [show_int shardID] (MSet (real_of_int (GetTotalDocs e))) ops) (shardGauges m es)"

definition startMetrics :: "PlatformMetrics \<Rightarrow> int \<Rightarrow> (int \<times> engine) list \<Rightarrow> metric_log \<Rightarrow> metric_log option" where
  "startMetrics m shards engines ops =
     Option.bind (emit (ActiveShards m) [] (MSet (real_of_int shards)) ops) (shardGauges m engines)"

section \<open>The registry\<close>

text \<open>Names and labels as the client library admits them; the bounds of a histogram increase.\<close>

definition validName :: "string \<Rightarrow> bool" where
  "validName s \<longleftrightarrow> s \<noteq> [] \<and> \<not> IsDigit (hd s) \<and> list_all (\<lambda>c. IsLetter c \<or> IsDigit c \<or> c = CHR ''_'') s"

definition validDesc :: "collector_desc \<Rightarrow> bool" where
  "validDesc d \<longleftrightarrow> validName (mdName d) \<and> list_all (\<lambda>l. validName l \<and> \<not> HasPrefix l ''__'') (mdLabels d) \<and> distinct (mdLabels d) \<and>
     (case mdType d of MHistogram bs \<Rightarrow> sorted_wrt (<) bs | _ \<Rightarrow> True)"

locale prom_registry =
  fixes register :: "'g \<Rightarrow> collector_desc \<Rightarrow> 'g option" and names :: "'g \<Rightarrow> string set"
  assumes register_fresh: "validDesc d \<Longrightarrow> mdName d \<notin> names g \<Longrightarrow> register g d \<noteq> None"
    and register_again: "mdName d \<in> names g \<Longrightarrow> register g d = None"
    and register_names: "register g d = Some g' \<Longrightarrow> names g' = insert (mdName d) (names g)"
begin

lemma MustRegister_iff:
  "list_all validDesc ds \<Longrightarrow> distinct (map mdName ds) \<Longrightarrow>
    (MustRegister register ds g \<noteq> None \<longleftrightarrow> mdName ` set ds \<inter> names g = {}) \<and>
    (\<forall>g'. MustRegister register ds g = Some g' \<longrightarrow> names g' = mdName ` set ds \<union> names g)"
proof (induction ds arbitrary: g)
  case (Cons d ds)
  show ?case
  proof (cases "register g d")
    case None
    then show ?thesis using register_fresh [of d g] Cons.prems by auto
  next
    case (Some g')
    note n = register_names [OF Some]
    have "mdName d \<notin> names g" using register_again [of d g] Some by auto
    then show ?thesis using Some Cons.IH [of g'] Cons.prems n by auto
  qed
qed simp

end

text \<open>A registry as the list of its collectors.\<close>

definition listRegister :: "collector_desc list \<Rightarrow> collector_desc \<Rightarrow> collector_desc list option" where
  "listRegister g d = (if mdName d \<in> mdName ` set g \<or> \<not> validDesc d then None else Some (d # g))"

interpretation listRegistry: prom_registry listRegister "\<lambda>g. mdName ` set g"
  by unfold_locales (auto simp: listRegister_def split: if_splits)

lemma validName_metrics:
  "list_all (\<lambda>d. validName (mdName d) \<and> list_all (\<lambda>l. validName l \<and> \<not> HasPrefix l ''__'') (mdLabels d)) (registrationOrder platformMetrics)"
  by code_simp

lemma platformMetrics_valid:
  "list_all validDesc (registrationOrder platformMetrics)" "distinct (map mdName (registrationOrder platformMetrics))"
proof -
  have "list_all (\<lambda>d. distinct (mdLabels d) \<and> (case mdType d of MHistogram bs \<Rightarrow> sorted_wrt (<) bs | _ \<Rightarrow> True))
      (registrationOrder platformMetrics)" by (simp add: registrationOrder_def platformMetrics_def)
  with validName_metrics show "list_all validDesc (registrationOrder platformMetrics)" by (simp add: list_all_iff validDesc_def)
  show "distinct (map mdName (registrationOrder platformMetrics))" by code_simp
qed

text \<open>\<open>New\<close> can be called once per registry: a second call panics.\<close>

theorem metricsNew_once:
  assumes "prom_registry register names"
  shows "metricsNew register g = None \<longleftrightarrow> mdName ` set (registrationOrder platformMetrics) \<inter> names g \<noteq> {}"
    and "metricsNew register g = Some (m, g') \<Longrightarrow> m = platformMetrics \<and> metricsNew register g' = None"
proof -
  note R = prom_registry.MustRegister_iff [OF assms platformMetrics_valid]
  show N: "metricsNew register g = None \<longleftrightarrow> mdName ` set (registrationOrder platformMetrics) \<inter> names g \<noteq> {}" for g
    using R [of g] by (auto simp: metricsNew_def Let_def split: option.splits)
  assume n: "metricsNew register g = Some (m, g')"
  then have "names g' = mdName ` set (registrationOrder platformMetrics) \<union> names g" and m: "m = platformMetrics"
    using R [of g] by (auto simp: metricsNew_def Let_def split: option.splits)
  moreover have "registrationOrder platformMetrics \<noteq> []" by (simp add: registrationOrder_def)
  ultimately show "m = platformMetrics \<and> metricsNew register g' = None" unfolding N by auto
qed

text \<open>
  At start every shard is reported to hold no document, whatever its segments hold, and nothing updates the gauge later: an engine that is opened on
  existing segments has lost its document count.
\<close>

lemma shardGauges_entries:
  "shardGauges platformMetrics es ops =
     Some (ops @ map (\<lambda>(i, e). (''shard_document_count'', [show_int i], MSet (real_of_int (GetTotalDocs e)))) es)"
  by (induction platformMetrics es ops rule: shardGauges.induct) (simp_all add: emit_def platformMetrics_def)

lemma startMetrics_zero:
  assumes "NewRouter sys mx n disks = (Inr r, disks')" and "0 \<le> n"
  shows "\<exists>gs. startMetrics platformMetrics n (GetAllEngines r) [] = Some ((''active_shards'', [], MSet (real_of_int n)) # gs) \<and>
    gs = map (\<lambda>(i, e). (''shard_document_count'', [show_int i], MSet 0)) (GetAllEngines r)"
proof -
  note N = NewRouter_ok [OF assms]
  have "GetTotalDocs e = 0" if "(i, e) \<in> set (rtEngines r)" for i e
  proof -
    have "i \<in> {0..<n}" unfolding N(4) [symmetric] using that by force
    then have "0 \<le> i \<and> i < n" "shardEngine r i = Some e" using that N(3) by (auto simp: shardEngine_def)
    with N(5) have "NewEngine (envMkdir (sys i)) (envReadDir (sys i)) (envOpen (sys i)) mx (disks i) = Inr e" by fastforce
    then show ?thesis
      by (auto simp: NewEngine_def loadExistingSegments_def GetTotalDocs_def Let_def split: if_splits option.splits sum.splits engine_error.splits readdir_fault.splits)
  qed
  then show ?thesis
    by (auto simp: startMetrics_def emit_def shardGauges_entries GetAllEngines_def) (auto simp: platformMetrics_def)
qed

section \<open>Runs\<close>

text \<open>A run of searches: each with its executor, measured times and request ID.\<close>

type_synonym 'e search_call = "(QueryPlan \<Rightarrow> int \<Rightarrow> 'e + SearchResult) \<times> real \<times> int \<times> int \<times> string \<times> request"

fun searchRun ::
  "PlatformMetrics option \<Rightarrow> search_config \<Rightarrow> ('c, 'e) cache_lookup option \<Rightarrow> 'e search_call list \<Rightarrow>
   'c \<times> SearchEvent collector option \<times> metric_log \<Rightarrow>
   ((int \<times> search_reply) list \<times> 'c \<times> SearchEvent collector option \<times> metric_log) option" where
  "searchRun metrics h lookup [] s = Some ([], s)"
| "searchRun metrics h lookup ((execute, duration, latencyMs, now, requestID, r) # calls) s =
     Option.bind (meteredSearch metrics h execute lookup duration latencyMs now requestID r s) (\<lambda>(out, s').
     map_option (\<lambda>(outs, s''). (out # outs, s'')) (searchRun metrics h lookup calls s'))"

text \<open>The operations of one outcome.\<close>

definition resultEntries :: "string \<Rightarrow> bool \<Rightarrow> int \<Rightarrow> real \<Rightarrow> metric_log" where
  "resultEntries resultType cacheHit n duration =
     [(''search_queries_total'', [resultType], MInc), (if cacheHit then ''cache_hits_total'' else ''cache_misses_total'', [], MInc),
      (''search_latency_seconds'', [if cacheHit then ''hit'' else ''miss''], MObserve duration),
      (''search_results_count'', [], MObserve (real_of_int n))]"

definition outEntries :: "real \<Rightarrow> int \<times> search_reply \<Rightarrow> metric_log" where
  "outEntries duration out =
     (case out of
        (status, SearchError msg) \<Rightarrow> if status = 500 then resultEntries ''error'' False 0 duration else []
      | (status, EmptySearch q) \<Rightarrow> []
      | (status, SearchReply q totalHits docs ms cacheHit) \<Rightarrow>
          resultEntries (if totalHits = 0 then ''zero_result'' else ''hit'') cacheHit (int (length docs)) duration)"

lemma recordSearchMetrics_entries:
  "recordSearchMetrics (Some platformMetrics) rt hit n d ops = Some (ops @ resultEntries rt hit n d)"
  by (simp add: recordSearchMetrics_def emit_def platformMetrics_def resultEntries_def)

lemma searchRecord_entries: "searchRecord (Some platformMetrics) d out ops = Some (ops @ outEntries d out)"
  by (simp add: searchRecord_def outEntries_def recordSearchMetrics_entries Let_def split: prod.splits search_reply.splits)

lemma handleSearch_open:
  assumes "\<forall>cl. col = Some cl \<longrightarrow> \<not> chClosed cl"
  shows "\<exists>out c' col'. handleSearch h execute lookup ms now rid r c None = Some (out, c', None) \<and>
    handleSearch h execute lookup ms now rid r c col = Some (out, c', col') \<and> (\<forall>cl. col' = Some cl \<longrightarrow> \<not> chClosed cl)"
proof -
  let ?q = "queryGet r ''q''" and ?l = "searchLimit h (queryGet r ''limit'')"
  define L where "L limit = (case lookup of None \<Rightarrow> (map_sum id (\<lambda>result. (result, False)) (execute (Parse ?q) limit), c)
      | Some op \<Rightarrow> op ?q limit (execute (Parse ?q) limit) c)" for limit
  consider (noquery) "?q = []" | (nolimit) "?q \<noteq> []" "?l = None"
    | (noterms) limit where "?q \<noteq> []" "?l = Some limit" "planTerms (Parse ?q) = []"
    | (failed) limit err c' where "?q \<noteq> []" "?l = Some limit" "planTerms (Parse ?q) \<noteq> []" "L limit = (Inl err, c')"
    | (found) limit res hit c' where "?q \<noteq> []" "?l = Some limit" "planTerms (Parse ?q) \<noteq> []" "L limit = (Inr (res, hit), c')"
    by (metis old.sum.exhaust option.exhaust surj_pair)
  then show ?thesis
  proof cases
    case found
    show ?thesis
    proof (cases col)
      case None
      then show ?thesis using found by (simp add: handleSearch_def Let_def L_def)
    next
      case (Some cl)
      obtain cl' where t: "Track cl (searchEvent ?q (Parse ?q) res hit ms now rid) = Some cl'" "\<not> chClosed cl'"
        using assms Some by (cases "length (eventCh cl) < chCap cl") (auto simp: Track_def)
      then show ?thesis using found Some by (simp add: handleSearch_def Let_def L_def)
    qed
  qed (use assms in \<open>simp_all add: handleSearch_def Let_def L_def\<close>)
qed

lemma searchRun_entries:
  assumes "\<forall>cl. col = Some cl \<longrightarrow> \<not> chClosed cl"
  shows "\<exists>outs c' col' ops' ds. searchRun (Some platformMetrics) h lookup calls (c, col, ops) = Some (outs, c', col', ops @ ops') \<and>
    length outs = length calls \<and> length ds = length outs \<and> ops' = concat (map2 outEntries ds outs)"
  using assms
proof (induction calls arbitrary: c col ops)
  case (Cons call calls)
  obtain execute d ms now rid r where call: "call = (execute, d, ms, now, rid, r)" by (metis prod_cases6)
  obtain out c1 col1 where o: "handleSearch h execute lookup ms now rid r c None = Some (out, c1, None)"
    "handleSearch h execute lookup ms now rid r c col = Some (out, c1, col1)" "\<forall>cl. col1 = Some cl \<longrightarrow> \<not> chClosed cl"
    using handleSearch_open [OF Cons.prems, of h execute lookup ms now rid r c] by (elim exE conjE) simp
  obtain outs c' col' ops' ds where run: "searchRun (Some platformMetrics) h lookup calls (c1, col1, ops @ outEntries d out) =
      Some (outs, c', col', (ops @ outEntries d out) @ ops')" "length outs = length calls" "length ds = length outs"
      "ops' = concat (map2 outEntries ds outs)"
    using Cons.IH [OF o(3), of c1 "ops @ outEntries d out"] by (elim exE conjE) simp
  then show ?case
    by (intro exI [of _ "out # outs"] exI [of _ c'] exI [of _ col'] exI [of _ "outEntries d out @ ops'"] exI [of _ "d # ds"])
      (simp add: call meteredSearch_def o searchRecord_entries)
qed simp

definition incs :: "string \<Rightarrow> string list \<Rightarrow> metric_log \<Rightarrow> nat" where
  "incs name lvs ops = length (filter (\<lambda>x. x = (name, lvs, MInc)) ops)"

definition outFailed :: "int \<times> search_reply \<Rightarrow> bool" where
  "outFailed out = (case out of (status, SearchError _) \<Rightarrow> status = 500 | _ \<Rightarrow> False)"

definition outFound :: "(int \<Rightarrow> bool \<Rightarrow> bool) \<Rightarrow> int \<times> search_reply \<Rightarrow> bool" where
  "outFound P out = (case snd out of SearchReply _ totalHits _ _ cacheHit \<Rightarrow> P totalHits cacheHit | _ \<Rightarrow> False)"

lemma incs_concat:
  assumes "length ds = length outs" and "\<And>d out. incs name lvs (outEntries d out) = (if P out then 1 else 0)"
  shows "incs name lvs (concat (map2 outEntries ds outs)) = length (filter P outs)"
  using assms(1)
proof (induction ds outs rule: list_induct2)
  case (Cons d ds out outs)
  then show ?case using assms(2) [of d out] by (simp add: incs_def)
qed (simp add: incs_def)

lemma incs_resultEntries:
  "incs ''search_queries_total'' [t] (resultEntries rt hit n d) = (if rt = t then 1 else 0)"
  "incs ''cache_hits_total'' [] (resultEntries rt hit n d) = (if hit then 1 else 0)"
  "incs ''cache_misses_total'' [] (resultEntries rt hit n d) = (if hit then 0 else 1)"
  by (cases hit; simp add: incs_def resultEntries_def)+

lemma incs_Nil [simp]: "incs name lvs [] = 0"
  by (simp add: incs_def)

lemma incs_outEntries:
  "incs ''search_queries_total'' [''error''] (outEntries d out) = (if outFailed out then 1 else 0)"
  "incs ''search_queries_total'' [''zero_result''] (outEntries d out) = (if outFound (\<lambda>n hit. n = 0) out then 1 else 0)"
  "incs ''search_queries_total'' [''hit''] (outEntries d out) = (if outFound (\<lambda>n hit. n \<noteq> 0) out then 1 else 0)"
  "incs ''search_queries_total'' [''miss''] (outEntries d out) = (if False then 1 else 0)"
  "incs ''cache_hits_total'' [] (outEntries d out) = (if outFound (\<lambda>n hit. hit) out then 1 else 0)"
  "incs ''cache_misses_total'' [] (outEntries d out) = (if outFailed out \<or> outFound (\<lambda>n hit. \<not> hit) out then 1 else 0)"
  by (cases out; cases "snd out"; simp add: outEntries_def outFailed_def outFound_def incs_resultEntries)+

section \<open>Properties\<close>

text \<open>
  C10. The metrics of the search endpoint, over any run of searches with any cache and executors: recording never panics, so the run succeeds as
  long as the collector is open; \<open>search_queries_total\<close> counts the failed searches, those without and those with
  results under its three result types (and none as a miss, although its help text names that type); every counted search counts as one cache hit
  or one cache miss, failed ones as misses; rejected and empty queries are not counted.
\<close>

theorem search_metrics_correct:
  assumes "metricsNew register g = Some (m, g')" and "\<forall>cl. col = Some cl \<longrightarrow> \<not> chClosed cl"
  shows "\<exists>outs c' col' ops. searchRun (Some m) h lookup calls (c, col, []) = Some (outs, c', col', ops) \<and> length outs = length calls \<and>
    incs ''search_queries_total'' [''error''] ops = length (filter outFailed outs) \<and>
    incs ''search_queries_total'' [''zero_result''] ops = length (filter (outFound (\<lambda>n hit. n = 0)) outs) \<and>
    incs ''search_queries_total'' [''hit''] ops = length (filter (outFound (\<lambda>n hit. n \<noteq> 0)) outs) \<and>
    incs ''search_queries_total'' [''miss''] ops = 0 \<and>
    incs ''cache_hits_total'' [] ops = length (filter (outFound (\<lambda>n hit. hit)) outs) \<and>
    incs ''cache_hits_total'' [] ops + incs ''cache_misses_total'' [] ops =
      length (filter (\<lambda>out. outFailed out \<or> outFound (\<lambda>n hit. True) out) outs)"
proof -
  have m: "m = platformMetrics" using assms(1) by (auto simp: metricsNew_def Let_def split: option.splits)
  obtain outs c' col' ops ds where run: "searchRun (Some m) h lookup calls (c, col, []) = Some (outs, c', col', ops)"
    and l: "length outs = length calls" "length ds = length outs" and ops: "ops = concat (map2 outEntries ds outs)"
    using searchRun_entries [OF assms(2), of h lookup calls c "[]"] unfolding m by auto
  note I = incs_concat [OF l(2), folded ops]
  have "length (filter (outFound (\<lambda>n hit. hit)) outs) + length (filter (\<lambda>out. outFailed out \<or> outFound (\<lambda>n hit. \<not> hit) out) outs) =
      length (filter (\<lambda>out. outFailed out \<or> outFound (\<lambda>n hit. True) out) outs)"
    by (induction outs) (auto simp: outFailed_def outFound_def split: prod.splits search_reply.splits)
  with run l show ?thesis
    by (intro exI [of _ outs] exI [of _ c'] exI [of _ col'] exI [of _ ops])
      (simp add: I [OF incs_outEntries(1)] I [OF incs_outEntries(2)] I [OF incs_outEntries(3)] I [OF incs_outEntries(4)]
        I [OF incs_outEntries(5)] I [OF incs_outEntries(6)])
qed

theorem search_metrics_correct_witness:
  "\<exists>outs c' col' ops. searchRun (Some platformMetrics) \<lparr>defaultLimit = 10, maxResults = 100\<rparr> (None :: (unit, unit) cache_lookup option)
      [(\<lambda>_ _. Inl (), 1, 1, 0, ''r'', sampleRequest ''go'' []), (\<lambda>_ _. Inl (), 1, 1, 0, ''r'', sampleRequest [] [])] ((), None, []) =
      Some (outs, c', col', ops) \<and>
    incs ''search_queries_total'' [''error''] ops = 1 \<and> incs ''cache_misses_total'' [] ops + incs ''cache_hits_total'' [] ops = 1"
proof -
  have "metricsNew listRegister [] \<noteq> None"
    using metricsNew_once(1) [OF listRegistry.prom_registry_axioms, of "[]"] by simp
  then obtain g' where n: "metricsNew listRegister [] = Some (platformMetrics, g')"
    using metricsNew_once(2) [OF listRegistry.prom_registry_axioms, of "[]"] by fastforce
  let ?calls = "[(\<lambda>_ _. Inl (), 1, 1, 0, ''r'', sampleRequest ''go'' []), (\<lambda>_ _. Inl (), 1, 1, 0, ''r'', sampleRequest [] [])] :: unit search_call list"
  let ?h = "\<lparr>defaultLimit = 10, maxResults = 100\<rparr>"
  have p: "planTerms (Parse ''go'') = [''go'']" by code_simp
  obtain c' col' ops where run: "searchRun (Some platformMetrics) ?h (None :: (unit, unit) cache_lookup option) ?calls ((), None, []) =
      Some ([(500, SearchError ''search failed''), (400, SearchError ''query parameter 'q' is required'')], c', col', ops)"
    by (simp add: meteredSearch_def handleSearch_def Let_def sampleRequest_def searchLimit_def p searchRecord_entries)
  from search_metrics_correct [OF n, where col = None and h = ?h and lookup = "None :: (unit, unit) cache_lookup option" and calls = ?calls and c = "()"]
  show ?thesis unfolding run by (auto simp: outFailed_def outFound_def)
qed

end
