(* ===== verification/Analytics_Store.thy ===== *)
theory Analytics_Store
  imports Aggregator
begin

text \<open>
  \<open>internal/analytics/aggregator/store.go\<close>: snapshots of the aggregated statistics in PostgreSQL, and the analytics endpoint
  of \<open>internal/analytics/handler.go\<close>. The table is a parameter: \<open>insertRow\<close> is the INSERT, \<open>selectRows\<close>
  the SELECT ordered by \<open>captured_at\<close> descending with a limit; the locale \<open>snapshots_db\<close> has their laws.
\<close>

datatype store_error = MarshalingStats | SavingSnapshot string | QueryingSnapshot string | UnmarshalingSnapshot
| ListingSnapshots string | ScanningSnapshot

definition SaveSnapshot ::
  "(AggregatedStats \<Rightarrow> 'b option) \<Rightarrow> ('d \<Rightarrow> 'b \<Rightarrow> int \<Rightarrow> string option \<times> 'd) \<Rightarrow> int \<Rightarrow> AggregatedStats \<Rightarrow> 'd \<Rightarrow>
   store_error option \<times> 'd" where
  "SaveSnapshot marshal insertRow now stats d =
     (case marshal stats of
        None \<Rightarrow> (Some MarshalingStats, d)
      | Some bs \<Rightarrow>
          (case insertRow d bs now of
             (Some err, d') \<Rightarrow> (Some (SavingSnapshot err), d')
           | (None, d') \<Rightarrow> (None, d')))"

definition LatestSnapshot ::
  "('b \<Rightarrow> AggregatedStats option) \<Rightarrow> ('d \<Rightarrow> int \<Rightarrow> string + 'b list) \<Rightarrow> 'd \<Rightarrow> store_error + AggregatedStats option" where
  "LatestSnapshot unmarshal selectRows d =
     (case selectRows d 1 of
        Inl err \<Rightarrow> Inl (QueryingSnapshot err)
      | Inr [] \<Rightarrow> Inr None
      | Inr (bs # _) \<Rightarrow> (case unmarshal bs of None \<Rightarrow> Inl UnmarshalingSnapshot | Some stats \<Rightarrow> Inr (Some stats)))"

text \<open>In the listing \<open>None\<close> is a row that cannot be scanned, and \<open>rowsErr\<close> is \<open>rows.Err()\<close>.\<close>

fun snapshotLoop ::
  "('b \<Rightarrow> AggregatedStats option) \<Rightarrow> AggregatedStats list \<Rightarrow> 'b option list \<Rightarrow> store_error + AggregatedStats list" where
  "snapshotLoop unmarshal snapshots [] = Inr snapshots"
| "snapshotLoop unmarshal snapshots (None # rows) = Inl ScanningSnapshot"
| "snapshotLoop unmarshal snapshots (Some bs # rows) =
     (case unmarshal bs of
        None \<Rightarrow> snapshotLoop unmarshal snapshots rows
      | Some stats \<Rightarrow> snapshotLoop unmarshal (snapshots @ [stats]) rows)"

text \<open>The snapshots are returned together with \<open>rows.Err()\<close>.\<close>

definition ListSnapshots ::
  "('b \<Rightarrow> AggregatedStats option) \<Rightarrow> ('d \<Rightarrow> int \<Rightarrow> string + 'b option list \<times> string option) \<Rightarrow> int \<Rightarrow> 'd \<Rightarrow>
   store_error + AggregatedStats list \<times> string option" where
  "ListSnapshots unmarshal queryRows limit d =
     (case queryRows d limit of
        Inl err \<Rightarrow> Inl (ListingSnapshots err)
      | Inr (rows, rowsErr) \<Rightarrow>
          (case snapshotLoop unmarshal [] rows of
             Inl err \<Rightarrow> Inl err
           | Inr snapshots \<Rightarrow> Inr (snapshots, rowsErr)))"

text \<open>
  The goroutine of \<open>StartPeriodicSave\<close>: the ticks and the end of the context, each with the time and the
  statistics at that moment. A failed save is only logged.
\<close>

datatype save_event = Tick int AggregatedStats | Shutdown int AggregatedStats

fun periodicSave ::
  "(AggregatedStats \<Rightarrow> 'b option) \<Rightarrow> ('d \<Rightarrow> 'b \<Rightarrow> int \<Rightarrow> string option \<times> 'd) \<Rightarrow> save_event list \<Rightarrow> 'd \<Rightarrow> bool \<times> 'd" where
  "periodicSave marshal insertRow [] d = (False, d)"
| "periodicSave marshal insertRow (Tick now stats # evs) d =
     periodicSave marshal insertRow evs (snd (SaveSnapshot marshal insertRow now stats d))"
| "periodicSave marshal insertRow (Shutdown now stats # evs) d =
     (True, snd (SaveSnapshot marshal insertRow now stats d))"

definition statsHandler :: "('s \<Rightarrow> AggregatedStats) \<Rightarrow> 's \<Rightarrow> int \<times> AggregatedStats" where
  "statsHandler stats agg = (200, stats agg)"

text \<open>The listing skips corrupt rows, and only those.\<close>

lemma snapshotLoop_alt:
  "snapshotLoop unmarshal acc rows =
     (if None \<in> set rows then Inl ScanningSnapshot else Inr (acc @ List.map_filter (\<lambda>bs. unmarshal (the bs)) rows))"
  by (induction unmarshal acc rows rule: snapshotLoop.induct) (auto simp: map_filter_simps split: option.splits)

section \<open>The snapshots table\<close>

locale snapshots_db =
  fixes insertRow :: "'d \<Rightarrow> 'b \<Rightarrow> int \<Rightarrow> string option \<times> 'd"
    and selectRows :: "'d \<Rightarrow> int \<Rightarrow> string + 'b list"
    and rowsOf :: "'d \<Rightarrow> ('b \<times> int) multiset"
  assumes insert_ok: "insertRow d bs now = (None, d') \<Longrightarrow> rowsOf d' = add_mset (bs, now) (rowsOf d)"
    and insert_err: "insertRow d bs now = (Some err, d') \<Longrightarrow> rowsOf d' = rowsOf d"
    and select: "selectRows d n = Inr bss \<Longrightarrow>
      \<exists>rows. mset rows = rowsOf d \<and> sorted_wrt (\<lambda>a b. snd b \<le> snd a) rows \<and> bss = map fst (take (nat n) rows)"
begin

text \<open>A snapshot saved at a time later than all others is the latest one.\<close>

lemma saved_is_latest:
  assumes "\<And>st bs. marshal st = Some bs \<Longrightarrow> unmarshal bs = Some st"
    and "SaveSnapshot marshal insertRow now stats d = (None, d')" and "\<And>bs t. (bs, t) \<in># rowsOf d \<Longrightarrow> t < now"
    and "selectRows d' 1 = Inr rows"
  shows "LatestSnapshot unmarshal selectRows d' = Inr (Some stats)"
proof -
  obtain bs where bs: "marshal stats = Some bs" "insertRow d bs now = (None, d')"
    using assms(2) by (auto simp: SaveSnapshot_def split: option.splits prod.splits)
  obtain rs where rs: "mset rs = add_mset (bs, now) (rowsOf d)" "sorted_wrt (\<lambda>a b. snd b \<le> snd a) rs"
    "rows = map fst (take 1 rs)" using select [OF assms(4)] insert_ok [OF bs(2)] by auto
  from rs(1) have s: "set rs = insert (bs, now) (set_mset (rowsOf d))" by (metis set_mset_add_mset_insert set_mset_mset)
  then obtain x xs where x: "rs = x # xs" by (cases rs) auto
  have "x = (bs, now)"
  proof (rule ccontr)
    assume "x \<noteq> (bs, now)"
    then have "(bs, now) \<in> set xs" "x \<in># rowsOf d" using s x by auto
    then show False using rs(2) assms(3) [of "fst x" "snd x"] x by force
  qed
  then show ?thesis using assms(1,4) bs(1) rs(3) x by (simp add: LatestSnapshot_def)
qed

text \<open>The periodic save ends with the shutdown, and saves the statistics of that moment.\<close>

lemma periodicSave_final:
  assumes "\<And>st bs. marshal st = Some bs \<Longrightarrow> unmarshal bs = Some st"
    and "fst (SaveSnapshot marshal insertRow now stats (snd (periodicSave marshal insertRow ticks d))) = None"
    and "\<forall>ev \<in> set ticks. \<exists>t st. ev = Tick t st \<and> t < now" and "\<And>bs t. (bs, t) \<in># rowsOf d \<Longrightarrow> t < now"
    and "periodicSave marshal insertRow (ticks @ Shutdown now stats # evs) d = (ended, d')"
    and "selectRows d' 1 = Inr rows"
  shows "ended \<and> LatestSnapshot unmarshal selectRows d' = Inr (Some stats)"
  using assms(2-5)
proof (induction ticks arbitrary: d)
  case Nil
  then show ?case
    using saved_is_latest [OF assms(1), where d = d and d' = d' and now = now and stats = stats] assms(6)
    by (cases "SaveSnapshot marshal insertRow now stats d") auto
next
  case (Cons ev ticks)
  then obtain t st where ev: "ev = Tick t st" "t < now" by auto
  let ?d1 = "snd (SaveSnapshot marshal insertRow t st d)"
  have "rowsOf ?d1 = rowsOf d \<or> (\<exists>bs. rowsOf ?d1 = add_mset (bs, t) (rowsOf d))"
    using insert_ok insert_err by (auto simp: SaveSnapshot_def split: option.splits prod.splits)
  then have "\<And>bs t'. (bs, t') \<in># rowsOf ?d1 \<Longrightarrow> t' < now" using Cons.prems(3) ev(2) by fastforce
  then show ?case using Cons.prems ev by (intro Cons.IH [of ?d1]) auto
qed

end

text \<open>The table as a list of rows.\<close>

definition memInsert :: "('b \<times> int) list \<Rightarrow> 'b \<Rightarrow> int \<Rightarrow> string option \<times> ('b \<times> int) list" where
  "memInsert d bs now = (None, (bs, now) # d)"

definition memSelect :: "('b \<times> int) list \<Rightarrow> int \<Rightarrow> string + 'b list" where
  "memSelect d n = Inr (map fst (take (nat n) (sort_key (\<lambda>r. - snd r) d)))"

interpretation snapshotTable: snapshots_db memInsert memSelect mset
proof
  show "\<exists>rows. mset rows = mset d \<and> sorted_wrt (\<lambda>a b. snd b \<le> snd a) rows \<and> bss = map fst (take (nat n) rows)"
    if "memSelect d n = Inr bss" for d :: "('b \<times> int) list" and n bss
  proof (intro exI conjI)
    have "sorted (map (\<lambda>r. - snd r) (sort_key (\<lambda>r. - snd r) d))" by simp
    then show "sorted_wrt (\<lambda>a b. snd b \<le> snd a) (sort_key (\<lambda>r. - snd r) d)" by (simp add: sorted_map)
  qed (use that in \<open>auto simp: memSelect_def\<close>)
qed (auto simp: memInsert_def)

lemma snapshot_roundtrip:
  "\<forall>(bs, t) \<in> set d. t < now \<Longrightarrow>
   LatestSnapshot Some memSelect (snd (SaveSnapshot Some memInsert now stats d)) = Inr (Some stats)"
  by (rule snapshotTable.saved_is_latest [where marshal = Some and d = d]) (auto simp: SaveSnapshot_def memInsert_def memSelect_def)

end
