(* ===== verification/Analytics_Service.thy ===== *)
theory Analytics_Service
  imports Analytics_Store Clients Health
begin

text \<open>
  The analytics pipeline as \<open>cmd/analytics/main.go\<close> and \<open>cmd/searcher/main.go\<close> wire it: a consumer whose callback closes over an
  aggregator, an aggregator that owns the consumer, and the endpoint that serves an aggregator. Aggregators are
  shared through pointers, so they live in a store and closures hold addresses.
\<close>

section \<open>Objects\<close>

record 'r aggregator_obj =
  aoState :: aggregator
  aoConsumer :: "('r, nat) Consumer"

type_synonym 'r store = "'r aggregator_obj list"

text \<open>\<open>NewAggregator\<close> allocates; \<open>HandleEvent(agg)\<close> is the address of \<open>agg\<close>.\<close>

definition allocAggregator :: "real \<Rightarrow> ('r, nat) Consumer \<Rightarrow> 'r store \<Rightarrow> nat \<times> 'r store" where
  "allocAggregator now consumer st = (length st, st @ [\<lparr>aoState = NewAggregator now, aoConsumer = consumer\<rparr>])"

text \<open>The wiring of both mains: the address the endpoint serves, and the store.\<close>

definition wireAnalytics :: "(ReaderConfig \<Rightarrow> 'r) \<Rightarrow> KafkaConfig \<Rightarrow> real \<Rightarrow> real \<Rightarrow> nat \<times> 'r store" where
  "wireAnalytics newReader cfg now1 now2 =
     (let topic = tpAnalyticsEvents (kfTopics cfg);
          consumer = NewConsumer newReader cfg topic None;
          (agg, st) = allocAggregator now1 consumer [];
          consumer = NewConsumer newReader cfg topic (Some agg)
      in allocAggregator now2 consumer st)"

text \<open>
  A call of the callback: it records into the aggregator it closes over and returns no error. The state is \<open>None\<close> once a nil callback
  was called, which kills the process.
\<close>

definition callHandler ::
  "(string \<Rightarrow> SearchEvent option) \<Rightarrow> (string \<Rightarrow> IndexEvent option) \<Rightarrow> nat option \<Rightarrow> string \<Rightarrow> string \<Rightarrow>
   'r store option \<Rightarrow> unit option \<times> 'r store option" where
  "callHandler ds di h key v s =
     (None,
      case s of
        None \<Rightarrow> None
      | Some st \<Rightarrow>
          (case h of
             None \<Rightarrow> None
           | Some a \<Rightarrow> Some (st[a := (st ! a)\<lparr>aoState := HandleEvent ds di (aoState (st ! a)) v\<rparr>])))"

text \<open>\<open>aggregator.Start\<close>: the consumer loop of the aggregator's consumer, over the iterations so far.\<close>

definition aggregatorStart ::
  "'r reader_ops \<Rightarrow> (string \<Rightarrow> SearchEvent option) \<Rightarrow> (string \<Rightarrow> IndexEvent option) \<Rightarrow> (bool \<times> bool) list \<Rightarrow> nat \<Rightarrow> 'r store \<Rightarrow>
   consumer_outcome \<times> 'r \<times> 'r store option" where
  "aggregatorStart ops ds di ctxs a st =
     (let consumer = aoConsumer (st ! a)
      in consumerStart ops (callHandler ds di (cnHandler consumer)) ctxs (cnReader consumer) (Some st))"

definition analyticsEndpoint :: "(QueryCount list \<Rightarrow> QueryCount list) \<Rightarrow> real \<Rightarrow> nat \<Rightarrow> 'r store \<Rightarrow> int \<times> AggregatedStats" where
  "analyticsEndpoint srt now a st = statsHandler (\<lambda>obj. Stats srt now (aoState obj)) (st ! a)"

section \<open>The service of \<open>cmd/analytics\<close>\<close>

definition kafkaCheck :: "unit \<Rightarrow> ComponentHealth" where
  "kafkaCheck _ = \<lparr>chStatus = StatusUp, chMessage = ''consumer active'', chLatency = []\<rparr>"

definition analyticsChecker :: "unit checker" where
  "analyticsChecker = Register NewChecker ''kafka'' kafkaCheck"

text \<open>Its readiness says nothing about Kafka: it is always up.\<close>

lemma analytics_always_ready: "fst (ReadyHandler latency now () analyticsChecker) = 200"
  by (simp add: ready_iff analyticsChecker_def Register_def NewChecker_def kafkaCheck_def status_defs)

section \<open>Facts\<close>

lemma wireAnalytics_store:
  "wireAnalytics newReader cfg t1 t2 =
     (1, [\<lparr>aoState = NewAggregator t1, aoConsumer = NewConsumer newReader cfg (tpAnalyticsEvents (kfTopics cfg)) None\<rparr>,
          \<lparr>aoState = NewAggregator t2, aoConsumer = NewConsumer newReader cfg (tpAnalyticsEvents (kfTopics cfg)) (Some 0)\<rparr>])"
  by (simp add: wireAnalytics_def allocAggregator_def Let_def)

text \<open>Calls change the aggregator of the closure, by all their messages in order, and no other.\<close>

lemma handleAll_callHandler:
  "a < length st \<Longrightarrow> handleAll (callHandler ds di (Some a)) msgs (Some st) =
     Some (st[a := (st ! a)\<lparr>aoState := foldl (HandleEvent ds di) (aoState (st ! a)) (map msgValue msgs)\<rparr>])"
proof (induction msgs arbitrary: st)
  case (Cons m msgs)
  let ?st = "st[a := (st ! a)\<lparr>aoState := HandleEvent ds di (aoState (st ! a)) (msgValue m)\<rparr>]"
  have "handleAll (callHandler ds di (Some a)) (m # msgs) (Some st) = handleAll (callHandler ds di (Some a)) msgs (Some ?st)"
    by (simp add: handleAll_def callHandler_def)
  with Cons.IH [of ?st] Cons.prems show ?case by simp
qed (simp add: handleAll_def)

lemma Stats_empty:
  assumes "slice_sort srt"
  shows "let s = Stats srt now (NewAggregator t) in TotalSearches s = 0 \<and> TotalDocIndexed s = 0 \<and> CacheHits s = 0 \<and>
    CacheMisses s = 0 \<and> ZeroResultCount s = 0 \<and> TopQueries s = [] \<and> QueriesPerMinute s = 0"
proof -
  have "topQueries [] (topN srt [] 10)" by (rule topN_counts [OF assms]) (simp add: counts_ok_def)
  then show ?thesis by (simp add: Stats_def NewAggregator_def Let_def topQueries_def)
qed

section \<open>Properties\<close>

text \<open>
  C28. The analytics pipeline of both mains, with any reader that keeps its contract: the consumer loop never calls a nil callback, and
  aggregates every message it has passed, in log order per partition, exactly once. But it does so in the aggregator
  created first, while the endpoint serves the second one, which no message ever reaches: it answers 200 with zero searches, documents
  and hits whatever was consumed.
\<close>

theorem analytics_endpoint_zero:
  assumes "kafka_reader ops plog pos committed" and "slice_sort srt"
    and "wireAnalytics newReader cfg t1 t2 = (served, st)" and "aggregatorStart ops ds di ctxs served st = (out, rd', s)"
  shows "\<exists>st' msgs rd. s = Some st' \<and> rd = cnReader (aoConsumer (st ! served)) \<and> length st' = 2 \<and>
    (\<forall>p. pos rd p \<le> pos rd' p \<and> ofPartition p msgs = drop (pos rd p) (take (pos rd' p) (plog rd' p))) \<and>
    aoState (st' ! 0) = foldl (HandleEvent ds di) (NewAggregator t1) (map msgValue msgs) \<and>
    TotalSearches (Stats srt now (aoState (st' ! 0))) = int (length (searchesIn ds (map msgValue msgs))) \<and>
    (case analyticsEndpoint srt now served st' of
       (status, stats) \<Rightarrow> status = 200 \<and> TotalSearches stats = 0 \<and> TotalDocIndexed stats = 0 \<and> CacheHits stats = 0 \<and>
         CacheMisses stats = 0 \<and> ZeroResultCount stats = 0 \<and> TopQueries stats = [] \<and> QueriesPerMinute stats = 0)"
proof -
  note W = assms(3) [unfolded wireAnalytics_store]
  have served: "served = 1" and st: "length st = 2" "aoState (st ! 0) = NewAggregator t1" "aoState (st ! 1) = NewAggregator t2"
    and h: "cnHandler (aoConsumer (st ! 1)) = Some 0"
    using W by (auto simp: NewConsumer_def)
  have run: "consumerStart ops (callHandler ds di (Some 0)) ctxs (cnReader (aoConsumer (st ! 1))) (Some st) = (out, rd', s)"
    using assms(4) by (simp add: aggregatorStart_def Let_def served h [simplified])
  obtain msgs where adv: "advanced plog pos committed (cnReader (aoConsumer (st ! 1))) rd' msgs"
    and s: "s = handleAll (callHandler ds di (Some 0)) msgs (Some st)"
    using kafka_reader.consumer_run [OF assms(1) run] by blast
  define st' where "st' = st[0 := (st ! 0)\<lparr>aoState := foldl (HandleEvent ds di) (aoState (st ! 0)) (map msgValue msgs)\<rparr>]"
  have s': "s = Some st'" unfolding s st'_def by (rule handleAll_callHandler) (simp add: st(1))
  have 0: "aoState (st' ! 0) = foldl (HandleEvent ds di) (NewAggregator t1) (map msgValue msgs)" and 1: "st' ! 1 = st ! 1"
    using st(1,2) by (simp_all add: st'_def)
  have "TotalSearches (Stats srt now (aoState (st' ! 0))) = int (length (searchesIn ds (map msgValue msgs)))"
    using agg_ok_run [of ds di t1 "map msgValue msgs"] unfolding 0 by (simp add: agg_ok_def Stats_def Let_def)
  moreover have "analyticsEndpoint srt now served st' = (200, Stats srt now (NewAggregator t2))"
    using 1 st(3) by (simp add: analyticsEndpoint_def statsHandler_def served)
  moreover have "length st' = 2" by (simp add: st'_def st(1))
  ultimately show ?thesis
    using s' 0 adv Stats_empty [OF assms(2), of now t2] by (auto simp: served advanced_def Let_def)
qed

text \<open>Two searches are consumed, and the endpoint reports none.\<close>

theorem analytics_endpoint_zero_witness:
  "\<exists>rd' st'. aggregatorStart (mrOps [0]) (\<lambda>v. Some (sampleSearch v 1 5)) (\<lambda>_. None) [(False, False), (False, False)] 1
      (snd (wireAnalytics (\<lambda>_. \<lparr>mrLog = (\<lambda>p. if p = 0 then [(''k'', ''go''), (''k'', ''rust'')] else []), mrPos = (\<lambda>_. 0), mrCommitted = (\<lambda>_. 0)\<rparr>)
         (cfKafka defaultConfig) 0 0)) = (StillRunning, rd', Some st') \<and>
    TotalSearches (Stats sortByCount 1 (aoState (st' ! 0))) = 2 \<and>
    TotalSearches (snd (analyticsEndpoint sortByCount 1 1 st')) = 0"
proof -
  let ?rd = "\<lparr>mrLog = (\<lambda>p. if p = 0 then [(''k'', ''go''), (''k'', ''rust'')] else []), mrPos = (\<lambda>_. 0), mrCommitted = (\<lambda>_. 0)\<rparr>"
  let ?ds = "\<lambda>v. Some (sampleSearch v 1 5)" and ?w = "wireAnalytics (\<lambda>_. ?rd) (cfKafka defaultConfig) 0 0"
  have w: "?w = (1, snd ?w)" by (simp add: wireAnalytics_store)
  obtain out rd' s where r: "aggregatorStart (mrOps [0]) ?ds (\<lambda>_. None) [(False, False), (False, False)] 1 (snd ?w) = (out, rd', s)"
    by (metis prod_cases3)
  have run: "out = StillRunning" "\<exists>st'. s = Some st' \<and> agSearches (aoState (st' ! 0)) = 2"
    using r by (auto simp: aggregatorStart_def wireAnalytics_store NewConsumer_def mrOps_def mrMessages_def callHandler_def
        HandleEvent_def recordSearchEvent_def NewAggregator_def sampleSearch_def Let_def)
  then obtain st' where st': "s = Some st'" "agSearches (aoState (st' ! 0)) = 2" by blast
  from analytics_endpoint_zero [OF memLog.kafka_reader_axioms stable.slice_sort_axioms w r, where now = 1]
  have "TotalSearches (snd (analyticsEndpoint sortByCount 1 1 st')) = 0" using st'(1) by (auto split: prod.splits)
  with r run(1) st' show ?thesis by (auto simp: Stats_def Let_def)
qed

end
