(* ===== verification/Request_Context.thy ===== *)
theory Request_Context
  imports Hashing Http Configuration
begin

text \<open>
  \<open>pkg/logger/logger.go\<close> and the context part of \<open>pkg/middleware/requestid.go\<close>: the logger that \<open>Setup\<close> installs, and the request ID
  in the context. A context is the list of its values, the innermost first; keys of different Go types are different, whatever their text.
\<close>

section \<open>Contexts\<close>

datatype context_key = LoggerKey | MiddlewareKey string

type_synonym ctx = "(context_key \<times> string) list"

definition requestIDKey :: context_key where "requestIDKey = MiddlewareKey ''request_id''"

definition WithRequestID :: "ctx \<Rightarrow> string \<Rightarrow> ctx" where
  "WithRequestID ctx requestID = (LoggerKey, requestID) # ctx"

text \<open>\<open>random\<close> are the eight bytes that \<open>rand.Read\<close> delivers.\<close>

definition generateID :: "string \<Rightarrow> string" where
  "generateID random = hexString random"

text \<open>The context in which \<open>RequestID\<close> calls the next handler.\<close>

definition requestContext :: "string \<Rightarrow> request \<Rightarrow> ctx \<Rightarrow> ctx" where
  "requestContext random r ctx =
     (let h = headerGet r ''X-Request-ID'';
          ident = (if h = [] then generateID random else h)
      in (requestIDKey, ident) # ctx)"

definition GetRequestID :: "ctx \<Rightarrow> string" where
  "GetRequestID ctx = (case map_of ctx requestIDKey of Some ident \<Rightarrow> ident | None \<Rightarrow> [])"

section \<open>The logger\<close>

datatype slog_level = LevelDebug | LevelInfo | LevelWarn | LevelError

datatype slog_format = JSONHandler | TextHandler

record slogger =
  slLevel :: slog_level
  slFormat :: slog_format
  slAttrs :: "(string \<times> string) list"

definition parseLevel :: "string \<Rightarrow> slog_level" where
  "parseLevel level =
     (if level = ''debug'' then LevelDebug else if level = ''warn'' then LevelWarn
      else if level = ''error'' then LevelError else LevelInfo)"

definition Setup :: "string \<Rightarrow> string \<Rightarrow> slogger" where
  "Setup level format =
     \<lparr>slLevel = parseLevel level, slFormat = (if format = ''json'' then JSONHandler else TextHandler), slAttrs = []\<rparr>"

definition loggerWith :: "string \<Rightarrow> string \<Rightarrow> slogger \<Rightarrow> slogger" where
  "loggerWith k v l = l\<lparr>slAttrs := slAttrs l @ [(k, v)]\<rparr>"

text \<open>\<open>dflt\<close> is \<open>slog.Default()\<close>.\<close>

definition FromContext :: "slogger \<Rightarrow> ctx \<Rightarrow> slogger" where
  "FromContext dflt ctx =
     (case map_of ctx LoggerKey of Some requestID \<Rightarrow> loggerWith ''request_id'' requestID dflt | None \<Rightarrow> dflt)"

definition WithComponent :: "slogger \<Rightarrow> string \<Rightarrow> slogger" where
  "WithComponent dflt component = loggerWith ''component'' component dflt"

section \<open>Facts\<close>

lemma FromContext_WithRequestID: "FromContext dflt (WithRequestID ctx ident) = loggerWith ''request_id'' ident dflt"
  by (simp add: FromContext_def WithRequestID_def)

text \<open>Generated identifiers have sixteen hexadecimal digits, and different random bytes give different ones.\<close>

lemma nibbleDigit_inj: "m < 16 \<Longrightarrow> n < 16 \<Longrightarrow> nibbleDigit m = nibbleDigit n \<longleftrightarrow> m = n"
proof
  have c: "of_char (nibbleDigit d) = (if d < 10 then 48 + d else 87 + d)" if "d < 16" for d :: nat
    using that by (simp add: nibbleDigit_def of_char_of)
  assume "m < 16" "n < 16" and eq: "nibbleDigit m = nibbleDigit n"
  then have "(if m < 10 then 48 + m else 87 + m) = (if n < 10 then 48 + n else 87 + n)" by (simp only: c [symmetric])
  with \<open>m < 16\<close> \<open>n < 16\<close> show "m = n" by presburger
qed simp

lemma hexString_inj: "hexString bs = hexString bs' \<Longrightarrow> bs = bs'"
proof (induction bs arbitrary: bs')
  case Nil
  then show ?case by (cases bs') (auto simp: hexString_def)
next
  case (Cons b bs)
  then obtain b' bs1 where bs': "bs' = b' # bs1" by (cases bs') (auto simp: hexString_def)
  have lt: "(of_char c :: nat) div 16 < 16" "(of_char c :: nat) mod 16 < 16" for c
  proof -
    have "(of_char c :: nat) < 256" by (metis mod_less_divisor of_char_mod_256 zero_less_numeral)
    then show "(of_char c :: nat) div 16 < 16" by linarith
  qed simp
  have "(of_char b :: nat) div 16 = of_char b' div 16 \<and> (of_char b :: nat) mod 16 = of_char b' mod 16" "hexString bs = hexString bs1"
    using Cons.prems lt by (auto simp: bs' hexString_def nibbleDigit_inj)
  then show ?case using Cons.IH [of bs1] bs' by (metis div_mult_mod_eq of_char_eq_iff)
qed

lemma generateID_ok:
  "length random = 8 \<Longrightarrow> length (generateID random) = 16 \<and> (\<forall>c \<in> set (generateID random). isHexDigit c)"
  "generateID random = generateID random' \<Longrightarrow> random = random'"
  using hexString_digits [of random] hexString_inj [of random random'] by (auto simp: generateID_def)

text \<open>
  Handlers behind the middleware read the request's own identifier, or a generated one. But their logger does not carry
  it: the middleware stores it under its own key, \<open>FromContext\<close> looks for the logger's key, and nothing calls \<open>WithRequestID\<close>.
\<close>

theorem request_context:
  assumes "length random = 8" and "map_of ctx LoggerKey = None"
  shows "GetRequestID (requestContext random r ctx) =
      (if headerGet r ''X-Request-ID'' = [] then generateID random else headerGet r ''X-Request-ID'')"
    and "GetRequestID (requestContext random r ctx) \<noteq> []"
    and "FromContext dflt (requestContext random r ctx) = dflt"
proof -
  have "generateID random \<noteq> []" using generateID_ok(1) [OF assms(1)] by auto
  then show "GetRequestID (requestContext random r ctx) \<noteq> []"
    by (simp add: GetRequestID_def requestContext_def Let_def)
qed (use assms(2) in \<open>simp_all add: GetRequestID_def requestContext_def FromContext_def requestIDKey_def Let_def\<close>)

end
