(* ===== verification/Http_Services.thy ===== *)
theory Http_Services
  imports Gateway Http_Metrics Metric_Registry Analytics_Service Searcher_Service Request_Context
begin

text \<open>
  The HTTP services behind one another: the multiplexers and middleware that \<open>cmd/ingestion\<close>, \<open>cmd/searcher\<close> and \<open>cmd/analytics\<close>
  put around their handlers, and the gateway's handlers of \<open>internal/gateway/handler\<close>, whose proxies (\<open>httputil.ReverseProxy\<close>)
  forward to a backend. A backend that does not answer is \<open>None\<close>.
\<close>

section \<open>Responses\<close>

datatype 'doc service_body =
  IngestBody ingest_reply | SearchBody search_reply | CacheBody cache_reply | StatsBody AggregatedStats
| StatusBody "(string \<times> string) list" | ReadyBody Report | DocumentBody 'doc | DocumentsBody "'doc list \<times> int \<times> int \<times> int"
| CreatedBody "string \<times> string" | KeysBody "KeyInfo list \<times> int"

definition writeJSON :: "int \<Rightarrow> 'b \<Rightarrow> 'b response" where
  "writeJSON status data =
     \<lparr>rspStatus = status, rspHeaders = [(''Content-Type'', ''application/json'')], rspBody = HandlerBody data\<rparr>"

text \<open>The answer of a multiplexer when nothing matches.\<close>

definition muxError :: "int \<Rightarrow> 'b response" where
  "muxError status = \<lparr>rspStatus = status, rspHeaders = [], rspBody = NoBody\<rparr>"

section \<open>The ingestion service\<close>

datatype ingestion_route = IIngest | IHealth

definition ingestionRoutes :: "string \<Rightarrow> (string \<times> ingestion_route) list" where
  "ingestionRoutes path =
     (if path = ''/api/v1/documents'' then [(''POST'', IIngest)]
      else if path = ''/health'' then [(''GET'', IHealth)]
      else [])"

definition ingestResponse :: "int \<times> ingest_reply \<Rightarrow> 'doc service_body response" where
  "ingestResponse out =
     (case out of
        (status, BadJSON) \<Rightarrow> writeError status ''invalid JSON body''
      | (status, IngestFailed) \<Rightarrow> writeError status ''ingestion failed''
      | (status, reply) \<Rightarrow> writeJSON status (IngestBody reply))"

definition ingestHealth :: "'doc service_body response" where
  "ingestHealth = writeJSON 200 (StatusBody [(''status'', ''ok'')])"

definition ingestionService ::
  "(string \<Rightarrow> IngestRequest option) \<Rightarrow> ('d \<Rightarrow> string \<Rightarrow> db_find) \<Rightarrow> ('d \<Rightarrow> docRow \<Rightarrow> db_insert \<times> 'd) \<Rightarrow>
   ('k \<Rightarrow> string \<Rightarrow> IngestEvent \<Rightarrow> bool \<times> 'k) \<Rightarrow> int \<Rightarrow> request \<Rightarrow> 'd \<Rightarrow> 'k \<Rightarrow> 'doc service_body response \<times> 'd \<times> 'k" where
  "ingestionService decode findRow insertRow publish now r d k =
     (case matchMethod (reqMethod r) (ingestionRoutes (urlPath r)) of
        Inl status \<Rightarrow> (muxError status, d, k)
      | Inr IHealth \<Rightarrow> (ingestHealth, d, k)
      | Inr IIngest \<Rightarrow>
          (case handleIngest decode findRow insertRow publish now (reqContent r) d k of
             (out, d', k') \<Rightarrow> (ingestResponse out, d', k')))"

section \<open>The search service\<close>

datatype searcher_route = QSearch | QCacheStats | QCacheInvalidate | QAnalytics | QLive | QReady

definition searcherRoutes :: "string \<Rightarrow> (string \<times> searcher_route) list" where
  "searcherRoutes path =
     (if path = ''/api/v1/search'' then [(''GET'', QSearch)]
      else if path = ''/api/v1/cache/stats'' then [(''GET'', QCacheStats)]
      else if path = ''/api/v1/cache/invalidate'' then [(''POST'', QCacheInvalidate)]
      else if path = ''/api/v1/analytics'' then [(''GET'', QAnalytics)]
      else if path = ''/health/live'' then [(''GET'', QLive)]
      else if path = ''/health/ready'' then [(''GET'', QReady)]
      else [])"

text \<open>
  The state of the process: the router, the cache on its Redis server (\<open>None\<close> when Redis was not available at the start), the collector, what was recorded
  in metrics, and the aggregators. \<open>qenv\<close> holds the clock readings, random bytes and outcomes of one request; \<open>qvTimedOut\<close> says that the
  deadline passed before the handler wrote.
\<close>

record ('s, 'r) searcher =
  qsRouter :: Router
  qsCache :: "(QueryCache \<times> 's) option"
  qsCollector :: "SearchEvent collector option"
  qsMetrics :: metric_log
  qsStore :: "'r store"

record qenv =
  qvRandom :: string
  qvDuration :: real
  qvLatencyMs :: int
  qvNow :: int
  qvStatsNow :: real
  qvTimedOut :: bool
  qvPing :: "string option"
  qvStamp :: string
  qvCheckTime :: "string \<Rightarrow> string"

record 's cache_ops =
  caGet :: "'s \<Rightarrow> string \<Rightarrow> redis_get"
  caSet :: "'s \<Rightarrow> string \<Rightarrow> string \<Rightarrow> int \<Rightarrow> bool \<times> 's"
  caMarshal :: "SearchResult \<Rightarrow> string option"
  caUnmarshal :: "string \<Rightarrow> SearchResult option"
  caInterfere :: "'s \<Rightarrow> 's"
  caScan :: "'s \<Rightarrow> string \<Rightarrow> string list \<times> bool"
  caDel :: "'s \<Rightarrow> string \<Rightarrow> bool \<times> 's"

text \<open>The cache as the handler uses it; no other request computes the same key meanwhile.\<close>

definition redisLookup :: "'s cache_ops \<Rightarrow> ((QueryCache \<times> 's) option, 'e) cache_lookup" where
  "redisLookup ops q limit x c =
     (case c of
        None \<Rightarrow> (map_sum id (\<lambda>result. (result, False)) x, None)
      | Some (qc, d) \<Rightarrow>
          (case GetOrCompute (caGet ops) (caSet ops) (caMarshal ops) (caUnmarshal ops) (caInterfere ops) None x qc d q limit of
             (res, qc', d') \<Rightarrow> (res, Some (qc', d'))))"

definition searchResponse :: "int \<times> search_reply \<Rightarrow> 'doc service_body response" where
  "searchResponse out =
     (case out of (status, SearchError msg) \<Rightarrow> writeError status msg | (status, reply) \<Rightarrow> writeJSON status (SearchBody reply))"

definition cacheResponse :: "int \<times> cache_reply \<Rightarrow> 'doc service_body response" where
  "cacheResponse out =
     (case out of (status, CacheError msg) \<Rightarrow> writeError status msg | (status, reply) \<Rightarrow> writeJSON status (CacheBody reply))"

definition LiveHandler :: "'doc service_body response" where
  "LiveHandler = writeJSON 200 (StatusBody [(''status'', ''alive'')])"

text \<open>The multiplexer. \<open>None\<close> is a panic in the handler, which no one recovers in the goroutine of \<open>Timeout\<close>.\<close>

definition searcherMux ::
  "search_config \<Rightarrow> PlatformMetrics option \<Rightarrow> 's cache_ops \<Rightarrow> (QueryCount list \<Rightarrow> QueryCount list) \<Rightarrow> nat \<Rightarrow> qenv \<Rightarrow> string \<Rightarrow>
   request \<Rightarrow> ('s, 'r) searcher \<Rightarrow> ('doc service_body response \<times> ('s, 'r) searcher) option" where
  "searcherMux h metrics ops srt served env ident r s =
     (case matchMethod (reqMethod r) (searcherRoutes (urlPath r)) of
        Inl status \<Rightarrow> Some (muxError status, s)
      | Inr QSearch \<Rightarrow>
          map_option (\<lambda>(out, c, col, ml). (searchResponse out, s\<lparr>qsCache := c, qsCollector := col, qsMetrics := ml\<rparr>))
            (meteredSearch metrics h (shardedExecute (GetAllEngines (qsRouter s)))
               (if qsCache s = None then None else Some (redisLookup ops))
               (qvDuration env) (qvLatencyMs env) (qvNow env) ident r (qsCache s, qsCollector s, qsMetrics s))
      | Inr QCacheStats \<Rightarrow> Some (cacheResponse (handleCacheStats (map_option fst (qsCache s))), s)
      | Inr QCacheInvalidate \<Rightarrow>
          (case qsCache s of
             None \<Rightarrow> Some (cacheResponse (503, CacheError ''caching is disabled''), s)
           | Some (qc, d) \<Rightarrow>
               (case handleCacheInvalidate (caScan ops) (caDel ops) True d of
                  (out, d') \<Rightarrow> Some (cacheResponse out, s\<lparr>qsCache := Some (qc, d')\<rparr>)))
      | Inr QAnalytics \<Rightarrow>
          (case analyticsEndpoint srt (qvStatsNow env) served (qsStore s) of (status, stats) \<Rightarrow> Some (writeJSON status (StatsBody stats), s))
      | Inr QLive \<Rightarrow> Some (LiveHandler, s)
      | Inr QReady \<Rightarrow>
          (case ReadyHandler (qvCheckTime env) (qvStamp env) (qsRouter s, map_option (\<lambda>_. qvPing env) (qsCache s)) searcherChecker of
             (status, report) \<Rightarrow> Some (writeJSON status (ReadyBody report), s)))"

text \<open>
  The middleware: the deadline (the handler's effects happen all the same), the HTTP metrics, and the request ID.
\<close>

definition timeoutResponse :: "'doc service_body response" where
  "timeoutResponse = \<lparr>rspStatus = 504, rspHeaders = [(''Content-Type'', ''text/plain; charset=utf-8''), (''X-Content-Type-Options'', ''nosniff'')],
     rspBody = ErrorBody ''request timeout''\<rparr>"

definition httpRecord :: "PlatformMetrics \<Rightarrow> request \<Rightarrow> int \<Rightarrow> real \<Rightarrow> metric_log \<Rightarrow> metric_log option" where
  "httpRecord m r status duration ml =
     Option.bind (emit (HTTPRequestsTotal m) [reqMethod r, normalizePath (urlPath r), show_int status] MInc ml) (\<lambda>ml.
     Option.bind (emit (HTTPRequestDuration m) [reqMethod r, normalizePath (urlPath r)] (MObserve duration) ml)
       (emit (HTTPRequestsInFlight m) [] MDec))"

definition searcherService ::
  "search_config \<Rightarrow> PlatformMetrics option \<Rightarrow> 's cache_ops \<Rightarrow> (QueryCount list \<Rightarrow> QueryCount list) \<Rightarrow> nat \<Rightarrow> qenv \<Rightarrow>
   request \<Rightarrow> ('s, 'r) searcher \<Rightarrow> ('doc service_body response \<times> ('s, 'r) searcher) option" where
  "searcherService h metrics ops srt served env r s =
     (let ident = GetRequestID (requestContext (qvRandom env) r []);
          timed = (\<lambda>s. map_option (apfst (\<lambda>rsp. if qvTimedOut env then timeoutResponse else rsp))
                     (searcherMux h metrics ops srt served env ident r s));
          metered =
            (case metrics of
               None \<Rightarrow> timed s
             | Some m \<Rightarrow>
                 Option.bind (emit (HTTPRequestsInFlight m) [] MInc (qsMetrics s)) (\<lambda>ml.
                 Option.bind (timed (s\<lparr>qsMetrics := ml\<rparr>)) (\<lambda>(rsp, s').
                 map_option (\<lambda>ml'. (rsp, s'\<lparr>qsMetrics := ml'\<rparr>)) (httpRecord m r (rspStatus rsp) (qvDuration env) (qsMetrics s')))))
      in map_option (setHeaders [(''X-Request-ID'', ident)]) metered)"

section \<open>The analytics service\<close>

definition analyticsRoutes :: "string \<Rightarrow> (string \<times> searcher_route) list" where
  "analyticsRoutes path =
     (if path = ''/api/v1/analytics'' then [(''GET'', QAnalytics)]
      else if path = ''/health/live'' then [(''GET'', QLive)]
      else if path = ''/health/ready'' then [(''GET'', QReady)]
      else [])"

definition analyticsService ::
  "(QueryCount list \<Rightarrow> QueryCount list) \<Rightarrow> nat \<Rightarrow> qenv \<Rightarrow> request \<Rightarrow> 'r store \<Rightarrow> 'doc service_body response" where
  "analyticsService srt served env r st =
     (let ident = GetRequestID (requestContext (qvRandom env) r []);
          rsp = (case matchMethod (reqMethod r) (analyticsRoutes (urlPath r)) of
             Inl status \<Rightarrow> muxError status
           | Inr QAnalytics \<Rightarrow> (case analyticsEndpoint srt (qvStatsNow env) served st of (status, stats) \<Rightarrow> writeJSON status (StatsBody stats))
           | Inr QReady \<Rightarrow> (case ReadyHandler (qvCheckTime env) (qvStamp env) () analyticsChecker of
                (status, report) \<Rightarrow> writeJSON status (ReadyBody report))
           | Inr _ \<Rightarrow> LiveHandler)
      in fst (setHeaders [(''X-Request-ID'', ident)] (rsp, ())))"

section \<open>The gateway's handlers\<close>

text \<open>A parsed backend URL, and what the reverse proxy sends there.\<close>

record url =
  uHost :: string
  uPath :: string

definition singleJoiningSlash :: "string \<Rightarrow> string \<Rightarrow> string" where
  "singleJoiningSlash a b =
     (let aslash = HasSuffix a ''/''; bslash = HasPrefix b ''/''
      in if aslash \<and> bslash then a @ tl b
         else if \<not> aslash \<and> \<not> bslash then a @ ''/'' @ b
         else a @ b)"

definition hopHeaders :: "string list" where
  "hopHeaders = [''Connection'', ''Proxy-Connection'', ''Keep-Alive'', ''Proxy-Authenticate'', ''Proxy-Authorization'', ''Te'',
     ''Trailer'', ''Transfer-Encoding'', ''Upgrade'']"

definition outgoing :: "url \<Rightarrow> string \<Rightarrow> request \<Rightarrow> request" where
  "outgoing target clientIP r =
     r\<lparr>urlPath := singleJoiningSlash (uPath target) (urlPath r),
       headerGet := (\<lambda>h. if h \<in> set hopHeaders then []
         else if h = ''X-Forwarded-For'' then (if headerGet r h = [] then clientIP else headerGet r h @ '', '' @ clientIP)
         else headerGet r h)\<rparr>"

definition newProxy ::
  "url \<Rightarrow> string \<Rightarrow> (request \<Rightarrow> 'w \<Rightarrow> ('b response \<times> 'w) option) \<Rightarrow> ('w, 'b) handler" where
  "newProxy target clientIP backend r info s =
     (case s of
        (l, w) \<Rightarrow>
          (case backend (outgoing target clientIP r) w of
             None \<Rightarrow> (\<lparr>rspStatus = 502, rspHeaders = [], rspBody = NoBody\<rparr>, l, w)
           | Some (rsp, w') \<Rightarrow> (rsp, l, w')))"

record gw_config =
  gcIngestionURL :: url
  gcSearcherURL :: url

text \<open>The statements and decoders behind the direct handlers.\<close>

record ('w, 'doc) gw_ops =
  goFindDoc :: "'w \<Rightarrow> string \<Rightarrow> 'doc doc_find"
  goSelectDocs :: "'w \<Rightarrow> int \<Rightarrow> int \<Rightarrow> 'doc option list option"
  goParseDuration :: "string \<Rightarrow> int option"
  goCreateKey :: "'w \<Rightarrow> string \<Rightarrow> int \<Rightarrow> int option \<Rightarrow> (key_error + string) \<times> 'w"
  goDecodeCreate :: "string \<Rightarrow> create_req option"
  goListKeys :: "'w \<Rightarrow> key_error + KeyInfo list"

definition gatewayHealth :: "'doc service_body response" where
  "gatewayHealth = writeJSON 200 (StatusBody [(''status'', ''ok''), (''service'', ''gateway'')])"

definition gatewayHandlers ::
  "gw_config \<Rightarrow> ('w, 'doc) gw_ops \<Rightarrow> int \<Rightarrow> string \<Rightarrow> (request \<Rightarrow> 'w \<Rightarrow> ('doc service_body response \<times> 'w) option) \<Rightarrow>
   (request \<Rightarrow> 'w \<Rightarrow> ('doc service_body response \<times> 'w) option) \<Rightarrow> gw_route \<Rightarrow> ('w, 'doc service_body) handler" where
  "gatewayHandlers cfg gops now clientIP ingestion searcher rt r info s =
     (let ingestionProxy = newProxy (gcIngestionURL cfg) clientIP ingestion;
          searchProxy = newProxy (gcSearcherURL cfg) clientIP searcher;
          (l, w) = s
      in case rt of
           RHealth \<Rightarrow> (gatewayHealth, s)
         | RIngest \<Rightarrow> ingestionProxy r info s
         | RSearch \<Rightarrow> searchProxy r info s
         | RAnalytics \<Rightarrow> searchProxy r info s
         | RCacheStats \<Rightarrow> searchProxy r info s
         | RCacheInvalidate \<Rightarrow> searchProxy r info s
         | RGetDocument i \<Rightarrow> (GetDocument (goFindDoc gops) DocumentBody w i, s)
         | RListDocuments \<Rightarrow> (ListDocuments (goSelectDocs gops) DocumentsBody w r, s)
         | RCreateKey \<Rightarrow>
             (case CreateAPIKey (goParseDuration gops) (goCreateKey gops) CreatedBody now (goDecodeCreate gops (reqContent r)) w of
                (rsp, w') \<Rightarrow> (rsp, l, w'))
         | RListKeys \<Rightarrow> (ListAPIKeys (goListKeys gops) KeysBody w, s))"

section \<open>Facts\<close>

lemma outgoing_simps [simp]:
  "reqMethod (outgoing target ip r) = reqMethod r" "queryGet (outgoing target ip r) = queryGet r"
  "reqContent (outgoing target ip r) = reqContent r"
  by (simp_all add: outgoing_def)

text \<open>A target without a path keeps the path, and a client's own request ID is forwarded.\<close>

lemma outgoing_path: "uPath target = [] \<Longrightarrow> HasPrefix (urlPath r) ''/'' \<Longrightarrow> urlPath (outgoing target ip r) = urlPath r"
  by (simp add: outgoing_def singleJoiningSlash_def HasSuffix_def)

lemma outgoing_requestID: "headerGet (outgoing target ip r) ''X-Request-ID'' = headerGet r ''X-Request-ID''"
  by (simp add: outgoing_def hopHeaders_def)

end
