(* ===== verification/Platform.thy ===== *)
theory Platform
  imports Http_Services
begin

text \<open>
  The whole platform: requests enter at the gateway, which forwards them to the ingestion and the search service; ingestion writes the
  database and the topic; the indexer consumes the topic and writes segment files; the searcher reloads them. One world holds the state of all
  processes, and a step is a request through the gateway, the handling of a message, a tick of a flush loop, or a reload, in any order and with
  any failure of its environment.
\<close>

section \<open>The world\<close>

text \<open>
  The database is in the indexer's state (\<open>svRows\<close>) and shared with the gateway and the ingestion service. The topic is the list of its
  messages with the set of positions that were consumed: partitions may be consumed in any order. \<open>wClock\<close> and \<open>wEvents\<close> are those
  of \<open>service_step\<close>.
\<close>

record ('d, 's, 'r) world =
  wIndexer :: "'d service"
  wClock :: int
  wEvents :: "IngestEvent list"
  wTopic :: "(string \<times> string) list"
  wDone :: "nat set"
  wSearcher :: "('s, 'r) searcher"

text \<open>The code's parameters, fixed for all steps.\<close>

record ('d, 's, 'r, 'doc) platform =
  pfDecodeReq :: "string \<Rightarrow> IngestRequest option"
  pfFindRow :: "'d \<Rightarrow> string \<Rightarrow> db_find"
  pfInsertRow :: "'d \<Rightarrow> docRow \<Rightarrow> db_insert \<times> 'd"
  pfSetStatus :: "('d \<Rightarrow> string \<Rightarrow> string \<Rightarrow> 'd) option"
  pfEncode :: "IngestEvent \<Rightarrow> string"
  pfDecode :: "string \<Rightarrow> IngestEvent option"
  pfFindKey :: "'d \<Rightarrow> string \<Rightarrow> key_find"
  pfGateway :: gw_config
  pfDirect :: "('d, 'doc) gw_ops"
  pfSearch :: search_config
  pfMetrics :: "PlatformMetrics option"
  pfCache :: "'s cache_ops"
  pfSort :: "QueryCount list \<Rightarrow> QueryCount list"
  pfServed :: nat

text \<open>What differs between requests: clocks, random bytes, and which service answers.\<close>

record renv =
  rvFresh :: string
  rvNow :: int
  rvClientIP :: string
  rvIngestionUp :: bool
  rvSearcherUp :: bool
  rvKafkaUp :: bool
  rvSearch :: qenv

definition writeTopic :: "bool \<Rightarrow> (string \<times> string) list \<Rightarrow> (string \<times> string) list \<Rightarrow> string option \<times> (string \<times> string) list" where
  "writeTopic up topic msgs = (if up then (None, topic @ msgs) else (Some ''kafka write error'', topic))"

definition publishEvent ::
  "(IngestEvent \<Rightarrow> string) \<Rightarrow> bool \<Rightarrow> (string \<times> string) list \<Rightarrow> string \<Rightarrow> IngestEvent \<Rightarrow> bool \<times> (string \<times> string) list" where
  "publishEvent encode up topic key ev =
     (case Publish (\<lambda>v. Some (encode v)) (writeTopic up) \<lparr>Key = key, Value = ev\<rparr> topic of (err, topic') \<Rightarrow> (err = None, topic'))"

definition ingestionBackend ::
  "('d, 's, 'r, 'doc) platform \<Rightarrow> renv \<Rightarrow> request \<Rightarrow> ('d, 's, 'r) world \<Rightarrow> ('doc service_body response \<times> ('d, 's, 'r) world) option" where
  "ingestionBackend pf env r w =
     (if \<not> rvIngestionUp env then None
      else
        (case ingestionService (pfDecodeReq pf) (pfFindRow pf) (pfInsertRow pf) (publishEvent (pfEncode pf) (rvKafkaUp env)) (rvNow env)
                r (svRows (wIndexer w)) (wTopic w) of
           (rsp, d, topic) \<Rightarrow> Some (rsp, w\<lparr>wIndexer := (wIndexer w)\<lparr>svRows := d\<rparr>, wTopic := topic\<rparr>)))"

definition searcherBackend ::
  "('d, 's, 'r, 'doc) platform \<Rightarrow> renv \<Rightarrow> request \<Rightarrow> ('d, 's, 'r) world \<Rightarrow> ('doc service_body response \<times> ('d, 's, 'r) world) option" where
  "searcherBackend pf env r w =
     (if \<not> rvSearcherUp env then None
      else map_option (\<lambda>(rsp, q). (rsp, w\<lparr>wSearcher := q\<rparr>))
        (searcherService (pfSearch pf) (pfMetrics pf) (pfCache pf) (pfSort pf) (pfServed pf) (rvSearch env) r (wSearcher w)))"

text \<open>The direct handlers on the database within the world.\<close>

definition worldOps :: "('d, 'doc) gw_ops \<Rightarrow> (('d, 's, 'r) world, 'doc) gw_ops" where
  "worldOps g = \<lparr>goFindDoc = (\<lambda>w. goFindDoc g (svRows (wIndexer w))), goSelectDocs = (\<lambda>w. goSelectDocs g (svRows (wIndexer w))),
     goParseDuration = goParseDuration g,
     goCreateKey = (\<lambda>w name limit ex. case goCreateKey g (svRows (wIndexer w)) name limit ex of
        (res, d) \<Rightarrow> (res, w\<lparr>wIndexer := (wIndexer w)\<lparr>svRows := d\<rparr>\<rparr>)),
     goDecodeCreate = goDecodeCreate g, goListKeys = (\<lambda>w. goListKeys g (svRows (wIndexer w)))\<rparr>"

definition keyCheck :: "('d, 's, 'r, 'doc) platform \<Rightarrow> renv \<Rightarrow> ('d, 's, 'r) world \<Rightarrow> string \<Rightarrow> key_error + KeyInfo" where
  "keyCheck pf env w = Validate (pfFindKey pf) (rvNow env) (svRows (wIndexer w))"

definition platformRoutes ::
  "('d, 's, 'r, 'doc) platform \<Rightarrow> renv \<Rightarrow> gw_route \<Rightarrow> (('d, 's, 'r) world, 'doc service_body) handler" where
  "platformRoutes pf env =
     gatewayHandlers (pfGateway pf) (worldOps (pfDirect pf)) (rvNow env) (rvClientIP env) (ingestionBackend pf env) (searcherBackend pf env)"

text \<open>A request to the gateway.\<close>

definition serve ::
  "('d, 's, 'r, 'doc) platform \<Rightarrow> renv \<Rightarrow> request \<Rightarrow> Limiter \<times> ('d, 's, 'r) world \<Rightarrow>
   'doc service_body response \<times> Limiter \<times> ('d, 's, 'r) world" where
  "serve pf env r s = gateway (rvFresh env) (keyCheck pf env) (rvNow env) (platformRoutes pf env) r None s"

inductive platform_step ::
  "('d, 's, 'r, 'doc) platform \<Rightarrow> Limiter \<times> ('d, 's, 'r) world \<Rightarrow> Limiter \<times> ('d, 's, 'r) world \<Rightarrow> bool" for pf where
  p_request: "serve pf env r s = (rsp, s') \<Longrightarrow> platform_step pf s s'"
| p_message: "i < length (wTopic w) \<Longrightarrow> i \<notin> wDone w \<Longrightarrow> wTopic w ! i = (key, v) \<Longrightarrow>
    indexHandler (pfDecode pf) (pfSetStatus pf) env key v (wIndexer w) = (err, s') \<Longrightarrow>
    clocked (wClock w) (env (svCount (wIndexer w))) now' \<Longrightarrow> eventFits (svRouter (wIndexer w)) (pfDecode pf v) \<Longrightarrow>
    platform_step pf (l, w) (l, w\<lparr>wIndexer := s', wClock := now', wEvents := wEvents w @ routed totalShards (pfDecode pf v),
      wDone := insert i (wDone w)\<rparr>)"
| p_flush: "shardEngine (svRouter (wIndexer w)) i = Some e \<Longrightarrow> 0 < DocCount (memIndex e) \<Longrightarrow> mem_fits (memIndex e) \<Longrightarrow>
    wClock w \<le> nano \<Longrightarrow> Flush io flt nano (svDisks (wIndexer w) i) e = (err, e', d') \<Longrightarrow>
    platform_step pf (l, w) (l, w\<lparr>wIndexer := (wIndexer w)\<lparr>
        svRouter := (svRouter (wIndexer w))\<lparr>rtEngines := AList.update i e' (rtEngines (svRouter (wIndexer w)))\<rparr>,
        svDisks := (svDisks (wIndexer w))(i := d')\<rparr>, wClock := nano + 1\<rparr>)"
| p_reload: "ReloadAll sys (svDisks (wIndexer w)) (qsRouter (wSearcher w)) = Inr (k, q) \<Longrightarrow>
    platform_step pf (l, w) (l, w\<lparr>wSearcher := (wSearcher w)\<lparr>qsRouter := q\<rparr>\<rparr>)"

section \<open>Requests change what they should\<close>

definition collectorOpen :: "('s, 'r) searcher \<Rightarrow> bool" where
  "collectorOpen q \<longleftrightarrow> (\<forall>cl. qsCollector q = Some cl \<longrightarrow> \<not> chClosed cl)"

lemma meteredSearch_open:
  assumes "meteredSearch m h ex lk dur ms now ident r (c, col, ml) = Some (out, c', col', ml')" and "\<forall>cl. col = Some cl \<longrightarrow> \<not> chClosed cl"
  shows "\<forall>cl. col' = Some cl \<longrightarrow> \<not> chClosed cl"
proof -
  obtain o1 c1 col1 where h: "handleSearch h ex lk ms now ident r c None = Some (o1, c1, None)"
    "handleSearch h ex lk ms now ident r c col = Some (o1, c1, col1)" "\<forall>cl. col1 = Some cl \<longrightarrow> \<not> chClosed cl"
    using handleSearch_open [OF assms(2), of h ex lk ms now ident r c] by (elim exE conjE) simp
  have "col' = col1" using assms(1) by (auto simp: meteredSearch_def h(1,2) split: Option.bind_splits)
  with h(3) show ?thesis by simp
qed

lemma searcherMux_frame:
  assumes "searcherMux h m ops srt served env ident r s = Some (rsp, s')"
  shows "qsRouter s' = qsRouter s" and "collectorOpen s \<Longrightarrow> collectorOpen s'"
proof -
  consider (search) "matchMethod (reqMethod r) (searcherRoutes (urlPath r)) = Inr QSearch"
    | (other) "qsRouter s' = qsRouter s" "qsCollector s' = qsCollector s"
    using assms by (auto simp: searcherMux_def split: sum.splits searcher_route.splits option.splits prod.splits)
  then have "qsRouter s' = qsRouter s \<and> (collectorOpen s \<longrightarrow> collectorOpen s')"
  proof cases
    case search
    define M where "M = meteredSearch m h (shardedExecute (GetAllEngines (qsRouter s))) (if qsCache s = None then None else Some (redisLookup ops))
      (qvDuration env) (qvLatencyMs env) (qvNow env) ident r (qsCache s, qsCollector s, qsMetrics s)"
    have "map_option (\<lambda>(out, c, col, ml). (searchResponse out, s\<lparr>qsCache := c, qsCollector := col, qsMetrics := ml\<rparr>)) M = Some (rsp, s')"
      using assms search by (simp add: searcherMux_def M_def)
    then obtain out c col ml where ms: "M = Some (out, c, col, ml)" and s': "s' = s\<lparr>qsCache := c, qsCollector := col, qsMetrics := ml\<rparr>"
      by auto
    have q: "qsRouter s' = qsRouter s" "qsCollector s' = col" by (simp_all add: s')
    have "\<forall>cl. col = Some cl \<longrightarrow> \<not> chClosed cl" if "\<forall>cl. qsCollector s = Some cl \<longrightarrow> \<not> chClosed cl"
      by (rule meteredSearch_open [OF ms [unfolded M_def] that])
    then show ?thesis unfolding collectorOpen_def q by blast
  qed (simp add: collectorOpen_def)
  then show "qsRouter s' = qsRouter s" "collectorOpen s \<Longrightarrow> collectorOpen s'" by blast+
qed

lemma searcherService_frame:
  fixes rsp :: "'doc service_body response"
  assumes "searcherService h m ops srt served env r s = Some (rsp, s')"
  shows "qsRouter s' = qsRouter s" and "collectorOpen s \<Longrightarrow> collectorOpen s'"
proof -
  have "\<exists>ident ml (rsp1 :: 'doc service_body response) s1. searcherMux h m ops srt served env ident r (s\<lparr>qsMetrics := ml\<rparr>) = Some (rsp1, s1) \<and>
      qsRouter s' = qsRouter s1 \<and> qsCollector s' = qsCollector s1"
  proof (cases m)
    case None
    then obtain rsp1 :: "'doc service_body response" where "searcherMux h m ops srt served env (GetRequestID (requestContext (qvRandom env) r [])) r s = Some (rsp1, s')"
      using assms by (auto simp: searcherService_def Let_def setHeaders_def)
    then have "searcherMux h m ops srt served env (GetRequestID (requestContext (qvRandom env) r [])) r (s\<lparr>qsMetrics := qsMetrics s\<rparr>) = Some (rsp1, s')"
      by simp
    then show ?thesis by blast
  next
    case (Some mm)
    with assms show ?thesis
      by (auto simp: searcherService_def Let_def setHeaders_def split: Option.bind_splits prod.splits) blast
  qed
  then obtain ident ml s1 and rsp1 :: "'doc service_body response" where mux: "searcherMux h m ops srt served env ident r (s\<lparr>qsMetrics := ml\<rparr>) = Some (rsp1, s1)"
    and s': "qsRouter s' = qsRouter s1" "qsCollector s' = qsCollector s1" by blast
  with searcherMux_frame [OF mux] show "qsRouter s' = qsRouter s" "collectorOpen s \<Longrightarrow> collectorOpen s'"
    by (simp_all add: collectorOpen_def)
qed

text \<open>
  A request leaves the indexer, its clock and events, and the searcher's router alone, and only appends to the topic.
\<close>

definition unchanged :: "('d, 's, 'r) world \<Rightarrow> ('d, 's, 'r) world \<Rightarrow> bool" where
  "unchanged w w' \<longleftrightarrow> (\<exists>d. wIndexer w' = (wIndexer w)\<lparr>svRows := d\<rparr>) \<and> wClock w' = wClock w \<and> wEvents w' = wEvents w \<and>
     wDone w' = wDone w \<and> qsRouter (wSearcher w') = qsRouter (wSearcher w) \<and> prefix (wTopic w) (wTopic w') \<and>
     (collectorOpen (wSearcher w) \<longrightarrow> collectorOpen (wSearcher w'))"

lemma rows_self [simp]: "\<exists>d. s = s\<lparr>svRows := d\<rparr>"
  by (rule exI [of _ "svRows s"]) simp

lemma unchanged_refl: "unchanged w w"
  by (simp add: unchanged_def)

lemma publishEvent_topic:
  "publishEvent encode up topic key ev = (up, if up then topic @ [(key, encode ev)] else topic)"
  by (simp add: publishEvent_def Publish_def writeTopic_def)

lemma handleIngest_topic:
  assumes "handleIngest decode findRow insertRow (publishEvent encode up) now body d topic = (out, d', topic')"
  shows "prefix topic topic'"
  using assms
  by (auto simp: handleIngest_def Ingest_def Let_def publishEvent_topic
      split: option.splits sum.splits prod.splits if_splits db_insert.splits)

lemma ingestionBackend_unchanged: "ingestionBackend pf env r w = Some (rsp, w') \<Longrightarrow> unchanged w w'"
  by (auto simp: ingestionBackend_def ingestionService_def unchanged_def dest: handleIngest_topic
      split: if_splits sum.splits ingestion_route.splits prod.splits)

lemma searcherBackend_unchanged: "searcherBackend pf env r w = Some (rsp, w') \<Longrightarrow> unchanged w w'"
proof -
  assume "searcherBackend pf env r w = Some (rsp, w')"
  then obtain q where "searcherService (pfSearch pf) (pfMetrics pf) (pfCache pf) (pfSort pf) (pfServed pf) (rvSearch env) r (wSearcher w) = Some (rsp, q)"
    and w': "w' = w\<lparr>wSearcher := q\<rparr>" by (auto simp: searcherBackend_def split: if_splits)
  from searcherService_frame [OF this(1)] show ?thesis
    by (auto simp: unchanged_def w')
qed

lemma newProxy_world:
  assumes "\<And>r rsp w'. backend r w = Some (rsp, w') \<Longrightarrow> unchanged w w'"
  shows "unchanged w (snd (snd (newProxy target ip backend r info (l, w))))"
  using assms by (auto simp: newProxy_def unchanged_refl split: option.splits)

lemma CreateAPIKey_world:
  assumes "\<And>w name limit ex. R w (snd (createKey w name limit ex))" and "\<And>w. R w w"
  shows "R w (snd (CreateAPIKey parseDuration createKey enc now decoded w))"
proof -
  have "R w w'" if "createKey w name limit ex = (res, w')" for name limit ex res w'
    using assms(1) [of w name limit ex] that by simp
  with assms(2) show ?thesis
    by (auto simp: CreateAPIKey_def Let_def split: option.splits prod.splits sum.splits)
qed

lemma platformRoutes_world: "unchanged w (snd (snd (platformRoutes pf env rt r info (l, w))))"
proof -
  have "unchanged w (snd (CreateAPIKey pd (goCreateKey (worldOps g)) CreatedBody now dec w))" for pd g now dec w
    by (rule CreateAPIKey_world [where R = unchanged]) (auto simp: worldOps_def unchanged_def split: prod.splits)
  note c = this and p = newProxy_world [OF ingestionBackend_unchanged] newProxy_world [OF searcherBackend_unchanged]
  show ?thesis
    using c p by (cases rt) (simp_all add: platformRoutes_def gatewayHandlers_def unchanged_refl case_prod_beta Let_def)
qed

lemma serve_world: "unchanged w (snd (snd (serve pf env r (l, w))))"
proof -
  obtain d l1 where a: "admission (keyCheck pf env) (rvNow env) r (l, w) = (d, l1)" by fastforce
  note G = gateway_admission [of "keyCheck pf env" "rvNow env" r "(l, w)" "rvFresh env" "platformRoutes pf env", unfolded a, folded serve_def]
  have "unchanged w (snd (snd (mux (platformRoutes pf env) r ki (l1, w))))" for ki
    by (simp add: mux_def unchanged_refl platformRoutes_world split: sum.splits)
  then show ?thesis using G by (cases d) (auto simp: unchanged_refl)
qed

section \<open>The invariant\<close>

text \<open>
  The indexer and the searcher keep their invariant, and every consumed message has been routed.
\<close>

definition platform_inv :: "('d, 's, 'r, 'doc) platform \<Rightarrow> ('d, 's, 'r) world \<Rightarrow> bool" where
  "platform_inv pf w \<longleftrightarrow> searcher_inv totalShards ((wIndexer w, wClock w, wEvents w), qsRouter (wSearcher w)) \<and>
     collectorOpen (wSearcher w) \<and>
     (\<forall>i \<in> wDone w. i < length (wTopic w) \<and> set (routed totalShards (pfDecode pf (snd (wTopic w ! i)))) \<subseteq> set (wEvents w))"

lemma searcher_inv_rows: "searcher_inv n ((s\<lparr>svRows := d\<rparr>, now, evs), q) = searcher_inv n ((s, now, evs), q)"
  by (simp add: searcher_inv_def service_inv_def)

lemma platform_inv_unchanged:
  assumes "platform_inv pf w" and "unchanged w w'"
  shows "platform_inv pf w'"
proof -
  have "wTopic w' ! i = wTopic w ! i \<and> i < length (wTopic w')" if "i < length (wTopic w)" for i
    using assms(2) that by (auto simp: unchanged_def prefix_def nth_append)
  then show ?thesis using assms by (auto simp: platform_inv_def unchanged_def searcher_inv_rows)
qed

lemma platform_inv_step:
  assumes "platform_step pf s s'" and "platform_inv pf (snd s)"
  shows "platform_inv pf (snd s')"
  using assms
proof (induction rule: platform_step.induct)
  case (p_request env r s rsp s')
  obtain l w where s: "s = (l, w)" by fastforce
  have "unchanged w (snd s')" using serve_world [of w pf env r l] p_request(1) by (simp add: s)
  with p_request(2) show ?case by (auto simp: s intro: platform_inv_unchanged)
next
  case (p_message i w key v env err s' now' l)
  note inv = p_message.prems [unfolded platform_inv_def snd_conv]
  have "service_step totalShards (pfDecode pf) (pfSetStatus pf) (wIndexer w, wClock w, wEvents w)
      (s', now', wEvents w @ routed totalShards (pfDecode pf v))"
    by (rule message [OF p_message.hyps(4-6)])
  from searcher_inv_step [OF w_indexer [OF this]] inv p_message.hyps(1,3) show ?case by (auto simp: platform_inv_def)
next
  case (p_flush w i e nano io flt err e' d' l)
  note inv = p_flush.prems [unfolded platform_inv_def snd_conv]
  note st = tick [where decode = "pfDecode pf" and setStatus = "pfSetStatus pf" and n = totalShards and evs = "wEvents w", OF p_flush.hyps]
  from searcher_inv_step [OF w_indexer [OF st]] inv show ?case by (auto simp: platform_inv_def)
next
  case (p_reload sys w k q l)
  note inv = p_reload.prems [unfolded platform_inv_def snd_conv]
  from searcher_inv_reload [OF inv [THEN conjunct1] p_reload.hyps] inv show ?case by (auto simp: platform_inv_def collectorOpen_def)
qed

lemma platform_inv_run: "(platform_step pf)\<^sup>*\<^sup>* s s' \<Longrightarrow> platform_inv pf (snd s) \<Longrightarrow> platform_inv pf (snd s')"
  by (induction rule: rtranclp_induct) (auto intro: platform_inv_step)

text \<open>The topic only grows.\<close>

lemma topic_step: "platform_step pf s s' \<Longrightarrow> prefix (wTopic (snd s)) (wTopic (snd s'))"
proof (induction rule: platform_step.induct)
  case (p_request env r s rsp s')
  then show ?case using serve_world [of "snd s" pf env r "fst s"] by (simp add: unchanged_def)
qed simp_all

lemma topic_run: "(platform_step pf)\<^sup>*\<^sup>* s s' \<Longrightarrow> prefix (wTopic (snd s)) (wTopic (snd s'))"
  by (induction rule: rtranclp_induct) (auto dest: topic_step intro: prefix_order.trans)

section \<open>A document is accepted\<close>

lemma route_ingest: "routeOf ''POST'' ''/api/v1/documents'' = Inr RIngest"
  by code_simp

lemma route_search: "routeOf ''GET'' ''/api/v1/search'' = Inr RSearch"
  by code_simp

lemma serve_accepted:
  assumes "serve pf env r (l, w) = (rsp, l', w')" and "reqMethod r = ''POST''" and "urlPath r = ''/api/v1/documents''"
    and "rspBody rsp = HandlerBody (IngestBody (Accepted resp))" and "wTopic w' \<noteq> wTopic w"
  shows "\<exists>req. pfDecodeReq pf (reqContent r) = Some req \<and> respShardID resp = bodyShard (reqBody req) \<and>
    wTopic w' = wTopic w @ [(show_int (respShardID resp), pfEncode pf
      \<lparr>evDocumentID = respDocumentID resp, evTitle = reqTitle req, evBody = reqBody req, evShardID = respShardID resp, IngestedAt = rvNow env\<rparr>)]"
proof -
  obtain d l1 where a: "admission (keyCheck pf env) (rvNow env) r (l, w) = (d, l1)" by fastforce
  note G = gateway_admission [of "keyCheck pf env" "rvNow env" r "(l, w)" "rvFresh env" "platformRoutes pf env", unfolded a, folded serve_def,
      unfolded assms(1)]
  obtain ki where d: "d = Inr ki" using G assms(4) by (cases d) auto
  then obtain hs where m: "(rsp, l', w') = setHeaders hs (mux (platformRoutes pf env) r ki (l1, w))" using G by auto
  have mux: "mux (platformRoutes pf env) r ki (l1, w) =
      newProxy (gcIngestionURL (pfGateway pf)) (rvClientIP env) (ingestionBackend pf env) r ki (l1, w)"
    by (simp add: mux_def assms(2,3) route_ingest platformRoutes_def gatewayHandlers_def Let_def)
  let ?r = "outgoing (gcIngestionURL (pfGateway pf)) (rvClientIP env) r"
  have w': "w' = snd (snd (mux (platformRoutes pf env) r ki (l1, w)))" by (metis m setHeaders_simps(3) snd_conv)
  have b: "rspBody rsp = rspBody (fst (mux (platformRoutes pf env) r ki (l1, w)))" by (metis m setHeaders_simps(2) fst_conv)
  obtain rsp1 where bk: "ingestionBackend pf env ?r w = Some (rsp1, w')" and body: "rspBody rsp1 = HandlerBody (IngestBody (Accepted resp))"
    using w' b assms(4) by (auto simp: mux newProxy_def split: option.splits prod.splits)
  let ?pub = "publishEvent (pfEncode pf) (rvKafkaUp env)"
  obtain st reply d' where hi: "handleIngest (pfDecodeReq pf) (pfFindRow pf) (pfInsertRow pf) ?pub (rvNow env) (reqContent r)
      (svRows (wIndexer w)) (wTopic w) = ((st, reply), d', wTopic w')" and rsp1: "rsp1 = ingestResponse (st, reply)"
    using bk assms(5) by (auto simp: ingestionBackend_def ingestionService_def split: if_splits sum.splits ingestion_route.splits prod.splits)
  have "reply = Accepted resp" using body by (cases reply) (auto simp: rsp1 ingestResponse_def writeJSON_def writeError_def)
  then obtain req where req: "pfDecodeReq pf (reqContent r) = Some req"
    "Ingest (pfFindRow pf) (pfInsertRow pf) ?pub (rvNow env) req (svRows (wIndexer w)) (wTopic w) = (Inr resp, d', wTopic w')"
    using hi by (auto simp: handleIngest_def split: option.splits prod.splits sum.splits)
  note I = Ingest_published [OF req(2) assms(5)]
  then show ?thesis using req(1) assms(5) by (auto simp: publishEvent_topic split: if_splits)
qed

section \<open>A search is answered\<close>

definition metricsOk :: "PlatformMetrics option \<Rightarrow> bool" where
  "metricsOk m \<longleftrightarrow> m = None \<or> m = Some platformMetrics"

lemma searchRecord_total: "metricsOk m \<Longrightarrow> \<exists>ml'. searchRecord m d out ml = Some ml'"
  by (auto simp: metricsOk_def searchRecord_entries)
    (auto simp: searchRecord_def recordSearchMetrics_def Let_def split: prod.splits search_reply.splits)

text \<open>The cache has no entry for the query: the executor's result is returned.\<close>

definition cacheMisses :: "'s cache_ops \<Rightarrow> string \<Rightarrow> int \<Rightarrow> (QueryCache \<times> 's) option \<Rightarrow> bool" where
  "cacheMisses ops q limit c \<longleftrightarrow> (c \<noteq> None \<longrightarrow>
     (\<forall>res. \<exists>c'. redisLookup ops q limit (Inr res :: exec_error + SearchResult) c = (Inr (res, False), c')))"

lemma meteredSearch_found:
  assumes "queryGet r ''q'' = q" and "q \<noteq> []" and "searchLimit h (queryGet r ''limit'') = Some limit" and "planTerms (Parse q) \<noteq> []"
    and "execute (Parse q) limit = Inr res" and "\<forall>op. lookup = Some op \<longrightarrow> (\<exists>c1. op q limit (Inr res) c = (Inr (res, False), c1))"
    and "\<forall>cl. col = Some cl \<longrightarrow> \<not> chClosed cl" and "metricsOk m"
  shows "\<exists>c' col' ml'. meteredSearch m h execute lookup dur ms now ident r (c, col, ml) =
    Some ((200, SearchReply (srQuery res) (TotalHits res) (Results res) ms False), c', col', ml')"
proof -
  let ?out = "(200, SearchReply (srQuery res) (TotalHits res) (Results res) ms False)"
  have "\<exists>c1. handleSearch h execute lookup ms now ident r c None = Some (?out, c1, None)"
  proof (cases lookup)
    case None
    then show ?thesis using assms(2-5) by (simp add: handleSearch_def Let_def assms(1))
  next
    case (Some op)
    with assms(6) obtain c1 where "op q limit (Inr res) c = (Inr (res, False), c1)" by blast
    with Some show ?thesis using assms(2-5) by (simp add: handleSearch_def Let_def assms(1))
  qed
  moreover obtain o1 c1 col1 where "handleSearch h execute lookup ms now ident r c None = Some (o1, c1, None)"
    "handleSearch h execute lookup ms now ident r c col = Some (o1, c1, col1)"
    using handleSearch_open [OF assms(7), of h execute lookup ms now ident r c] by (elim exE conjE) simp
  moreover obtain ml' where "searchRecord m dur ?out ml = Some ml'" using searchRecord_total [OF assms(8)] by blast
  ultimately show ?thesis by (auto simp: meteredSearch_def)
qed

lemma searcherService_found:
  fixes s :: "('s, 'r) searcher"
  assumes "queryGet r ''q'' = q" and "q \<noteq> []" and "searchLimit h (queryGet r ''limit'') = Some limit" and "planTerms (Parse q) \<noteq> []"
    and "shardedExecute (GetAllEngines (qsRouter s)) (Parse q) limit = Inr res" and "cacheMisses ops q limit (qsCache s)"
    and "collectorOpen s" and "metricsOk m" and "reqMethod r = ''GET''" and "urlPath r = ''/api/v1/search''" and "\<not> qvTimedOut env"
  shows "\<exists>(rsp :: 'doc service_body response) s'. searcherService h m ops srt served env r s = Some (rsp, s') \<and> rspStatus rsp = 200 \<and>
    rspBody rsp = HandlerBody (SearchBody (SearchReply (srQuery res) (TotalHits res) (Results res) (qvLatencyMs env) False))"
proof -
  define ident where "ident = GetRequestID (requestContext (qvRandom env) r [])"
  have route: "matchMethod ''GET'' (searcherRoutes ''/api/v1/search'') = Inr QSearch" by code_simp
  have mux: "\<exists>s'. searcherMux h m ops srt served env ident r (s\<lparr>qsMetrics := ml\<rparr>) =
      Some (writeJSON 200 (SearchBody (SearchReply (srQuery res) (TotalHits res) (Results res) (qvLatencyMs env) False)) ::
        'doc service_body response, s')" for ml
  proof -
    let ?lk = "(if qsCache s = None then None else Some (redisLookup ops)) :: ((QueryCache \<times> 's) option, exec_error) cache_lookup option"
    have lk: "\<forall>op. ?lk = Some op \<longrightarrow> (\<exists>c1. op q limit (Inr res) (qsCache s) = (Inr (res, False), c1))"
      using assms(6) by (auto simp: cacheMisses_def)
    obtain c' col' ml' where "meteredSearch m h (shardedExecute (GetAllEngines (qsRouter s))) ?lk (qvDuration env) (qvLatencyMs env) (qvNow env)
        ident r (qsCache s, qsCollector s, ml) = Some ((200, SearchReply (srQuery res) (TotalHits res) (Results res) (qvLatencyMs env) False), c', col', ml')"
      using meteredSearch_found [where execute = "shardedExecute (GetAllEngines (qsRouter s))" and lookup = ?lk,
          OF assms(1-5) lk assms(7) [unfolded collectorOpen_def] assms(8)] by blast
    then show ?thesis by (simp add: searcherMux_def assms(9,10) route searchResponse_def)
  qed
  show ?thesis
  proof (cases m)
    case None
    have "s\<lparr>qsMetrics := qsMetrics s\<rparr> = s" by simp
    with mux [of "qsMetrics s"] None assms(11) show ?thesis
      by (auto simp: searcherService_def Let_def ident_def [symmetric] setHeaders_def writeJSON_def)
  next
    case (Some mm)
    then have "m = Some platformMetrics" using assms(8) by (simp add: metricsOk_def)
    with mux [of "qsMetrics s @ [(''http_requests_in_flight'', [], MInc)]"] assms(11) show ?thesis
      by (auto simp: searcherService_def Let_def ident_def [symmetric] setHeaders_def writeJSON_def emit_def httpRecord_def platformMetrics_def)
  qed
qed

lemma serve_found:
  fixes pf :: "('d, 's, 'r, 'doc) platform"
  assumes "admission (keyCheck pf env) (rvNow env) r (l, w) = (Inr ki, l1)" and "reqMethod r = ''GET''" and "urlPath r = ''/api/v1/search''"
    and "uPath (gcSearcherURL (pfGateway pf)) = []" and "rvSearcherUp env" and "\<not> qvTimedOut (rvSearch env)" and "metricsOk (pfMetrics pf)"
    and "collectorOpen (wSearcher w)" and "queryGet r ''q'' = q" and "q \<noteq> []" and "planTerms (Parse q) \<noteq> []"
    and "searchLimit (pfSearch pf) (queryGet r ''limit'') = Some limit"
    and "shardedExecute (GetAllEngines (qsRouter (wSearcher w))) (Parse q) limit = Inr res"
    and "cacheMisses (pfCache pf) q limit (qsCache (wSearcher w))"
  shows "\<exists>rsp w'. serve pf env r (l, w) = (rsp, l1, w') \<and> rspStatus rsp = 200 \<and>
    rspBody rsp = HandlerBody (SearchBody (SearchReply (srQuery res) (TotalHits res) (Results res) (qvLatencyMs (rvSearch env)) False))"
proof -
  let ?r = "outgoing (gcSearcherURL (pfGateway pf)) (rvClientIP env) r"
  have path: "urlPath ?r = ''/api/v1/search''" using outgoing_path [OF assms(4), of r] by (simp add: assms(3) HasPrefix_def)
  obtain s' and rsp1 :: "'doc service_body response" where s': "searcherService (pfSearch pf) (pfMetrics pf) (pfCache pf) (pfSort pf) (pfServed pf)
      (rvSearch env) ?r (wSearcher w) = Some (rsp1, s')" and ok: "rspStatus rsp1 = 200"
    "rspBody rsp1 = HandlerBody (SearchBody (SearchReply (srQuery res) (TotalHits res) (Results res) (qvLatencyMs (rvSearch env)) False))"
    using searcherService_found [where r = ?r and s = "wSearcher w" and h = "pfSearch pf" and ops = "pfCache pf" and m = "pfMetrics pf" and 'doc = 'doc
        and env = "rvSearch env" and srt = "pfSort pf" and served = "pfServed pf" and q = q and limit = limit and res = res]
      assms(2,6-14) path by auto
  have "mux (platformRoutes pf env) r ki (l1, w) = (rsp1, l1, w\<lparr>wSearcher := s'\<rparr>)"
    using s' by (simp add: mux_def assms(2,3,5) route_search platformRoutes_def gatewayHandlers_def Let_def newProxy_def searcherBackend_def)
  moreover obtain hs where "serve pf env r (l, w) = setHeaders hs (mux (platformRoutes pf env) r ki (l1, w))"
    using gateway_admission [of "keyCheck pf env" "rvNow env" r "(l, w)" "rvFresh env" "platformRoutes pf env"] assms(1)
    unfolding serve_def by auto
  ultimately show ?thesis using ok by (simp add: setHeaders_def)
qed

section \<open>What the searcher has loaded stays loaded\<close>

lemma shardPairs_reload:
  assumes "searcher_inv n ((s, now, evs), q)" and "ReloadAll sys (svDisks s) q = Inr (k, q')"
  shows "shardPairs q i \<subseteq> shardPairs q' i"
proof (cases "shardEngine q i")
  case (Some e)
  note R = ReloadAll_shards [OF assms(2)] and inv = searcher_inv_reload [OF assms]
  have "i \<in> fst ` set (rtEngines q')" unfolding set_map [symmetric] R(1)
    using Some by (force simp: shardEngine_def dest: map_of_SomeD)
  then obtain e' where e': "shardEngine q' i = Some e'" by (metis shardEngine_def map_of_eq_None_iff option.exhaust)
  obtain m where m: "ReloadSegments (envReadDir (sys i)) (envOpen (sys i)) (svDisks s i) e = Inr (m, e')"
    using R(3) [OF e'] Some by auto
  have w: "wf_engine e" "wf_engine e'" using assms(1) inv Some e' by (auto simp: searcher_inv_def viewer_def)
  have "memIndex e' = memIndex e \<and> set (readers e) \<subseteq> set (readers e')"
  proof (cases "envReadDir (sys i)")
    case None
    obtain new where "e' = e\<lparr>readers := readers e @ new\<rparr>" by (rule ReloadSegments_readers [OF m [unfolded None]])
    then show ?thesis by simp
  next
    case (Some err)
    then show ?thesis using m by (simp add: ReloadSegments_def)
  qed
  then show ?thesis using Some e' by (auto simp: shardPairs_def foundPairs_wf [OF w(1)] foundPairs_wf [OF w(2)] readerPairs_def)
qed (simp add: shardPairs_def)

lemma loaded_step:
  assumes "platform_step pf s s'" and "platform_inv pf (snd s)"
  shows "shardPairs (qsRouter (wSearcher (snd s))) i \<subseteq> shardPairs (qsRouter (wSearcher (snd s'))) i"
  using assms
proof (induction rule: platform_step.induct)
  case (p_request env r s rsp s')
  then show ?case using serve_world [of "snd s" pf env r "fst s"] by (simp add: unchanged_def)
next
  case (p_reload sys w k q l)
  then show ?case using shardPairs_reload [of totalShards "wIndexer w" "wClock w" "wEvents w" "qsRouter (wSearcher w)" sys k q i]
    by (simp add: platform_inv_def)
qed simp_all

lemma loaded_run:
  assumes "(platform_step pf)\<^sup>*\<^sup>* s s'" and "platform_inv pf (snd s)"
  shows "shardPairs (qsRouter (wSearcher (snd s))) i \<subseteq> shardPairs (qsRouter (wSearcher (snd s'))) i"
  using assms
proof (induction rule: rtranclp_induct)
  case (step s1 s2)
  with platform_inv_run [of pf s s1] loaded_step [of pf s1 s2] show ?case by blast
qed simp

section \<open>Properties\<close>

text \<open>
  A world as the mains leave it: indexer and searcher have opened the same directories of readable segments, and nothing was consumed.
\<close>

definition started :: "('d, 's, 'r) world \<Rightarrow> bool" where
  "started w \<longleftrightarrow> svCount (wIndexer w) = 0 \<and> wEvents w = [] \<and> wDone w = {} \<and> collectorOpen (wSearcher w) \<and>
     (\<exists>disks sys0 mx0 sys1 mx1 disks1. (\<forall>i. goodDir (wClock w) (disks i)) \<and>
        NewRouter sys0 mx0 totalShards disks = (Inr (svRouter (wIndexer w)), svDisks (wIndexer w)) \<and>
        NewRouter sys1 mx1 totalShards disks = (Inr (qsRouter (wSearcher w)), disks1))"

lemma platform_inv_started:
  assumes "started w"
  shows "platform_inv pf w"
proof -
  obtain disks sys0 mx0 sys1 mx1 disks1 where d: "\<forall>i. goodDir (wClock w) (disks i)"
    "NewRouter sys0 mx0 totalShards disks = (Inr (svRouter (wIndexer w)), svDisks (wIndexer w))"
    "NewRouter sys1 mx1 totalShards disks = (Inr (qsRouter (wSearcher w)), disks1)"
    using assms unfolding started_def by blast
  have "(0 :: int) \<le> totalShards" by (simp add: totalShards_def)
  note I = searcher_inv_start [OF this d, of "svRows (wIndexer w)"]
  have "\<lparr>svRouter = svRouter (wIndexer w), svDisks = svDisks (wIndexer w), svRows = svRows (wIndexer w), svCount = 0\<rparr> = wIndexer w"
    using assms by (simp add: started_def)
  then show ?thesis using I assms by (simp add: platform_inv_def started_def)
qed

text \<open>
  A search that can find a document with the given title and body: it reaches the search service with a valid key within its rate and is
  answered in time, its terms are stems that occur in the document, it excludes nothing, and no cached answer is older than the index.
\<close>

definition asksFor ::
  "('d, 's, 'r, 'doc) platform \<Rightarrow> renv \<Rightarrow> request \<Rightarrow> int \<Rightarrow> string \<Rightarrow> string \<Rightarrow> Limiter \<times> ('d, 's, 'r) world \<Rightarrow> bool" where
  "asksFor pf env r limit title body s \<longleftrightarrow>
     (\<exists>ki l. admission (keyCheck pf env) (rvNow env) r s = (Inr ki, l)) \<and> reqMethod r = ''GET'' \<and> urlPath r = ''/api/v1/search'' \<and>
     rvSearcherUp env \<and> \<not> qvTimedOut (rvSearch env) \<and> queryGet r ''q'' \<noteq> [] \<and>
     searchLimit (pfSearch pf) (queryGet r ''limit'') = Some limit \<and>
     (let plan = Parse (queryGet r ''q'')
      in planTerms plan \<noteq> [] \<and> ExcludeTerms plan = [] \<and>
         (\<forall>t \<in> set (planTerms plan). t \<in> set (termsOf title @ termsOf body) \<and> termsOf t = [t] \<and>
            int (length (allShardPostings (GetAllEngines (qsRouter (wSearcher (snd s)))) t)) < maxInt)) \<and>
     cacheMisses (pfCache pf) (queryGet r ''q'') limit (qsCache (wSearcher (snd s)))"

lemma document_found:
  assumes "started w0" and "(platform_step pf)\<^sup>*\<^sup>* (l0, w0) (l1, w1)"
    and "serve pf env1 post (l1, w1) = (rsp1, l2, w2)" and "reqMethod post = ''POST''" and "urlPath post = ''/api/v1/documents''"
    and "rspBody rsp1 = HandlerBody (IngestBody (Accepted resp))" and "wTopic w2 \<noteq> wTopic w1"
    and "\<forall>ev. pfDecode pf (pfEncode pf ev) = Some ev" and "metricsOk (pfMetrics pf)" and "uPath (gcSearcherURL (pfGateway pf)) = []"
    and "(platform_step pf)\<^sup>*\<^sup>* (l2, w2) (l3, w3)" and "length (wTopic w1) \<in> wDone w3"
    and "shardEngine (svRouter (wIndexer w3)) (respShardID resp) = Some e" and "index (memIndex e) = []" and "calm sys"
  shows "\<exists>req k q. pfDecodeReq pf (reqContent post) = Some req \<and>
    ReloadAll sys (svDisks (wIndexer w3)) (qsRouter (wSearcher w3)) = Inr (k, q) \<and>
    (\<forall>env2 get limit l4 w4. (platform_step pf)\<^sup>*\<^sup>* (l3, w3\<lparr>wSearcher := (wSearcher w3)\<lparr>qsRouter := q\<rparr>\<rparr>) (l4, w4) \<and>
        asksFor pf env2 get limit (reqTitle req) (reqBody req) (l4, w4) \<longrightarrow>
      (\<exists>rsp l5 w5 query hitCount docs. serve pf env2 get (l4, w4) = (rsp, l5, w5) \<and> rspStatus rsp = 200 \<and>
        rspBody rsp = HandlerBody (SearchBody (SearchReply query hitCount docs (qvLatencyMs (rvSearch env2)) False)) \<and>
        0 < hitCount \<and> (limit \<le> 0 \<or> hitCount \<le> limit \<longrightarrow> respDocumentID resp \<in> sdDocID ` set docs)))"
proof -
  obtain req where req: "pfDecodeReq pf (reqContent post) = Some req" "respShardID resp = bodyShard (reqBody req)"
    and topic: "wTopic w2 = wTopic w1 @ [(show_int (respShardID resp), pfEncode pf \<lparr>evDocumentID = respDocumentID resp,
      evTitle = reqTitle req, evBody = reqBody req, evShardID = respShardID resp, IngestedAt = rvNow env1\<rparr>)]"
    using serve_accepted [OF assms(3-7)] by blast
  define ev where "ev = \<lparr>evDocumentID = respDocumentID resp, evTitle = reqTitle req, evBody = reqBody req,
    evShardID = respShardID resp, IngestedAt = rvNow env1\<rparr>"
  have "platform_step pf (l1, w1) (l2, w2)" by (rule p_request [OF assms(3)])
  with assms(2,11) have "(platform_step pf)\<^sup>*\<^sup>* (l0, w0) (l3, w3)" by (meson rtranclp.rtrancl_into_rtrancl rtranclp_trans)
  from platform_inv_run [OF this] have inv: "platform_inv pf w3" using platform_inv_started [OF assms(1), of pf] by simp
  have "wTopic w3 ! length (wTopic w1) = (show_int (respShardID resp), pfEncode pf ev)"
    using topic_run [OF assms(11)] by (auto simp: topic ev_def prefix_def nth_append)
  then have "ev \<in> set (wEvents w3)"
    using inv assms(8,12) bodyShard_range [of "reqBody req"] by (force simp: platform_inv_def routed_def req(2) ev_def)
  then have "eventPairs ev \<subseteq> shardPairs (svRouter (wIndexer w3)) (evShardID ev)"
    using inv by (simp add: platform_inv_def searcher_inv_def service_inv_def)
  then have pairs: "eventPairs ev \<subseteq> foundPairs e" by (simp add: shardPairs_def ev_def assms(13))
  obtain k q where q: "ReloadAll sys (svDisks (wIndexer w3)) (qsRouter (wSearcher w3)) = Inr (k, q)"
    and found: "foundPairs e \<subseteq> shardPairs q (respShardID resp)"
    using ReloadAll_all [OF inv [unfolded platform_inv_def, THEN conjunct1] assms(15)] assms(13,14) by blast
  let ?w = "w3\<lparr>wSearcher := (wSearcher w3)\<lparr>qsRouter := q\<rparr>\<rparr>"
  have inv': "platform_inv pf ?w" using platform_inv_step [OF p_reload [OF q]] inv by simp
  have "\<exists>rsp l5 w5 query hitCount docs. serve pf env2 get (l4, w4) = (rsp, l5, w5) \<and> rspStatus rsp = 200 \<and>
      rspBody rsp = HandlerBody (SearchBody (SearchReply query hitCount docs (qvLatencyMs (rvSearch env2)) False)) \<and>
      0 < hitCount \<and> (limit \<le> 0 \<or> hitCount \<le> limit \<longrightarrow> respDocumentID resp \<in> sdDocID ` set docs)"
    if run: "(platform_step pf)\<^sup>*\<^sup>* (l3, ?w) (l4, w4)" and asks: "asksFor pf env2 get limit (reqTitle req) (reqBody req) (l4, w4)"
    for env2 get limit l4 w4
  proof -
    let ?plan = "Parse (queryGet get ''q'')" and ?q = "qsRouter (wSearcher w4)"
    have inv4: "platform_inv pf w4" using platform_inv_run [OF run] inv' by simp
    have w: "wf_router totalShards ?q" using inv4 by (simp add: platform_inv_def searcher_inv_def)
    have "eventPairs ev \<subseteq> shardPairs ?q (respShardID resp)" using pairs found loaded_run [OF run, of "respShardID resp"] inv' by auto
    moreover obtain e4 where e4: "shardEngine ?q (respShardID resp) = Some e4"
      using wf_router_shardEngine(1) [OF w, of "respShardID resp"] bodyShard_range [of "reqBody req"] req(2) by auto
    ultimately have f: "\<forall>t \<in> set (planTerms ?plan). (respDocumentID resp, t) \<in> foundPairs e4 \<and> termsOf t = [t]"
      using asks by (auto simp: asksFor_def Let_def eventPairs_def docPairs_def shardPairs_def ev_def)
    have P: "planTerms ?plan \<noteq> []" "ExcludeTerms ?plan = []"
      "\<forall>t \<in> set (planTerms ?plan). int (length (allShardPostings (GetAllEngines ?q) t)) < maxInt"
      using asks by (auto simp: asksFor_def Let_def)
    obtain res where res: "shardedExecute (GetAllEngines ?q) ?plan limit = Inr res" "0 < TotalHits res"
      "limit \<le> 0 \<or> TotalHits res \<le> limit \<longrightarrow> respDocumentID resp \<in> sdDocID ` set (Results res)"
      using shardedExecute_finds [OF w e4 f P, of limit] by blast
    obtain ki l where "admission (keyCheck pf env2) (rvNow env2) get (l4, w4) = (Inr ki, l)" using asks unfolding asksFor_def by blast
    from serve_found [OF this _ _ assms(10) _ _ assms(9) _ refl _ _ _ res(1)] asks inv4 res(2,3) show ?thesis
      unfolding asksFor_def Let_def platform_inv_def snd_conv by blast
  qed
  with req(1) q show ?thesis by blast
qed


end
