(* ===== verification/Search_Soundness.thy ===== *)
theory Search_Soundness
  imports Searcher_Service
begin

text \<open>
  The searcher finds nothing but what was indexed: every pair of document and term in memory, on disk or loaded by the searcher comes from
  the segments that were on disk at the start or from an event that the indexer routed to that shard.
\<close>

section \<open>What a directory holds\<close>

definition dirPairs :: "dir \<Rightarrow> (string \<times> string) set" where
  "dirPairs d = {(doc, t). \<exists>n \<in> set (segNames d). \<exists>r. OpenReader d n = Inr r \<and> doc \<in> DocID ` set (readerPostings r t)}"

lemma readerPairs_dir:
  assumes "backed now d e"
  shows "readerPairs (readers e) \<subseteq> dirPairs d"
  using assms unfolding backed_def readerPairs_def dirPairs_def by blast

lemma viewer_dir: "viewer now d e \<Longrightarrow> foundPairs e \<subseteq> dirPairs d"
  using readerPairs_dir by (auto simp: viewer_def foundPairs_wf memPairs_empty)

lemma dirPairs_Flush:
  assumes "wf_engine e" and "mem_fits (memIndex e)" and "backed now d x" and "now \<le> nano" and "Flush io flt nano d e = (err, e', d')"
  shows "dirPairs d' \<subseteq> dirPairs d \<union> memPairs (memIndex e)"
proof -
  have m: "wf_mem (memIndex e)" using assms(1) by (simp add: wf_engine_def)
  have dd: "distinct (map fst d)" and fresh: "map_of d (segmentName nano) = None"
    using assms(3,4) by (auto simp: backed_def map_of_eq_None_iff)
  have w: "dirPairs d' \<subseteq> dirPairs d \<union> memPairs (memIndex e)"
    if W: "Write io nano d (Snapshot (memIndex e)) = (Inr (segmentName nano), d')"
  proof -
    note D = Write_Inr_dir [OF dd W fresh] and o = OpenReader_Write [OF wf_entries_Snapshot [OF m assms(2)] W]
    have "readerPostings (imageReader (segmentName nano) (Snapshot (memIndex e))) t = memSearch (memIndex e) t" for t
      using readerPostings_newSegment [OF m assms(2)] by (simp add: newSegment_def)
    then show ?thesis using D o by (auto simp: dirPairs_def memPairs_def)
  qed
  from m assms(2,5) show ?thesis
  proof (cases rule: Flush_cases)
    case (failed werr)
    from Write_Inl_dir [OF dd failed(3)] show ?thesis by (auto simp: dirPairs_def)
  qed (use w in auto)
qed

lemma dirPairs_IndexDocument:
  assumes "wf_engine e" and "mem_fits (AddDocument (memIndex e) docID title body)" and "backed now d x" and "now \<le> nano"
    and "IndexDocument io flt nano d e docID title body = (err, e', d')"
  shows "dirPairs d' \<subseteq> dirPairs d \<union> memPairs (memIndex e) \<union> docPairs docID title body"
  using assms(5)
proof (cases rule: IndexDocument_cases)
  case (flushed err')
  have m: "wf_mem (memIndex e)" using assms(1) by (simp add: wf_engine_def)
  from dirPairs_Flush [OF _ _ assms(3,4) flushed(1)] assms(1,2) show ?thesis
    by (auto simp: wf_engine_def wf_AddDocument memPairs_add [OF m])
qed auto

section \<open>The invariant\<close>

text \<open>What a shard may hold: \<open>P\<close> was there at the start.\<close>

definition mayHold :: "(int \<Rightarrow> (string \<times> string) set) \<Rightarrow> IngestEvent list \<Rightarrow> int \<Rightarrow> (string \<times> string) set" where
  "mayHold P evs i = P i \<union> (\<Union>ev \<in> {ev \<in> set evs. evShardID ev = i}. eventPairs ev)"

definition sound_inv :: "(int \<Rightarrow> (string \<times> string) set) \<Rightarrow> 'd service \<times> int \<times> IngestEvent list \<Rightarrow> bool" where
  "sound_inv P = (\<lambda>(s, now, evs). \<forall>i. dirPairs (svDisks s i) \<subseteq> mayHold P evs i \<and> shardPairs (svRouter s) i \<subseteq> mayHold P evs i)"

lemma mayHold_mono: "set evs \<subseteq> set evs' \<Longrightarrow> mayHold P evs i \<subseteq> mayHold P evs' i"
  by (auto simp: mayHold_def)

lemma sound_inv_update:
  assumes "sound_inv P (s, now, evs)" and "wf_router n (svRouter s)" and "shardEngine (svRouter s) i = Some e" and "wf_engine e'"
    and "svRouter s' = (svRouter s)\<lparr>rtEngines := AList.update i e' (rtEngines (svRouter s))\<rparr>" and "svDisks s' = (svDisks s)(i := d')"
    and "set evs \<subseteq> set evs'" and "foundPairs e' \<subseteq> mayHold P evs' i" and "dirPairs d' \<subseteq> mayHold P evs' i"
  shows "sound_inv P (s', now', evs')"
proof -
  note U = wf_router_update(2) [OF assms(2,3,4), folded assms(5)] and M = mayHold_mono [OF assms(7)]
  have "dirPairs (svDisks s' j) \<subseteq> mayHold P evs' j \<and> shardPairs (svRouter s') j \<subseteq> mayHold P evs' j" for j
  proof (cases "j = i")
    case True
    then show ?thesis using assms(6,8,9) by (simp add: shardPairs_def U)
  next
    case False
    have "shardPairs (svRouter s') j = shardPairs (svRouter s) j" using False by (simp add: shardPairs_def U)
    moreover have "svDisks s' j = svDisks s j" using False assms(6) by simp
    ultimately show ?thesis using assms(1) [unfolded sound_inv_def, simplified, rule_format, of j] M [of P j] by auto
  qed
  then show ?thesis by (simp add: sound_inv_def)
qed

lemma sound_inv_old:
  assumes "sound_inv P (s, now, evs)" and "shardEngine (svRouter s) i = Some e" and "wf_engine e"
  shows "foundPairs e \<subseteq> mayHold P evs i" and "dirPairs (svDisks s i) \<subseteq> mayHold P evs i" and "memPairs (memIndex e) \<subseteq> mayHold P evs i"
proof -
  show "foundPairs e \<subseteq> mayHold P evs i" "dirPairs (svDisks s i) \<subseteq> mayHold P evs i"
    using assms(1) [unfolded sound_inv_def, simplified, rule_format, of i] by (simp_all add: shardPairs_def assms(2))
  then show "memPairs (memIndex e) \<subseteq> mayHold P evs i" by (simp add: foundPairs_wf [OF assms(3)])
qed

lemma sound_inv_step:
  assumes "service_step n decode setStatus (s, now, evs) (s', now', evs')" and "service_inv n (s, now, evs)" and "sound_inv P (s, now, evs)"
  shows "sound_inv P (s', now', evs')"
  using assms(1)
proof (cases rule: service_step.cases)
  case (message env key v err)
  have w: "wf_router n (svRouter s)" using assms(2) by (simp add: service_inv_def)
  obtain r' disks' d' where h: "HandleMessageSharded decode setStatus (env (svCount s)) v (svDisks s) (svRouter s) (svRows s) =
      (err, r', disks', d')" and s': "svRouter s' = r'" "svDisks s' = disks'"
    using message(2) by (auto simp: indexHandler_def split: prod.splits)
  have np: "\<forall>i name. envOpen (env (svCount s) i) name \<noteq> Some ErrPanic" using message(3) by (simp add: clocked_def)
  from w h message(4) np show ?thesis
  proof (cases rule: HandleMessageSharded_cases)
    case skipped
    then show ?thesis using assms(3) s' message(1) by (simp add: sound_inv_def shardPairs_def)
  next
    case (indexed ev e ierr e' disk')
    let ?i = "evShardID ev"
    have e: "wf_engine e" "backed now (svDisks s ?i) e" using assms(2) indexed(3) wf_router_shardEngine(2) [OF w] by (auto simp: service_inv_def)
    have t: "now \<le> envNano (env (svCount s) ?i)" using message(3) by (simp add: clocked_def)
    have ev: "evs' = evs @ [ev]" using message(1) indexed(2) by simp
    then have new: "mayHold P evs ?i \<subseteq> mayHold P evs' ?i" "docPairs (evDocumentID ev) (evTitle ev) (evBody ev) \<subseteq> mayHold P evs' ?i"
      by (auto simp: mayHold_def eventPairs_def)
    note old = sound_inv_old [OF assms(3) indexed(3) e(1)]
    have "foundPairs e' \<subseteq> mayHold P evs' ?i"
      unfolding foundPairs_IndexDocument [OF e(1) indexed(4,5)] using old(1) new by blast
    moreover have "dirPairs disk' \<subseteq> mayHold P evs' ?i"
      using dirPairs_IndexDocument [OF e(1) indexed(4) e(2) t indexed(5)] old(2,3) new by blast
    ultimately show ?thesis
      by (intro sound_inv_update [OF assms(3) w indexed(3) IndexDocument_postings(1) [OF e(1) indexed(4,5)]])
        (auto simp: s' indexed(6,7) ev)
  qed
next
  case (tick i e nano io flt err e' d')
  have w: "wf_router n (svRouter s)" and b: "backed now (svDisks s i) e" using assms(2) tick(4) by (auto simp: service_inv_def)
  have e: "wf_engine e" by (rule wf_router_shardEngine(2) [OF w tick(4)])
  note old = sound_inv_old [OF assms(3) tick(4) e]
  have "foundPairs e' \<subseteq> mayHold P evs i" unfolding foundPairs_Flush [OF e tick(6,8)] by (rule old(1))
  moreover have "dirPairs d' \<subseteq> mayHold P evs i" using dirPairs_Flush [OF e tick(6) b tick(7,8)] old(2,3) by blast
  ultimately show ?thesis
    by (intro sound_inv_update [OF assms(3) w tick(4) wf_engine_Flush [OF e tick(6,8)]]) (simp_all add: tick(1-3))
qed

lemma sound_inv_start:
  assumes "service_inv n (s, now, [])" and "\<And>i e. shardEngine (svRouter s) i = Some e \<Longrightarrow> index (memIndex e) = []"
  shows "sound_inv (\<lambda>i. dirPairs (svDisks s i)) (s, now, [])"
proof -
  have "shardPairs (svRouter s) i \<subseteq> dirPairs (svDisks s i)" for i
  proof (cases "shardEngine (svRouter s) i")
    case (Some e)
    then have "viewer now (svDisks s i) e"
      using assms wf_router_shardEngine(2) by (fastforce simp: viewer_def service_inv_def)
    from viewer_dir [OF this] Some show ?thesis by (simp add: shardPairs_def)
  qed (simp add: shardPairs_def)
  then show ?thesis by (simp add: sound_inv_def mayHold_def)
qed

text \<open>The searcher holds what the directories hold.\<close>

lemma searcher_sound:
  assumes "searcher_inv n ((s, now, evs), q)" and "sound_inv P (s, now, evs)"
  shows "shardPairs q i \<subseteq> mayHold P evs i"
proof (cases "shardEngine q i")
  case (Some e)
  then have "viewer now (svDisks s i) e" using assms(1) by (simp add: searcher_inv_def)
  from viewer_dir [OF this] assms(2) Some show ?thesis by (auto simp: shardPairs_def sound_inv_def)
qed (simp add: shardPairs_def)

end
