(* ===== verification/Platform_Soundness.thy ===== *)
theory Platform_Soundness
  imports Platform Search_Soundness
begin

text \<open>
  What a search through the gateway lists is there for a reason: every listed document was on disk when the services started, was queued then,
  or was posted through the gateway since.
\<close>

section \<open>What a query lists\<close>

lemma matchSet_term: "x \<in> matchSet H plan \<Longrightarrow> \<exists>t \<in> set (planTerms plan). x \<in> H t"
  by (cases "Type plan") (auto simp: matchSet_def Let_def split: if_splits)

lemma matchSet_within: "(\<And>t. H t \<subseteq> D) \<Longrightarrow> matchSet H plan \<subseteq> D"
  using matchSet_term [of _ H plan] by blast

lemma shardedExecute_lists:
  assumes "shardedExecute shards plan limit = Inr res" and "\<forall>s \<in> set shards. wf_engine (snd s)"
    and "\<forall>t \<in> set (planTerms plan). int (length (allShardPostings shards t)) < maxInt" and "x \<in> sdDocID ` set (Results res)"
  shows "\<exists>t \<in> set (planTerms plan). x \<in> DocID ` set (allShardPostings shards t)"
proof (cases "planTerms plan = []")
  case True
  then show ?thesis using assms(1,4) by (auto simp: shardedExecute_def emptyResult_def)
next
  case False
  let ?M = "matchSet (\<lambda>t. DocID ` set (allShardPostings shards t)) plan"
  obtain m st el where h: "holds (set (planTerms plan)) (allShardPostings shards) m"
    and ex: "shardedExecute shards plan limit = Inr \<lparr>srQuery = RawQuery plan, TotalHits = int (card ?M),
        Results = Rank (filterPostings ?M m) (globalParams shards) (\<lambda>docID. case el docID of Some eng \<Rightarrow> GetDocLength eng docID | None \<Rightarrow> 0) limit,
        TermStats = st\<rparr>"
    by (rule shardedExecute_wf [OF assms(2,3) False])
  have "set (Rank fp par info limit) \<subseteq> set (Rank fp par info 0)" for fp par and info :: "string \<Rightarrow> int"
    by (subst Rank_limit) (simp add: set_take_subset)
  then have "x \<in> ?M" using assms(1,4) ex sdDocID_Rank [of "filterPostings ?M m"] Rank_match [OF h] by fastforce
  then show ?thesis using matchSet_term by fastforce
qed

text \<open>The executor passes a term through the tokenizer once more and looks up its first token.\<close>

lemma postingsOf_found: "d \<in> DocID ` set (postingsOf e t) \<Longrightarrow> \<exists>u us. termsOf t = u # us \<and> (d, u) \<in> foundPairs e"
proof -
  assume "d \<in> DocID ` set (postingsOf e t)"
  then obtain ps where "Search e t = Inr ps" "d \<in> DocID ` set ps" by (cases "Search e t") (auto simp: postingsOf_def)
  then show ?thesis by (cases "Tokenize t") (auto simp: Search_def foundPairs_def termsOf_def)
qed

lemma shardedExecute_pairs:
  assumes "shardedExecute (GetAllEngines r) plan limit = Inr res" and "wf_router n r"
    and "\<forall>t \<in> set (planTerms plan). int (length (allShardPostings (GetAllEngines r) t)) < maxInt" and "x \<in> sdDocID ` set (Results res)"
  shows "\<exists>t \<in> set (planTerms plan). \<exists>u us i. termsOf t = u # us \<and> (x, u) \<in> shardPairs r i"
proof -
  have "\<forall>s \<in> set (GetAllEngines r). wf_engine (snd s)" using assms(2) by (auto simp: wf_router_def GetAllEngines_def)
  from shardedExecute_lists [OF assms(1) this assms(3,4)] obtain t where t: "t \<in> set (planTerms plan)"
    "x \<in> DocID ` set (allShardPostings (GetAllEngines r) t)" by blast
  then obtain i e where e: "(i, e) \<in> set (rtEngines r)" "x \<in> DocID ` set (postingsOf e t)"
    by (fastforce simp: allShardPostings_def GetAllEngines_def)
  then have "shardEngine r i = Some e" using assms(2) by (simp add: shardEngine_def wf_router_def)
  then have "shardPairs r i = foundPairs e" by (simp add: shardPairs_def)
  with t(1) postingsOf_found [OF e(2)] show ?thesis by metis
qed

section \<open>What the topic holds\<close>

text \<open>A request publishes at most one message, which holds the title and body that it posted.\<close>

definition postedEvent :: "('d, 's, 'r, 'doc) platform \<Rightarrow> request \<Rightarrow> string \<Rightarrow> bool" where
  "postedEvent pf r v \<longleftrightarrow> (\<exists>req ev. pfDecodeReq pf (reqContent r) = Some req \<and> v = pfEncode pf ev \<and>
     evTitle ev = reqTitle req \<and> evBody ev = reqBody req \<and> evShardID ev = bodyShard (reqBody req))"

definition publishes :: "('d, 's, 'r, 'doc) platform \<Rightarrow> request \<Rightarrow> ('d, 's, 'r) world \<Rightarrow> ('d, 's, 'r) world \<Rightarrow> bool" where
  "publishes pf r w w' \<longleftrightarrow> wTopic w' = wTopic w \<or> (\<exists>key v. wTopic w' = wTopic w @ [(key, v)] \<and> postedEvent pf r v)"

lemma publishes_same: "wTopic w' = wTopic w \<Longrightarrow> publishes pf r w w'"
  by (simp add: publishes_def)

lemma Ingest_failed:
  "Ingest findRow insertRow publish now req d k = (Inl err, d', k') \<Longrightarrow> k' = k"
  by (auto simp: Ingest_def Let_def split: option.splits sum.splits prod.splits if_splits db_insert.splits)

lemma handleIngest_publishes:
  assumes "handleIngest (pfDecodeReq pf) findRow insertRow (publishEvent (pfEncode pf) up) now (reqContent r) d (wTopic w) = (out, d', wTopic w')"
  shows "publishes pf r w w'"
proof (cases "wTopic w' = wTopic w")
  case False
  obtain req resp where req: "pfDecodeReq pf (reqContent r) = Some req"
    and I: "Ingest findRow insertRow (publishEvent (pfEncode pf) up) now req d (wTopic w) = (Inr resp, d', wTopic w')"
    using assms False
    by (auto simp: handleIngest_def dest: Ingest_failed split: option.splits sum.splits prod.splits)
  let ?ev = "\<lparr>evDocumentID = respDocumentID resp, evTitle = reqTitle req, evBody = reqBody req, evShardID = respShardID resp, IngestedAt = now\<rparr>"
  have "wTopic w' = wTopic w @ [(show_int (respShardID resp), pfEncode pf ?ev)]"
    using Ingest_published(1) [OF I False] False by (auto simp: publishEvent_topic split: if_splits)
  moreover have "postedEvent pf r (pfEncode pf ?ev)"
    unfolding postedEvent_def using req Ingest_published(2) [OF I False] by (intro exI [of _ req] exI [of _ ?ev]) simp
  ultimately show ?thesis unfolding publishes_def by blast
qed (rule publishes_same)

lemma ingestionBackend_publishes: "ingestionBackend pf env r w = Some (rsp, w') \<Longrightarrow> publishes pf r w w'"
proof -
  assume b: "ingestionBackend pf env r w = Some (rsp, w')"
  consider (same) "wTopic w' = wTopic w"
    | (ingest) out d' where "handleIngest (pfDecodeReq pf) (pfFindRow pf) (pfInsertRow pf) (publishEvent (pfEncode pf) (rvKafkaUp env)) (rvNow env)
        (reqContent r) (svRows (wIndexer w)) (wTopic w) = (out, d', wTopic w')"
    using b by (auto simp: ingestionBackend_def ingestionService_def split: if_splits sum.splits ingestion_route.splits prod.splits)
  then show ?thesis by cases (auto intro: publishes_same handleIngest_publishes)
qed

lemma newProxy_publishes:
  assumes "\<And>rsp w'. backend (outgoing target ip r) w = Some (rsp, w') \<Longrightarrow> publishes pf r w w'"
  shows "publishes pf r w (snd (snd (newProxy target ip backend r info (l, w))))"
  using assms by (auto simp: newProxy_def publishes_def split: option.splits)

lemma platformRoutes_publishes: "publishes pf r w (snd (snd (platformRoutes pf env rt r info (l, w))))"
proof -
  have "wTopic (snd (CreateAPIKey pd (goCreateKey (worldOps g)) CreatedBody now dec w)) = wTopic w" for pd g now dec
    by (rule CreateAPIKey_world [where R = "\<lambda>w w'. wTopic w' = wTopic w"]) (auto simp: worldOps_def split: prod.splits)
  note c = publishes_same [OF this]
  have i: "publishes pf r w w'" if "ingestionBackend pf env (outgoing u ip r) w = Some (rsp, w')" for u ip rsp w'
    using ingestionBackend_publishes [OF that] by (simp add: publishes_def postedEvent_def outgoing_def)
  have s: "publishes pf r w w'" if "searcherBackend pf env (outgoing u ip r) w = Some (rsp, w')" for u ip rsp w'
    using that by (auto simp: searcherBackend_def publishes_def split: if_splits)
  note p = newProxy_publishes [where backend = "ingestionBackend pf env", OF i] newProxy_publishes [where backend = "searcherBackend pf env", OF s]
  show ?thesis
    using c p by (cases rt) (simp_all add: platformRoutes_def gatewayHandlers_def publishes_same case_prod_beta Let_def)
qed

lemma serve_publishes: "publishes pf r w (snd (snd (serve pf env r (l, w))))"
proof -
  obtain d l1 where a: "admission (keyCheck pf env) (rvNow env) r (l, w) = (d, l1)" by fastforce
  note G = gateway_admission [of "keyCheck pf env" "rvNow env" r "(l, w)" "rvFresh env" "platformRoutes pf env", unfolded a, folded serve_def]
  have "publishes pf r w (snd (snd (mux (platformRoutes pf env) r ki (l1, w))))" for ki
    by (simp add: mux_def publishes_same platformRoutes_publishes split: sum.splits)
  then show ?thesis using G by (cases d) (auto simp: publishes_same)
qed

section \<open>Where events come from\<close>

text \<open>The message \<open>v\<close> was published by a request with content \<open>req\<close> between two states of a run.\<close>

definition postedDuring ::
  "('d, 's, 'r, 'doc) platform \<Rightarrow> Limiter \<times> ('d, 's, 'r) world \<Rightarrow> Limiter \<times> ('d, 's, 'r) world \<Rightarrow> IngestRequest \<Rightarrow> string \<Rightarrow> bool" where
  "postedDuring pf s0 s1 req v \<longleftrightarrow> (\<exists>env r sa rsp sb ev. (platform_step pf)\<^sup>*\<^sup>* s0 sa \<and> serve pf env r sa = (rsp, sb) \<and>
     (platform_step pf)\<^sup>*\<^sup>* sb s1 \<and> pfDecodeReq pf (reqContent r) = Some req \<and> v = pfEncode pf ev \<and>
     evTitle ev = reqTitle req \<and> evBody ev = reqBody req)"

text \<open>
  What a run from \<open>s0\<close> keeps: shards hold what was on disk or what an event brought, each event is a consumed message, and each message
  was in the topic or was posted.
\<close>

definition origin_inv :: "('d, 's, 'r, 'doc) platform \<Rightarrow> Limiter \<times> ('d, 's, 'r) world \<Rightarrow> Limiter \<times> ('d, 's, 'r) world \<Rightarrow> bool" where
  "origin_inv pf s0 s \<longleftrightarrow>
     sound_inv (\<lambda>i. dirPairs (svDisks (wIndexer (snd s0)) i)) (wIndexer (snd s), wClock (snd s), wEvents (snd s)) \<and>
     (\<forall>ev \<in> set (wEvents (snd s)). \<exists>j \<in> wDone (snd s). j < length (wTopic (snd s)) \<and> pfDecode pf (snd (wTopic (snd s) ! j)) = Some ev) \<and>
     (\<forall>j < length (wTopic (snd s)). length (wTopic (snd s0)) \<le> j \<longrightarrow> (\<exists>req. postedDuring pf s0 s req (snd (wTopic (snd s) ! j))))"

lemma postedDuring_later: "postedDuring pf s0 s req v \<Longrightarrow> platform_step pf s s' \<Longrightarrow> postedDuring pf s0 s' req v"
  unfolding postedDuring_def using rtranclp.rtrancl_into_rtrancl [of "platform_step pf" _ s s'] by blast

lemma sound_inv_rows: "sound_inv P (s\<lparr>svRows := d\<rparr>, now, evs) = sound_inv P (s, now, evs)"
  by (simp add: sound_inv_def)

lemma origin_inv_same:
  assumes "origin_inv pf s0 s" and "platform_step pf s s'" and "wTopic (snd s') = wTopic (snd s)"
    and "sound_inv (\<lambda>i. dirPairs (svDisks (wIndexer (snd s0)) i)) (wIndexer (snd s'), wClock (snd s'), wEvents (snd s'))"
    and "\<forall>ev \<in> set (wEvents (snd s')). ev \<in> set (wEvents (snd s)) \<or>
      (\<exists>j \<in> wDone (snd s'). j < length (wTopic (snd s)) \<and> pfDecode pf (snd (wTopic (snd s) ! j)) = Some ev)"
    and "wDone (snd s) \<subseteq> wDone (snd s')"
  shows "origin_inv pf s0 s'"
  using assms(1,4-6) postedDuring_later [OF _ assms(2)] unfolding origin_inv_def assms(3) by blast

lemma origin_inv_step:
  assumes "platform_step pf s s'" and "platform_inv pf (snd s)" and "origin_inv pf s0 s" and "(platform_step pf)\<^sup>*\<^sup>* s0 s"
  shows "origin_inv pf s0 s'"
  using assms(1)
proof (cases rule: platform_step.cases)
  case (p_request env r rsp)
  have u: "unchanged (snd s) (snd s')" using serve_world [of "snd s" pf env r "fst s"] p_request by simp
  note o = assms(3) [unfolded origin_inv_def]
  have sound: "sound_inv (\<lambda>i. dirPairs (svDisks (wIndexer (snd s0)) i)) (wIndexer (snd s'), wClock (snd s'), wEvents (snd s'))"
    using o u by (auto simp: unchanged_def sound_inv_rows)
  have e: "wEvents (snd s') = wEvents (snd s)" "wDone (snd s') = wDone (snd s)" using u by (simp_all add: unchanged_def)
  have "publishes pf r (snd s) (snd s')" using serve_publishes [of pf r "snd s" env "fst s"] p_request by simp
  then consider "wTopic (snd s') = wTopic (snd s)" | (new) key v where "wTopic (snd s') = wTopic (snd s) @ [(key, v)]" "postedEvent pf r v"
    unfolding publishes_def by blast
  then show ?thesis
  proof cases
    case 1
    then show ?thesis by (intro origin_inv_same [OF assms(3,1)]) (simp_all add: e sound [simplified e])
  next
    case new
    have "\<exists>req. postedDuring pf s0 s' req (snd (wTopic (snd s') ! j))"
      if j: "j < length (wTopic (snd s'))" "length (wTopic (snd s0)) \<le> j" for j
    proof (cases "j < length (wTopic (snd s))")
      case True
      then have "\<exists>req. postedDuring pf s0 s req (snd (wTopic (snd s) ! j))" using o j by blast
      then obtain req where "postedDuring pf s0 s' req (snd (wTopic (snd s) ! j))" using postedDuring_later [OF _ assms(1)] by blast
      moreover have "wTopic (snd s') ! j = wTopic (snd s) ! j" using True by (simp add: new(1) nth_append)
      ultimately show ?thesis by auto
    next
      case False
      then have v: "snd (wTopic (snd s') ! j) = v" using j by (simp add: new(1) nth_append)
      show ?thesis unfolding v using new(2) p_request assms(4) unfolding postedEvent_def postedDuring_def by blast
    qed
    moreover have "\<exists>j \<in> wDone (snd s'). j < length (wTopic (snd s')) \<and> pfDecode pf (snd (wTopic (snd s') ! j)) = Some ev"
      if "ev \<in> set (wEvents (snd s'))" for ev
    proof -
      obtain j where "j \<in> wDone (snd s)" "j < length (wTopic (snd s))" "pfDecode pf (snd (wTopic (snd s) ! j)) = Some ev"
        using o \<open>ev \<in> set (wEvents (snd s'))\<close> unfolding e by blast
      then show ?thesis by (intro bexI [of _ j]) (simp_all add: new(1) e nth_append)
    qed
    ultimately show ?thesis using sound unfolding origin_inv_def by blast
  qed
next
  case (p_message i w key v env err sv now' l)
  note inv = assms(2) [unfolded platform_inv_def searcher_inv_def] and o = assms(3) [unfolded origin_inv_def]
  have st: "service_step totalShards (pfDecode pf) (pfSetStatus pf) (wIndexer w, wClock w, wEvents w)
      (sv, now', wEvents w @ routed totalShards (pfDecode pf v))"
    by (rule message [OF p_message(6-8)])
  have "sound_inv (\<lambda>i. dirPairs (svDisks (wIndexer (snd s0)) i)) (sv, now', wEvents w @ routed totalShards (pfDecode pf v))"
    by (rule sound_inv_step [OF st]) (use inv o p_message(1) in auto)
  moreover have "pfDecode pf (snd (wTopic w ! i)) = Some ev" if "ev \<in> set (routed totalShards (pfDecode pf v))" for ev
    using that p_message(5) by (auto simp: routed_def split: option.splits if_splits)
  ultimately show ?thesis
    by (intro origin_inv_same [OF assms(3,1)]) (use p_message in auto)
next
  case (p_flush w i e nano io flt err e' d' l)
  note inv = assms(2) [unfolded platform_inv_def searcher_inv_def] and o = assms(3) [unfolded origin_inv_def]
  note st = tick [where decode = "pfDecode pf" and setStatus = "pfSetStatus pf" and n = totalShards and evs = "wEvents w", OF p_flush(3-7)]
  have "sound_inv (\<lambda>i. dirPairs (svDisks (wIndexer (snd s0)) i)) ((wIndexer w)\<lparr>
        svRouter := (svRouter (wIndexer w))\<lparr>rtEngines := AList.update i e' (rtEngines (svRouter (wIndexer w)))\<rparr>,
        svDisks := (svDisks (wIndexer w))(i := d')\<rparr>, nano + 1, wEvents w)"
    by (rule sound_inv_step [OF st]) (use inv o p_flush(1) in auto)
  then show ?thesis by (intro origin_inv_same [OF assms(3,1)]) (use p_flush in auto)
next
  case (p_reload sys w k q l)
  then show ?thesis by (intro origin_inv_same [OF assms(3,1)]) (use assms(3) in \<open>auto simp: origin_inv_def\<close>)
qed

lemma origin_inv_started:
  assumes "started (snd s0)"
  shows "origin_inv pf s0 s0"
proof -
  let ?x = "wIndexer (snd s0)"
  have inv: "service_inv totalShards (?x, wClock (snd s0), [])"
    using platform_inv_started [OF assms, of pf] assms by (simp add: platform_inv_def searcher_inv_def started_def)
  have "index (memIndex e) = []" if e: "shardEngine (svRouter ?x) i = Some e" for i e
  proof -
    obtain disks sys0 mx0 where n: "NewRouter sys0 mx0 totalShards disks = (Inr (svRouter ?x), svDisks ?x)"
      using assms unfolding started_def by blast
    have "0 \<le> i \<and> i < totalShards" using inv wf_router_shardEngine(1) [of totalShards "svRouter ?x" i] e by (simp add: service_inv_def)
    from NewRouter_ok(5) [OF n _ this] e have "memIndex e = NewMemoryIndex" using NewEngine_readers(1) by (fastforce simp: totalShards_def)
    then show ?thesis by (simp add: NewMemoryIndex_def)
  qed
  from sound_inv_start [OF inv this] show ?thesis using assms by (simp add: origin_inv_def started_def)
qed

lemma origin_inv_run:
  assumes "(platform_step pf)\<^sup>*\<^sup>* s0 s" and "started (snd s0)"
  shows "origin_inv pf s0 s"
  using assms(1)
proof (induction rule: rtranclp_induct)
  case (step s1 s2)
  have "platform_inv pf (snd s1)" by (rule platform_inv_run [OF step.hyps(1) platform_inv_started [OF assms(2)]])
  from origin_inv_step [OF step.hyps(2) this step.IH step.hyps(1)] show ?case .
qed (rule origin_inv_started [OF assms(2)])

section \<open>What a search returns\<close>

lemma meteredSearch_None:
  assumes "meteredSearch m h execute None dur ms now ident r (c, col, ml) = Some ((status, SearchReply query hitCount docs lat cached), c', col', ml')"
  shows "\<exists>limit res. execute (Parse (queryGet r ''q'')) limit = Inr res \<and> docs = Results res \<and> hitCount = TotalHits res"
proof -
  obtain c1 col1 where "handleSearch h execute None ms now ident r c col = Some ((status, SearchReply query hitCount docs lat cached), c1, col1)"
    using assms by (auto simp: meteredSearch_def split: Option.bind_splits)
  then show ?thesis
    by (cases "execute (Parse (queryGet r ''q'')) (the (searchLimit h (queryGet r ''limit'')))")
      (auto simp: handleSearch_def Let_def split: if_splits option.splits)
qed

lemma searcherMux_results:
  fixes rsp :: "'doc service_body response"
  assumes "searcherMux h m ops srt served env ident r s = Some (rsp, s')" and "reqMethod r = ''GET''" and "urlPath r = ''/api/v1/search''"
    and "qsCache s = None" and "rspBody rsp = HandlerBody (SearchBody (SearchReply query hitCount docs lat cached))"
  shows "\<exists>limit res. shardedExecute (GetAllEngines (qsRouter s)) (Parse (queryGet r ''q'')) limit = Inr res \<and> docs = Results res \<and> hitCount = TotalHits res"
proof -
  have route: "matchMethod ''GET'' (searcherRoutes ''/api/v1/search'') = Inr QSearch" by code_simp
  obtain out c col ml where ms: "meteredSearch m h (shardedExecute (GetAllEngines (qsRouter s))) (None :: ((QueryCache \<times> 'a) option, exec_error) cache_lookup option)
      (qvDuration env) (qvLatencyMs env) (qvNow env) ident r (None, qsCollector s, qsMetrics s) = Some (out, c, col, ml)"
    and rsp: "rsp = searchResponse out"
    using assms(1) by (auto simp: searcherMux_def assms(2-4) route)
  have "snd out = SearchReply query hitCount docs lat cached"
    using assms(5) by (cases out; cases "snd out") (auto simp: rsp searchResponse_def writeJSON_def writeError_def)
  then obtain st where "out = (st, SearchReply query hitCount docs lat cached)" by (cases out) auto
  from meteredSearch_None [OF ms [unfolded this]] show ?thesis .
qed

lemma searcherService_results:
  fixes rsp :: "'doc service_body response"
  assumes "searcherService h m ops srt served env r s = Some (rsp, s')" and "reqMethod r = ''GET''" and "urlPath r = ''/api/v1/search''"
    and "qsCache s = None" and "rspBody rsp = HandlerBody (SearchBody (SearchReply query hitCount docs lat cached))"
  shows "\<exists>limit res. shardedExecute (GetAllEngines (qsRouter s)) (Parse (queryGet r ''q'')) limit = Inr res \<and> docs = Results res \<and> hitCount = TotalHits res"
proof -
  define ident where "ident = GetRequestID (requestContext (qvRandom env) r [])"
  have "\<exists>ml (rsp1 :: 'doc service_body response) s1. searcherMux h m ops srt served env ident r (s\<lparr>qsMetrics := ml\<rparr>) = Some (rsp1, s1) \<and>
      rspBody rsp = rspBody (if qvTimedOut env then timeoutResponse else rsp1)"
  proof (cases m)
    case None
    then obtain rsp1 :: "'doc service_body response" and s1 where "searcherMux h m ops srt served env ident r s = Some (rsp1, s1)"
      "rspBody rsp = rspBody (if qvTimedOut env then timeoutResponse else rsp1)"
      using assms(1) by (auto simp: searcherService_def Let_def setHeaders_def ident_def [symmetric])
    moreover have "s\<lparr>qsMetrics := qsMetrics s\<rparr> = s" by simp
    ultimately show ?thesis by metis
  next
    case (Some mm)
    with assms(1) show ?thesis
      by (auto simp: searcherService_def Let_def setHeaders_def ident_def [symmetric] split: Option.bind_splits prod.splits) blast+
  qed
  then obtain ml s1 and rsp1 :: "'doc service_body response" where x: "searcherMux h m ops srt served env ident r (s\<lparr>qsMetrics := ml\<rparr>) = Some (rsp1, s1)"
    "rspBody rsp = rspBody (if qvTimedOut env then timeoutResponse else rsp1)" by blast
  have "rspBody rsp1 = HandlerBody (SearchBody (SearchReply query hitCount docs lat cached))"
    using x(2) assms(5) by (auto simp: timeoutResponse_def split: if_splits)
  from searcherMux_results [OF x(1) assms(2,3) _ this] assms(4) show ?thesis by simp
qed

lemma serve_results:
  assumes "serve pf env r (l, w) = (rsp, l', w')" and "reqMethod r = ''GET''" and "urlPath r = ''/api/v1/search''"
    and "uPath (gcSearcherURL (pfGateway pf)) = []" and "qsCache (wSearcher w) = None"
    and "rspBody rsp = HandlerBody (SearchBody (SearchReply query hitCount docs lat cached))"
  shows "\<exists>limit res. shardedExecute (GetAllEngines (qsRouter (wSearcher w))) (Parse (queryGet r ''q'')) limit = Inr res \<and> docs = Results res \<and> hitCount = TotalHits res"
proof -
  obtain d l1 where a: "admission (keyCheck pf env) (rvNow env) r (l, w) = (d, l1)" by fastforce
  note G = gateway_admission [of "keyCheck pf env" "rvNow env" r "(l, w)" "rvFresh env" "platformRoutes pf env", unfolded a, folded serve_def,
      unfolded assms(1)]
  obtain ki where d: "d = Inr ki" using G assms(6) by (cases d) auto
  then obtain hs where m: "(rsp, l', w') = setHeaders hs (mux (platformRoutes pf env) r ki (l1, w))" using G by auto
  have mux: "mux (platformRoutes pf env) r ki (l1, w) =
      newProxy (gcSearcherURL (pfGateway pf)) (rvClientIP env) (searcherBackend pf env) r ki (l1, w)"
    by (simp add: mux_def assms(2,3) route_search platformRoutes_def gatewayHandlers_def Let_def)
  let ?r = "outgoing (gcSearcherURL (pfGateway pf)) (rvClientIP env) r"
  have path: "urlPath ?r = ''/api/v1/search''" "reqMethod ?r = ''GET''" "queryGet ?r = queryGet r"
    using outgoing_path [OF assms(4), of r] assms(2,3) by (simp_all add: HasPrefix_def outgoing_def)
  have b: "rspBody rsp = rspBody (fst (mux (platformRoutes pf env) r ki (l1, w)))" by (metis m setHeaders_simps(2) fst_conv)
  obtain rsp1 q where s: "searcherService (pfSearch pf) (pfMetrics pf) (pfCache pf) (pfSort pf) (pfServed pf) (rvSearch env) ?r (wSearcher w) = Some (rsp1, q)"
    and body: "rspBody rsp = rspBody rsp1"
    using b assms(6) by (auto simp: mux newProxy_def searcherBackend_def split: option.splits prod.splits if_splits)
  note body = assms(6) [unfolded body]
  from searcherService_results [OF s path(2,1) assms(5) body] show ?thesis by (simp add: path(3))
qed

section \<open>Soundness of search\<close>


end
