(* ===== verification/Platform_Run.thy ===== *)
theory Platform_Run
  imports Platform_Soundness
begin

text \<open>
  A run of the whole platform from empty directories: a document is posted, consumed, flushed, loaded and found. It shows that the hypotheses
  of the properties of the platform can hold together.
\<close>

section \<open>A run\<close>

text \<open>A platform with an empty database in which every key is valid. Events are encoded with each field preceded by its length in unary.\<close>

definition enc :: "string \<Rightarrow> string" where
  "enc s = replicate (length s) CHR ''1'' @ CHR '':'' # s"

definition dec :: "string \<Rightarrow> string \<times> string" where
  "dec s = (let n = length (takeWhile (\<lambda>c. c = CHR ''1'') s) in (take n (drop (n + 1) s), drop (2 * n + 1) s))"

definition encInt :: "int \<Rightarrow> string" where
  "encInt i = (if i < 0 then CHR ''-'' # replicate (nat (- i)) CHR ''1'' else replicate (nat i) CHR ''1'')"

definition decInt :: "string \<Rightarrow> int" where
  "decInt s = (case s of c # cs \<Rightarrow> (if c = CHR ''-'' then - int (length cs) else int (length s)) | [] \<Rightarrow> 0)"

definition encodeEvent :: "IngestEvent \<Rightarrow> string" where
  "encodeEvent ev = enc (evDocumentID ev) @ enc (evTitle ev) @ enc (evBody ev) @ enc (encInt (evShardID ev)) @ enc (encInt (IngestedAt ev))"

definition decodeEvent :: "string \<Rightarrow> IngestEvent option" where
  "decodeEvent s =
     (let (i, s) = dec s; (t, s) = dec s; (b, s) = dec s; (n, s) = dec s; (a, s) = dec s
      in Some \<lparr>evDocumentID = i, evTitle = t, evBody = b, evShardID = decInt n, IngestedAt = decInt a\<rparr>)"

lemma dec_enc: "dec (enc s @ rest) = (s, rest)"
proof -
  have "takeWhile (\<lambda>c. c = CHR ''1'') (replicate n CHR ''1'' @ CHR '':'' # r) = replicate n CHR ''1''" for n r
    by (induction n) simp_all
  then have "length (takeWhile (\<lambda>c. c = CHR ''1'') (enc s @ rest)) = length s" by (simp add: enc_def)
  then show ?thesis by (simp add: dec_def Let_def enc_def)
qed

lemma decInt_encInt: "decInt (encInt i) = i"
  by (cases "i < 0"; cases "nat i") (auto simp: decInt_def encInt_def)

lemma decodeEvent_encodeEvent: "decodeEvent (encodeEvent ev) = Some ev"
proof -
  have "dec (enc s) = (s, [])" for s using dec_enc [of s "[]"] by simp
  then show ?thesis by (simp add: decodeEvent_def encodeEvent_def dec_enc decInt_encInt)
qed

definition demoKey :: KeyInfo where
  "demoKey = \<lparr>kiID = ''k1'', kiName = ''client'', kiRateLimit = 100, kiActive = True, kiCreatedAt = 0, kiExpiresAt = None\<rparr>"

definition demo :: "(unit, unit, unit, unit) platform" where
  "demo = \<lparr>pfDecodeReq = (\<lambda>_. Some \<lparr>reqTitle = ''Go'', reqBody = ''tour'', IdempotencyKey = []\<rparr>), pfFindRow = (\<lambda>_ _. FindNoRows),
     pfInsertRow = (\<lambda>d _. (Inserted ''d2'', d)), pfSetStatus = None, pfEncode = encodeEvent, pfDecode = decodeEvent,
     pfFindKey = (\<lambda>_ _. KeyRow demoKey),
     pfGateway = \<lparr>gcIngestionURL = \<lparr>uHost = ''localhost:8081'', uPath = []\<rparr>, gcSearcherURL = \<lparr>uHost = ''localhost:8080'', uPath = []\<rparr>\<rparr>,
     pfDirect = \<lparr>goFindDoc = (\<lambda>_ _. DocNoRows), goSelectDocs = (\<lambda>_ _ _. Some []), goParseDuration = (\<lambda>_. None),
       goCreateKey = (\<lambda>d _ _ _. (Inl (KeyDbError []), d)), goDecodeCreate = (\<lambda>_. None), goListKeys = (\<lambda>_. Inr [])\<rparr>,
     pfSearch = \<lparr>defaultLimit = 10, maxResults = 100\<rparr>, pfMetrics = Some platformMetrics,
     pfCache = \<lparr>caGet = (\<lambda>_ _. RedisNil), caSet = (\<lambda>d _ _ _. (True, d)), caMarshal = (\<lambda>_. None), caUnmarshal = (\<lambda>_. None),
       caInterfere = id, caScan = (\<lambda>_ _. ([], True)), caDel = (\<lambda>d _. (True, d))\<rparr>,
     pfSort = sortByCount, pfServed = 1\<rparr>"

definition demoEnv :: renv where
  "demoEnv = \<lparr>rvFresh = ''id'', rvNow = 5, rvClientIP = ''10.0.0.1'', rvIngestionUp = True, rvSearcherUp = True, rvKafkaUp = True,
     rvSearch = \<lparr>qvRandom = ''12345678'', qvDuration = 0, qvLatencyMs = 0, qvNow = 5, qvStatsNow = 0, qvTimedOut = False, qvPing = None,
       qvStamp = [], qvCheckTime = (\<lambda>_. [])\<rparr>\<rparr>"

definition demoRequest :: "string \<Rightarrow> string \<Rightarrow> request" where
  "demoRequest meth path = \<lparr>reqMethod = meth, urlPath = path, headerGet = (\<lambda>h. if h = ''X-API-Key'' then ''secret'' else []),
     queryGet = (\<lambda>k. if k = ''q'' then ''tour'' else []), reqContent = ''{}''\<rparr>"

definition demoLimiter :: Limiter where "demoLimiter = NewLimiter 60000000000"

definition demoResponse :: IngestResponse where
  "demoResponse = \<lparr>respDocumentID = ''d2'', Status = ''PENDING'', respShardID = bodyShard ''tour''\<rparr>"

definition demoEvent :: IngestEvent where
  "demoEvent = \<lparr>evDocumentID = ''d2'', evTitle = ''Go'', evBody = ''tour'', evShardID = bodyShard ''tour'', IngestedAt = 5\<rparr>"

definition demoWorld :: "Router \<Rightarrow> (unit, unit, unit) world" where
  "demoWorld r = \<lparr>wIndexer = \<lparr>svRouter = r, svDisks = \<lambda>_. [], svRows = (), svCount = 0\<rparr>, wClock = 17, wEvents = [], wTopic = [], wDone = {},
     wSearcher = \<lparr>qsRouter = r, qsCache = None, qsCollector = Some (NewCollector 10), qsMetrics = [], qsStore = []\<rparr>\<rparr>"

lemma demo_admitted:
  assumes "path = ''/api/v1/documents'' \<or> path = ''/api/v1/search''" and "meth \<noteq> ''OPTIONS''" and "Allow 5 ''k1'' 100 l = (True, l')"
  shows "admission (keyCheck demo demoEnv) (rvNow demoEnv) (demoRequest meth path) (l, w) = (Inr (Some demoKey), l')"
proof -
  have "\<not> HasPrefix path ''/health''" using assms(1) by (auto simp: HasPrefix_def)
  then show ?thesis
    using assms(2,3) by (simp add: admission_def preflight_def demoRequest_def extractAPIKey_def HasPrefix_def keyCheck_def Validate_def demo_def
        demoKey_def demoEnv_def)
qed

definition demoLimiter2 :: Limiter where "demoLimiter2 = snd (Allow 5 ''k1'' 100 demoLimiter)"

lemma demo_allowed:
  "Allow 5 ''k1'' 100 demoLimiter = (True, demoLimiter2)" "\<exists>l. Allow 5 ''k1'' 100 demoLimiter2 = (True, l)"
  by (simp_all add: demoLimiter2_def Allow_def demoLimiter_def NewLimiter_def Let_def Seconds_def)

lemma demo_post:
  "\<exists>rsp. serve demo demoEnv (demoRequest ''POST'' ''/api/v1/documents'') (demoLimiter, w) =
      (rsp, demoLimiter2, w\<lparr>wTopic := wTopic w @ [(show_int (bodyShard ''tour''), encodeEvent demoEvent)]\<rparr>) \<and>
    rspBody rsp = HandlerBody (IngestBody (Accepted demoResponse))"
proof -
  let ?r = "demoRequest ''POST'' ''/api/v1/documents''" and ?req = "\<lparr>reqTitle = ''Go'', reqBody = ''tour'', IdempotencyKey = []\<rparr>"
  have a: "admission (keyCheck demo demoEnv) (rvNow demoEnv) ?r (demoLimiter, w) = (Inr (Some demoKey), demoLimiter2)"
    using demo_admitted [OF disjI1 [OF refl] _ demo_allowed(1), of "''POST''" w] by simp
  obtain hs where s: "serve demo demoEnv ?r (demoLimiter, w) = setHeaders hs (mux (platformRoutes demo demoEnv) ?r (Some demoKey) (demoLimiter2, w))"
    using gateway_admission [of "keyCheck demo demoEnv" "rvNow demoEnv" ?r "(demoLimiter, w)" "rvFresh demoEnv" "platformRoutes demo demoEnv"] a
    unfolding serve_def by auto
  have v: "ValidateIngestRequest ?req = None"
    unfolding Validate_ok by (simp add: TrimSpace_def IsSpace_def)
  have i: "Ingest (\<lambda>_ _. FindNoRows) (\<lambda>d _. (Inserted ''d2'', d)) (publishEvent encodeEvent True) 5 ?req () (wTopic w) =
      (Inr demoResponse, (), wTopic w @ [(show_int (bodyShard ''tour''), encodeEvent demoEvent)])"
    unfolding Ingest_def Let_def IngestRequest.select_convs assignShard_body option.case
    by (simp add: publishEvent_topic demoResponse_def demoEvent_def)
  have h: "handleIngest (pfDecodeReq demo) (pfFindRow demo) (pfInsertRow demo) (publishEvent (pfEncode demo) True) 5 ''{}'' () (wTopic w) =
      ((202, Accepted demoResponse), (), wTopic w @ [(show_int (bodyShard ''tour''), encodeEvent demoEvent)])"
    using i v by (simp add: handleIngest_def demo_def)
  have p: "singleJoiningSlash [] ''/api/v1/documents'' = ''/api/v1/documents''" by code_simp
  have m: "matchMethod ''POST'' (ingestionRoutes ''/api/v1/documents'') = Inr IIngest" by code_simp
  have o: "urlPath (outgoing (gcIngestionURL (pfGateway demo)) ip ?r) = ''/api/v1/documents''" "reqMethod ?r = ''POST''" "reqContent ?r = ''{}''"
    "urlPath ?r = ''/api/v1/documents''" for ip
    using p by (simp_all add: outgoing_def demo_def demoRequest_def)
  have e: "rvIngestionUp demoEnv" "rvKafkaUp demoEnv" "rvNow demoEnv = 5" by (simp_all add: demoEnv_def)
  have "mux (platformRoutes demo demoEnv) ?r (Some demoKey) (demoLimiter2, w) = (writeJSON 202 (IngestBody (Accepted demoResponse)), demoLimiter2,
      w\<lparr>wIndexer := (wIndexer w)\<lparr>svRows := ()\<rparr>, wTopic := wTopic w @ [(show_int (bodyShard ''tour''), encodeEvent demoEvent)]\<rparr>)"
    by (simp add: mux_def o e route_ingest platformRoutes_def gatewayHandlers_def Let_def newProxy_def ingestionBackend_def ingestionService_def
        m h ingestResponse_def)
  with s show ?thesis by (simp add: setHeaders_def writeJSON_def)
qed

text \<open>From fresh directories, the event is indexed and flushed.\<close>

lemma demo_indexed:
  assumes "wf_router totalShards r" and "\<forall>i e. shardEngine r i = Some e \<longrightarrow> e = freshEngine"
    and "w = (demoWorld r)\<lparr>wTopic := [(show_int (bodyShard ''tour''), encodeEvent demoEvent)]\<rparr>"
  shows "\<exists>w' e. (platform_step demo)\<^sup>*\<^sup>* (l, w) (l, w') \<and> 0 \<in> wDone w' \<and> shardEngine (svRouter (wIndexer w')) (bodyShard ''tour'') = Some e \<and>
    index (memIndex e) = [] \<and> wTopic w' = wTopic w \<and> wSearcher w' = wSearcher w"
proof -
  let ?i = "bodyShard ''tour''" and ?v = "encodeEvent demoEvent" and ?m = "AddDocument NewMemoryIndex ''d2'' ''Go'' ''tour''"
  have dec: "pfDecode demo ?v = Some demoEvent" "pfSetStatus demo = None" by (simp_all add: demo_def decodeEvent_encodeEvent)
  have ev: "evShardID demoEvent = ?i" "evDocumentID demoEvent = ''d2''" "evTitle demoEvent = ''Go''" "evBody demoEvent = ''tour''"
    by (simp_all add: demoEvent_def)
  have w: "wIndexer w = \<lparr>svRouter = r, svDisks = \<lambda>_. [], svRows = (), svCount = 0\<rparr>" "wTopic w = [(show_int ?i, ?v)]" "wClock w = 17" "wDone w = {}"
    by (simp_all add: assms(3) demoWorld_def)
  have one: "shardEngine r ?i = Some freshEngine"
    using wf_router_shardEngine(1) [OF assms(1), of ?i] assms(2) bodyShard_range [of "''tour''"] by (cases "shardEngine r ?i") auto
  obtain ierr e' d' where i: "IndexDocument (\<lambda>_. None) (\<lambda>_. None) 17 [] freshEngine ''d2'' ''Go'' ''tour'' = (ierr, e', d')"
    by (metis prod_cases3)
  have "Size ?m < 4096" by code_simp
  then have e': "ierr = None \<and> memIndex e' = ?m" using i by (auto simp: IndexDocument_def Let_def freshEngine_def)
  obtain err s where h: "indexHandler (pfDecode demo) (pfSetStatus demo) (\<lambda>_. calmSys) (show_int ?i) ?v (wIndexer w) = (err, s)" by fastforce
  have s: "svRouter s = r\<lparr>rtEngines := AList.update ?i e' (rtEngines r)\<rparr>"
    using HandleMessageSharded_routed [of "pfDecode demo" ?v demoEvent r freshEngine calmSys "\<lambda>_. []" ierr e' d' "pfSetStatus demo" "()"] i h one dec e'
    by (auto simp: indexHandler_def ev w calmSys_def)
  define w1 where "w1 = w\<lparr>wIndexer := s, wClock := 18, wEvents := wEvents w @ routed totalShards (pfDecode demo ?v), wDone := insert 0 (wDone w)\<rparr>"
  have 1: "platform_step demo (l, w) (l, w1)"
    unfolding w1_def
    by (rule p_message [OF _ _ _ h])
      (use one mem_fits_freshEvent in \<open>simp_all add: w clocked_def calmSys_def eventFits_def dec ev freshEngine_def\<close>)
  have shard: "shardEngine (svRouter (wIndexer w1)) ?i = Some e'" by (simp add: w1_def s shardEngine_def update_conv')
  have fits: "mem_fits (memIndex e')" using mem_fits_freshEvent e' by simp
  have "wf_engine freshEngine" using wf_router_shardEngine(2) [OF assms(1) one] .
  moreover have "mem_fits (AddDocument (memIndex freshEngine) ''d2'' ''Go'' ''tour'')" using mem_fits_freshEvent by (simp add: freshEngine_def)
  ultimately have wf: "wf_engine e'" using IndexDocument_postings(1) i by blast
  obtain e2 d2 where f: "Flush (\<lambda>_. None) (\<lambda>_. None) 18 (svDisks (wIndexer w1) ?i) e' = (None, e2, d2)"
    using Flush_calm [OF wf fits] by (metis prod_cases3 fst_conv)
  have "0 < DocCount ?m" by code_simp
  then have 2: "platform_step demo (l, w1) (l, w1\<lparr>wIndexer := (wIndexer w1)\<lparr>
      svRouter := (svRouter (wIndexer w1))\<lparr>rtEngines := AList.update ?i e2 (rtEngines (svRouter (wIndexer w1)))\<rparr>,
      svDisks := (svDisks (wIndexer w1))(?i := d2)\<rparr>, wClock := 18 + 1\<rparr>)"
    using e' by (intro p_flush [OF shard _ fits _ f]) (simp_all add: w1_def)
  have "index (memIndex e2) = []" by (rule Flush_None_empty [OF wf fits f])
  with 1 2 show ?thesis
    by (intro exI [of _ "w1\<lparr>wIndexer := (wIndexer w1)\<lparr>
      svRouter := (svRouter (wIndexer w1))\<lparr>rtEngines := AList.update ?i e2 (rtEngines (svRouter (wIndexer w1)))\<rparr>,
      svDisks := (svDisks (wIndexer w1))(?i := d2)\<rparr>, wClock := 18 + 1\<rparr>"] exI [of _ e2])
      (auto simp: w1_def shardEngine_def update_conv')
qed

lemma demo_started:
  assumes "NewRouter calmSys 4096 totalShards (\<lambda>_. []) = (Inr r, \<lambda>_. [])"
  shows "started (demoWorld r)"
proof -
  have "\<exists>disks sys0 mx0 sys1 mx1 disks1. (\<forall>i. goodDir 17 (disks i)) \<and> NewRouter sys0 mx0 totalShards disks = (Inr r, \<lambda>_. []) \<and>
      NewRouter sys1 mx1 totalShards disks = (Inr r, disks1)"
    by (rule exI [of _ "\<lambda>_. []"], rule exI [of _ calmSys], rule exI [of _ 4096], rule exI [of _ calmSys], rule exI [of _ 4096],
        rule exI [of _ "\<lambda>_. []"]) (simp add: assms goodDir_empty)
  then show ?thesis by (simp add: started_def demoWorld_def collectorOpen_def NewCollector_def)
qed

text \<open>In every state of the run, each shard of the searcher holds at most one posting of a term, that of the document.\<close>

lemma demo_postings:
  assumes "started (demoWorld r)" and "(platform_step demo)\<^sup>*\<^sup>* (l0, demoWorld r) (l, w)" and "map snd (wTopic w) = [encodeEvent demoEvent]"
  shows "DocID ` set (allShardPostings (GetAllEngines (qsRouter (wSearcher w))) t) \<subseteq> {''d2''}"
    and "int (length (allShardPostings (GetAllEngines (qsRouter (wSearcher w))) t)) < maxInt"
proof -
  let ?q = "qsRouter (wSearcher w)"
  have "platform_inv demo w" using platform_inv_run [OF assms(2)] platform_inv_started [OF assms(1), of demo] by simp
  then have inv: "searcher_inv totalShards ((wIndexer w, wClock w, wEvents w), ?q)" by (simp add: platform_inv_def)
  then have q: "wf_router totalShards ?q" by (simp add: searcher_inv_def)
  have o: "origin_inv demo (l0, demoWorld r) (l, w)" by (rule origin_inv_run [OF assms(2)]) (simp add: assms(1))
  have one: "length (wTopic w) = 1" "snd (wTopic w ! 0) = encodeEvent demoEvent" using assms(3) by (auto simp: map_eq_Cons_conv)
  have ev: "ev = demoEvent" if "ev \<in> set (wEvents w)" for ev
    using o that one by (auto simp: origin_inv_def demo_def decodeEvent_encodeEvent)
  have "dirPairs [] = {}" by (simp add: dirPairs_def segNames_def ReadDir_def)
  then have "mayHold (\<lambda>i. dirPairs (svDisks (wIndexer (demoWorld r)) i)) (wEvents w) i \<subseteq> eventPairs demoEvent" for i
    using ev by (auto simp: mayHold_def demoWorld_def)
  then have held: "shardPairs ?q i \<subseteq> eventPairs demoEvent" for i
    using searcher_sound [OF inv, of _ i] o by (fastforce simp: origin_inv_def)
  have d: "DocID ` set (postingsOf e t) \<subseteq> {''d2''} \<and> length (postingsOf e t) \<le> 1" if "(i, e) \<in> set (rtEngines ?q)" for i e
  proof -
    have e: "shardEngine ?q i = Some e" "wf_engine e" using that q by (auto simp: shardEngine_def wf_router_def)
    have sub: "DocID ` set (postingsOf e t) \<subseteq> {''d2''}"
      using postingsOf_found [of _ e t] held [of i] e(1) by (fastforce simp: shardPairs_def eventPairs_def docPairs_def demoEvent_def)
    have "sorted_wrt (<) (map DocID (postingsOf e t))"
      using e(2) deduplicatePostings_spec(1)
      by (cases "Tokenize t") (simp_all add: postingsOf_def Search_def searchTerm_wf postingsFor_def)
    then have "distinct (map DocID (postingsOf e t))" using strict_sorted_iff by blast
    then have "length (postingsOf e t) = card (DocID ` set (postingsOf e t))" using distinct_card by fastforce
    also have "\<dots> \<le> card {''d2''}" using sub by (intro card_mono) simp_all
    finally show ?thesis using sub by simp
  qed
  show "DocID ` set (allShardPostings (GetAllEngines ?q) t) \<subseteq> {''d2''}"
    using d by (fastforce simp: allShardPostings_def GetAllEngines_def)
  have len: "length (concat (map (\<lambda>s. postingsOf (snd s) t) es)) \<le> length es" if "\<forall>(i, e) \<in> set es. length (postingsOf e t) \<le> 1" for es :: "(int \<times> engine) list"
    using that by (induction es) auto
  have "length (allShardPostings (GetAllEngines ?q) t) \<le> length (rtEngines ?q)"
    unfolding allShardPostings_def GetAllEngines_def by (rule len) (use d in auto)
  also have "length (rtEngines ?q) = card (fst ` set (rtEngines ?q))" using q distinct_card [of "map fst (rtEngines ?q)"] by (simp add: wf_router_def)
  finally show "int (length (allShardPostings (GetAllEngines ?q) t)) < maxInt" using q by (simp add: wf_router_def totalShards_def maxInt_def)
qed

lemma demo_asks:
  assumes "started (demoWorld r)" and "(platform_step demo)\<^sup>*\<^sup>* (l0, demoWorld r) (demoLimiter2, w)"
    and "map snd (wTopic w) = [encodeEvent demoEvent]" and "qsCache (wSearcher w) = None"
  shows "asksFor demo demoEnv (demoRequest ''GET'' ''/api/v1/search'') 10 ''Go'' ''tour'' (demoLimiter2, w)"
proof -
  obtain l where "Allow 5 ''k1'' 100 demoLimiter2 = (True, l)" using demo_allowed(2) by blast
  from demo_admitted [OF disjI2 [OF refl] _ this, of "''GET''" w]
  have a: "\<exists>ki l. admission (keyCheck demo demoEnv) (rvNow demoEnv) (demoRequest ''GET'' ''/api/v1/search'') (demoLimiter2, w) = (Inr ki, l)" by auto
  have p: "planTerms (Parse ''tour'') = [''tour'']" "ExcludeTerms (Parse ''tour'') = []" by code_simp+
  have t: "''tour'' \<in> set (termsOf ''Go'' @ termsOf ''tour'')" "termsOf ''tour'' = [''tour'']" by code_simp+
  have n: "int (length (allShardPostings (GetAllEngines (qsRouter (wSearcher w))) ''tour'')) < maxInt"
    by (rule demo_postings(2) [OF assms(1-3)])
  have r: "queryGet (demoRequest ''GET'' ''/api/v1/search'') ''q'' = ''tour''" "queryGet (demoRequest ''GET'' ''/api/v1/search'') ''limit'' = []"
    "reqMethod (demoRequest ''GET'' ''/api/v1/search'') = ''GET''" "urlPath (demoRequest ''GET'' ''/api/v1/search'') = ''/api/v1/search''"
    by (simp_all add: demoRequest_def)
  have e: "rvSearcherUp demoEnv" "\<not> qvTimedOut (rvSearch demoEnv)" "searchLimit (pfSearch demo) [] = Some 10"
    by (simp_all add: demoEnv_def demo_def searchLimit_def)
  show ?thesis using a n t by (simp add: asksFor_def r e p assms(4) cacheMisses_def)
qed

text \<open>The world in which the document was posted, indexed, flushed and reloaded.\<close>

definition demoRun :: "Router \<Rightarrow> IngestResponse \<Rightarrow> (unit, unit, unit) world \<Rightarrow> (unit, unit, unit) world \<Rightarrow> engine \<Rightarrow> Router \<Rightarrow> bool" where
  "demoRun r resp w w3 e q \<longleftrightarrow> started (demoWorld r) \<and>
     (\<exists>rsp. serve demo demoEnv (demoRequest ''POST'' ''/api/v1/documents'') (demoLimiter, demoWorld r) = (rsp, demoLimiter2, w) \<and>
       rspBody rsp = HandlerBody (IngestBody (Accepted resp))) \<and> map snd (wTopic w) = [encodeEvent demoEvent] \<and>
     (platform_step demo)\<^sup>*\<^sup>* (demoLimiter2, w) (demoLimiter2, w3) \<and> 0 \<in> wDone w3 \<and>
     shardEngine (svRouter (wIndexer w3)) (respShardID resp) = Some e \<and> index (memIndex e) = [] \<and>
     wTopic w3 = wTopic w \<and> qsCache (wSearcher w3) = None \<and> (\<exists>k. ReloadAll calmSys (svDisks (wIndexer w3)) (qsRouter (wSearcher w3)) = Inr (k, q))"

lemma demo_run: "\<exists>r w w3 e q. demoRun r demoResponse w w3 e q"
proof -
  obtain r where r: "NewRouter calmSys 4096 totalShards (\<lambda>_. []) = (Inr r, \<lambda>_. [])" "wf_router totalShards r"
    "\<forall>i e. shardEngine r i = Some e \<longrightarrow> e = freshEngine" using NewRouter_fresh by blast
  define w where "w = (demoWorld r)\<lparr>wTopic := [(show_int (bodyShard ''tour''), encodeEvent demoEvent)]\<rparr>"
  have t: "wTopic (demoWorld r) = []" by (simp add: demoWorld_def)
  obtain rsp where p: "serve demo demoEnv (demoRequest ''POST'' ''/api/v1/documents'') (demoLimiter, demoWorld r) = (rsp, demoLimiter2, w)"
    and b: "rspBody rsp = HandlerBody (IngestBody (Accepted demoResponse))"
    using demo_post [of "demoWorld r"] by (auto simp: w_def t)
  obtain w3 e where w3: "(platform_step demo)\<^sup>*\<^sup>* (demoLimiter2, w) (demoLimiter2, w3)" "0 \<in> wDone w3"
    "shardEngine (svRouter (wIndexer w3)) (bodyShard ''tour'') = Some e" "index (memIndex e) = []" "wTopic w3 = wTopic w" "wSearcher w3 = wSearcher w"
    using demo_indexed [OF r(2,3) w_def, of demoLimiter2] by blast
  have st: "started (demoWorld r)" by (rule demo_started [OF r(1)])
  have "(platform_step demo)\<^sup>*\<^sup>* (demoLimiter, demoWorld r) (demoLimiter2, w3)"
    using converse_rtranclp_into_rtranclp [of "platform_step demo", OF p_request [OF p] w3(1)] .
  from platform_inv_run [OF this] have inv: "platform_inv demo w3" using platform_inv_started [OF st, of demo] by simp
  have "calm calmSys" by (simp add: calm_def calmSys_def)
  from ReloadAll_all [OF inv [unfolded platform_inv_def, THEN conjunct1] this] obtain k q
    where "ReloadAll calmSys (svDisks (wIndexer w3)) (qsRouter (wSearcher w3)) = Inr (k, q)" by blast
  moreover have "qsCache (wSearcher w3) = None" by (simp add: w3(6) w_def demoWorld_def)
  ultimately have "demoRun r demoResponse w w3 e q"
    using st p b w3 by (simp add: demoRun_def demoResponse_def) (simp add: w_def)
  then show ?thesis by blast
qed

lemma demo_loaded:
  assumes "demoRun r resp w w3 e q"
  shows "(platform_step demo)\<^sup>*\<^sup>* (demoLimiter, demoWorld r) (demoLimiter2, w3\<lparr>wSearcher := (wSearcher w3)\<lparr>qsRouter := q\<rparr>\<rparr>)"
    and "asksFor demo demoEnv (demoRequest ''GET'' ''/api/v1/search'') 10 ''Go'' ''tour'' (demoLimiter2, w3\<lparr>wSearcher := (wSearcher w3)\<lparr>qsRouter := q\<rparr>\<rparr>)"
proof -
  let ?w = "w3\<lparr>wSearcher := (wSearcher w3)\<lparr>qsRouter := q\<rparr>\<rparr>"
  obtain rsp k where p: "serve demo demoEnv (demoRequest ''POST'' ''/api/v1/documents'') (demoLimiter, demoWorld r) = (rsp, demoLimiter2, w)"
    and run: "(platform_step demo)\<^sup>*\<^sup>* (demoLimiter2, w) (demoLimiter2, w3)"
    and k: "ReloadAll calmSys (svDisks (wIndexer w3)) (qsRouter (wSearcher w3)) = Inr (k, q)"
    using assms unfolding demoRun_def by blast
  have "(platform_step demo)\<^sup>*\<^sup>* (demoLimiter, demoWorld r) (demoLimiter2, w3)"
    using converse_rtranclp_into_rtranclp [of "platform_step demo", OF p_request [OF p] run] .
  then show *: "(platform_step demo)\<^sup>*\<^sup>* (demoLimiter, demoWorld r) (demoLimiter2, ?w)"
    by (rule rtranclp.rtrancl_into_rtrancl) (rule p_reload [OF k])
  show "asksFor demo demoEnv (demoRequest ''GET'' ''/api/v1/search'') 10 ''Go'' ''tour'' (demoLimiter2, ?w)"
    by (rule demo_asks [OF _ *]) (use assms in \<open>auto simp: demoRun_def\<close>)
qed

text \<open>The hypotheses of the property on documents, and what its conclusion says of this run.\<close>

lemma demo_hyps:
  assumes "demoRun r resp w w3 e q"
  obtains rsp k where "started (demoWorld r)"
    and "serve demo demoEnv (demoRequest ''POST'' ''/api/v1/documents'') (demoLimiter, demoWorld r) = (rsp, demoLimiter2, w)"
    and "rspBody rsp = HandlerBody (IngestBody (Accepted resp))" and "wTopic w \<noteq> wTopic (demoWorld r)"
    and "(platform_step demo)\<^sup>*\<^sup>* (demoLimiter2, w) (demoLimiter2, w3)" and "length (wTopic (demoWorld r)) \<in> wDone w3"
    and "shardEngine (svRouter (wIndexer w3)) (respShardID resp) = Some e" and "index (memIndex e) = []" and "wTopic w3 = wTopic w"
    and "map snd (wTopic w) = [encodeEvent demoEvent]" and "qsCache (wSearcher w3) = None"
    and "ReloadAll calmSys (svDisks (wIndexer w3)) (qsRouter (wSearcher w3)) = Inr (k, q)"
proof -
  have "wTopic (demoWorld r) = []" by (simp add: demoWorld_def)
  moreover have "wTopic w \<noteq> []" using assms by (auto simp: demoRun_def)
  ultimately show ?thesis using assms that unfolding demoRun_def by auto
qed

lemma demo_facts:
  "reqMethod (demoRequest meth path) = meth" "urlPath (demoRequest meth path) = path" "queryGet (demoRequest meth path) ''q'' = ''tour''"
  "calm calmSys" "\<forall>ev. pfDecode demo (pfEncode demo ev) = Some ev" "metricsOk (pfMetrics demo)" "uPath (gcSearcherURL (pfGateway demo)) = []"
  by (simp_all add: demoRequest_def calm_def calmSys_def demo_def decodeEvent_encodeEvent metricsOk_def)

lemma demo_answer:
  assumes "demoRun r demoResponse w w3 e q"
    and "\<exists>req k' q'. pfDecodeReq demo (reqContent (demoRequest ''POST'' ''/api/v1/documents'')) = Some req \<and>
      ReloadAll calmSys (svDisks (wIndexer w3)) (qsRouter (wSearcher w3)) = Inr (k', q') \<and>
      (\<forall>env2 get limit l4 w4. (platform_step demo)\<^sup>*\<^sup>* (demoLimiter2, w3\<lparr>wSearcher := (wSearcher w3)\<lparr>qsRouter := q'\<rparr>\<rparr>) (l4, w4) \<and>
          asksFor demo env2 get limit (reqTitle req) (reqBody req) (l4, w4) \<longrightarrow>
        (\<exists>rsp l5 w5 query hitCount docs. serve demo env2 get (l4, w4) = (rsp, l5, w5) \<and> rspStatus rsp = 200 \<and>
          rspBody rsp = HandlerBody (SearchBody (SearchReply query hitCount docs (qvLatencyMs (rvSearch env2)) False)) \<and>
          0 < hitCount \<and> (limit \<le> 0 \<or> hitCount \<le> limit \<longrightarrow> respDocumentID demoResponse \<in> sdDocID ` set docs)))"
  shows "\<exists>rsp l4 w4 query hitCount docs. serve demo demoEnv (demoRequest ''GET'' ''/api/v1/search'')
      (demoLimiter2, w3\<lparr>wSearcher := (wSearcher w3)\<lparr>qsRouter := q\<rparr>\<rparr>) = (rsp, l4, w4) \<and> rspStatus rsp = 200 \<and>
    rspBody rsp = HandlerBody (SearchBody (SearchReply query hitCount docs 0 False)) \<and> ''d2'' \<in> sdDocID ` set docs"
proof -
  let ?get = "demoRequest ''GET'' ''/api/v1/search''" and ?w = "w3\<lparr>wSearcher := (wSearcher w3)\<lparr>qsRouter := q\<rparr>\<rparr>"
  obtain k where st: "started (demoWorld r)" and k: "ReloadAll calmSys (svDisks (wIndexer w3)) (qsRouter (wSearcher w3)) = Inr (k, q)"
    and t: "map snd (wTopic ?w) = [encodeEvent demoEvent]" and c: "qsCache (wSearcher ?w) = None"
    using demo_hyps [OF assms(1)] by fastforce
  obtain req k' q' where x: "pfDecodeReq demo (reqContent (demoRequest ''POST'' ''/api/v1/documents'')) = Some req"
    "ReloadAll calmSys (svDisks (wIndexer w3)) (qsRouter (wSearcher w3)) = Inr (k', q')"
    and found: "\<forall>env2 get limit l4 w4. (platform_step demo)\<^sup>*\<^sup>* (demoLimiter2, w3\<lparr>wSearcher := (wSearcher w3)\<lparr>qsRouter := q'\<rparr>\<rparr>) (l4, w4) \<and>
          asksFor demo env2 get limit (reqTitle req) (reqBody req) (l4, w4) \<longrightarrow>
        (\<exists>rsp l5 w5 query hitCount docs. serve demo env2 get (l4, w4) = (rsp, l5, w5) \<and> rspStatus rsp = 200 \<and>
          rspBody rsp = HandlerBody (SearchBody (SearchReply query hitCount docs (qvLatencyMs (rvSearch env2)) False)) \<and>
          0 < hitCount \<and> (limit \<le> 0 \<or> hitCount \<le> limit \<longrightarrow> respDocumentID demoResponse \<in> sdDocID ` set docs))"
    using assms(2) by (elim exE conjE) (rule that)
  have "req = \<lparr>reqTitle = ''Go'', reqBody = ''tour'', IdempotencyKey = []\<rparr>" using x(1) by (simp add: demo_def)
  then have "q' = q" "reqTitle req = ''Go''" "reqBody req = ''tour''" "qvLatencyMs (rvSearch demoEnv) = 0" "respDocumentID demoResponse = ''d2''"
    using x(2) k by (simp_all add: demoEnv_def demoResponse_def)
  then obtain rsp l4 w4 query hitCount docs where s: "serve demo demoEnv ?get (demoLimiter2, ?w) = (rsp, l4, w4)" "rspStatus rsp = 200"
    "rspBody rsp = HandlerBody (SearchBody (SearchReply query hitCount docs 0 False))" "hitCount \<le> 10 \<longrightarrow> ''d2'' \<in> sdDocID ` set docs"
    using found [rule_format, OF conjI, of demoLimiter2 ?w demoEnv ?get 10] demo_loaded(2) [OF assms(1)] by auto
  let ?shards = "GetAllEngines (qsRouter (wSearcher ?w))"
  obtain limit res where res: "shardedExecute ?shards (Parse ''tour'') limit = Inr res" "hitCount = TotalHits res"
    using serve_results [OF s(1) demo_facts(1,2,7) c s(3)] unfolding demo_facts(3) by blast
  note P = demo_postings [OF st demo_loaded(1) [OF assms(1)] t]
  have "platform_inv demo ?w"
    using platform_inv_run [OF demo_loaded(1) [OF assms(1)]] platform_inv_started [OF st, of demo] by simp
  then have wf: "wf_router totalShards (qsRouter (wSearcher ?w))" by (simp add: platform_inv_def searcher_inv_def)
  have "\<forall>s \<in> set ?shards. wf_engine (snd s)" using wf by (auto simp: wf_router_def GetAllEngines_def)
  moreover have "\<forall>t \<in> set (planTerms (Parse ''tour'')). int (length (allShardPostings ?shards t)) < maxInt" using P(2) by blast
  ultimately obtain res' where "shardedExecute ?shards (Parse ''tour'') limit = Inr res'"
    "TotalHits res' = int (card (matchSet (\<lambda>t. DocID ` set (allShardPostings ?shards t)) (Parse ''tour'')))"
    using shardedExecute_spec [of ?shards "Parse ''tour''" limit] by blast
  with res(1) have "TotalHits res = int (card (matchSet (\<lambda>t. DocID ` set (allShardPostings ?shards t)) (Parse ''tour'')))" by simp
  moreover have "matchSet (\<lambda>t. DocID ` set (allShardPostings ?shards t)) (Parse ''tour'') \<subseteq> {''d2''}"
    by (rule matchSet_within [OF P(1)])
  then have "card (matchSet (\<lambda>t. DocID ` set (allShardPostings ?shards t)) (Parse ''tour'')) \<le> card {''d2''}" by (intro card_mono) simp_all
  ultimately have "hitCount \<le> 10" using res(2) by simp
  with s show ?thesis by blast
qed


lemma demo_found:
  assumes "demoRun r demoResponse w w3 e q"
  shows "\<exists>rsp l4 w4 query hitCount docs. serve demo demoEnv (demoRequest ''GET'' ''/api/v1/search'')
      (demoLimiter2, w3\<lparr>wSearcher := (wSearcher w3)\<lparr>qsRouter := q\<rparr>\<rparr>) = (rsp, l4, w4) \<and> rspStatus rsp = 200 \<and>
    rspBody rsp = HandlerBody (SearchBody (SearchReply query hitCount docs 0 False)) \<and> ''d2'' \<in> sdDocID ` set docs"
proof -
  obtain rsp k where H: "started (demoWorld r)"
    "serve demo demoEnv (demoRequest ''POST'' ''/api/v1/documents'') (demoLimiter, demoWorld r) = (rsp, demoLimiter2, w)"
    "rspBody rsp = HandlerBody (IngestBody (Accepted demoResponse))" "wTopic w \<noteq> wTopic (demoWorld r)"
    "(platform_step demo)\<^sup>*\<^sup>* (demoLimiter2, w) (demoLimiter2, w3)" "length (wTopic (demoWorld r)) \<in> wDone w3"
    "shardEngine (svRouter (wIndexer w3)) (respShardID demoResponse) = Some e" "index (memIndex e) = []"
    using demo_hyps [OF assms] by blast
  note D = document_found [OF H(1) rtranclp.rtrancl_refl H(2) demo_facts(1,2) H(3,4) demo_facts(5-7) H(5-8) demo_facts(4)]
  show ?thesis by (rule demo_answer [OF assms D])
qed


end
