(* ===== verification/Spec2Isabelle.thy ===== *)
theory Spec2Isabelle
  imports Heap_Merger Circuit_Breaker Retry Gateway Searcher_Service Proto Tracing Http_Metrics Load_Test Auth_Cli
    Service_Process Platform_Run
begin

text \<open>
  A verification library for the distributed search platform under \<open>src/\<close> (Go).

  \<^bold>\<open>The program.\<close> Documents enter through the API gateway and the ingestion service, which stores a row
  in PostgreSQL and publishes an event to Kafka. The indexer consumes the events: the shard router
  hands each document to one of eight engines, which tokenize it into an in-memory inverted index and flush that
  to immutable segment files. The searcher parses a query, collects the postings of its terms from
  memory and segments of all shards, ranks the matching documents by BM25 and merges them, behind a
  Redis cache. Searches are reported to an analytics pipeline through buffering collectors. Circuit breaker, retry,
  rate limiter and API keys protect the services. Each service is a process of its own under \<open>cmd\<close>.

  \<^bold>\<open>Theories and sources.\<close> Each theory translates the files named, one definition per Go function or loop;
  a loop inside a function is a recursive definition of its own (\<open>tokenLoop\<close>, \<open>retryLoop\<close>, \<dots>).

  \<^item> \<open>Prelude\<close>: the Go library functions used (strings, maps as association lists, decimal
    numbers) and generic lemmas. \<open>Http\<close>: requests as the handlers read them, \<open>strconv.Atoi\<close>.
  \<^item> \<open>Tokenizer\<close> (\<open>internal/indexer/tokenizer\<close>): words, stop words, the stemmer.
  \<^item> \<open>Posting\<close>, \<open>Memory_Index\<close> (\<open>internal/indexer/index\<close>): the inverted index as a map of term to postings,
    its invariant \<open>wf_mem\<close>; the locale \<open>posting_source\<close> is the lookup contract which the memory index, a segment
    reader and the engine satisfy.
  \<^item> \<open>Json\<close>, \<open>Segment\<close> (\<open>internal/indexer/segment\<close>): the JSON of postings and dictionary, the bytes of a segment
    file, writing with a fault at any system call, reading.
  \<^item> \<open>Engine\<close> (\<open>internal/indexer/engine.go\<close>): indexing, flushing, searching, closing, reopening and reloading over
    an explicit data directory.
  \<^item> \<open>Query_Parser\<close>, \<open>Ranker\<close>, \<open>Heap_Merger\<close>, \<open>Executor\<close> (\<open>internal/searcher/parser\<close>, \<open>ranker\<close>, \<open>merger\<close>,
    \<open>executor\<close>): query plans, BM25 over the reals, \<open>container/heap\<close> as a \<open>priority_queue\<close>, the single and the
    sharded executor.
  \<^item> \<open>Query_Cache\<close>, \<open>Search_Handler\<close> (\<open>internal/searcher/cache\<close>, \<open>handler\<close>, \<open>pkg/redis\<close>): the cache over
    any \<open>redis_store\<close>, the search endpoint.
  \<^item> \<open>Hashing\<close>, \<open>App_Errors\<close>, \<open>Ingestion\<close> (\<open>crypto/sha256\<close>, \<open>pkg/errors\<close>, \<open>internal/ingestion\<close>): SHA-256,
    error chains and status codes, validation, idempotent insertion over any \<open>documents_db\<close>.
  \<^item> \<open>Shard_Router\<close> (\<open>internal/indexer/shard\<close>, \<open>internal/indexer/consumer\<close>): one engine per shard, the Kafka handlers.
  \<^item> \<open>Engine_Concurrency\<close>: the critical sections of \<open>IndexDocument\<close>, \<open>Flush\<close> and \<open>Search\<close> as steps of goroutines that
    interleave on one engine.
  \<^item> \<open>Indexer_Service\<close>, \<open>Searcher_Service\<close> (\<open>cmd/indexer\<close>, \<open>cmd/searcher\<close>): the two processes on the shared
    directories, from start over messages, flushes, reloads and failures to shutdown.
  \<^item> \<open>Circuit_Breaker\<close>, \<open>Retry\<close>, \<open>Rate_Limiter\<close> (\<open>pkg/resilience\<close>, \<open>internal/auth/ratelimit\<close>).
  \<^item> \<open>Aggregator\<close>, \<open>Collectors\<close>, \<open>Analytics_Store\<close> (\<open>internal/analytics\<close>): statistics; the two collectors as step relations;
    the snapshots over any \<open>snapshots_db\<close>.
  \<^item> \<open>Messaging\<close>, \<open>Clients\<close> (\<open>pkg/kafka\<close>, \<open>pkg/postgres\<close>, \<open>pkg/redis\<close>): the producer, the consumer loop over any
    \<open>kafka_reader\<close>, transactions; how the clients of Kafka, PostgreSQL and Redis are set up from the configuration.
  \<^item> \<open>Health\<close>, \<open>Configuration\<close> (\<open>pkg/health\<close>, \<open>pkg/middleware/timeout.go\<close>, \<open>pkg/config\<close>): readiness, the timeout middleware,
    defaults and overrides.
  \<^item> \<open>Api_Keys\<close>, \<open>Gateway\<close> (\<open>internal/auth/apikey\<close>, \<open>internal/gateway\<close>, \<open>pkg/middleware/requestid.go\<close>): keys
    over any \<open>api_keys_db\<close>, the middleware chain, routes and the handlers on the database. \<open>Auth_Cli\<close> (\<open>cmd/auth\<close>): the
    key commands with their flags.
  \<^item> \<open>Rpc\<close>, \<open>Proto\<close> (\<open>pkg/grpc\<close>, \<open>pkg/proto\<close>): requests and responses as bytes on a connection, client and server,
    the message types as instances of \<open>rpc_message\<close>.
  \<^item> \<open>Tracing\<close>, \<open>Http_Metrics\<close>, \<open>Load_Test\<close> (\<open>pkg/tracing\<close>, \<open>pkg/middleware/metrics.go\<close>, \<open>cmd/loadtest\<close>): spans in a heap of
    shared pointers, request counting, the load test's statistics.
  \<^item> \<open>Metric_Registry\<close>, \<open>Request_Context\<close> (\<open>pkg/metrics\<close>, \<open>pkg/logger\<close>, \<open>pkg/middleware/requestid.go\<close>): the collectors over
    any \<open>prom_registry\<close> and what the search endpoint records; request IDs and loggers in a request's context.
  \<^item> \<open>Analytics_Service\<close> (\<open>cmd/analytics\<close>, \<open>cmd/searcher\<close>): how both mains wire consumer, aggregators and endpoint, the aggregators
    in a store of shared pointers.
  \<^item> \<open>Service_Process\<close> (\<open>cmd/ingestion\<close>, \<open>cmd/gateway\<close>, \<open>cmd/analytics\<close>, \<open>cmd/searcher\<close>): what each main does until it serves,
    with its early exits, and the life of the process from there as a step relation.
  \<^item> \<open>Http_Services\<close> (the same mains, \<open>internal/gateway/handler\<close>): the services as functions from request and state to response and state:
    their routes, middleware and responses, and the gateway's reverse proxies.
  \<^item> \<open>Platform\<close>: all services together, requests entering at the gateway. \<open>Search_Soundness\<close>, \<open>Platform_Soundness\<close>: where what a search
    lists comes from. \<open>Platform_Run\<close>: one run from empty directories, which meets the hypotheses of both properties of the platform.

  \<^bold>\<open>How state and effects are modelled.\<close> A struct is a record and a method returns it updated; where a mutex
  spans a method it is one atomic step. Where goroutines interleave there is an inductive step relation with its
  reachable states: between methods (circuit breaker, collectors, RPC server), between the critical sections within a method (engine),
  between processes (indexer and searcher). Errors are values of
  sum and option types; a Go panic is an error constructor. A Go map is an association list whose order stands for the
  unspecified order of one \<open>range\<close> loop, and results are shown not to depend on it. The clock,
  random bytes, the outcome of each system call, PostgreSQL, Redis and Kafka are arguments; what is
  relied on is stated as a locale with an instance that computes. Sizes that the file format stores
  in 32 and 64 bits are words; \<open>mem_fits\<close> and \<open>segment_fits\<close> say that a snapshot is within them. Floating point
  numbers are reals.

  \<^bold>\<open>What is shown.\<close> Tokenizing, parsing and ranking are equal to independent specifications (C1, C12--C15); the
  index, the segment files and the engine implement one abstract lookup through flushes, write
  failures and restarts (C2--C9); what the indexer service has handled survives its shutdown (C34); with indexing, flushing and searching
  interleaved, a search finds every document except those added between a flush's snapshot and its
  reset (C16); the heap merge is sort-and-take (C17); single and sharded execution return
  the match set of the plan, and sharding is transparent (C18, C19); the circuit breaker and the rate limiter keep
  their bounds, the latter through the whole gateway (C20--C22, C24); a remote call is a local call of the handler (C23); ingestion is idempotent and its
  status codes are characterised (C25, C26); processes accept and release as they should, but exit under requests in flight (C27); the
  analytics endpoint serves an aggregator that no message reaches (C28); retries end (C29); statistics
  are those of the events and the collectors conserve events (C30--C32); spans form trees that are logged completely (C33); searching through the cache is searching
  (C35, C37); the metrics count the searches (C10); the message consumer delivers at least once (C36); keys live until they expire or are revoked and
  guard every route (C38, C39). For the whole platform, under any interleaving and any failures: a document that was posted, consumed, flushed and
  reloaded is found through the gateway from then on (C40), and a search lists only what was on disk, queued or posted (C11). Without a claim number, the theories
  hold theorems on single components that those rest on or that stand beside them, as reloading, flushing and routing on their own.

  \<^bold>\<open>Bounds and fuel.\<close> Two definitions use fuel: the JSON reader (twice the length of the text and two, enough for
  every rendered value by \<open>parse_render\<close> and \<open>nextValue_line\<close>) and \<open>logRecursive\<close> (the number of spans, enough by \<open>logRecursive_walk\<close>). Every
  other loop is structural or has a termination proof; the service
  loops that run until a signal (\<open>flushLoop\<close>, \<open>consumerStart\<close>, \<open>periodicSave\<close>, \<open>reloadTicks\<close>) recurse over the finite list of what they have observed so far. Where the
  code compares with the largest 64-bit integer (\<open>shortestLoop\<close>), the properties assume posting
  lists shorter than that.

  \<^bold>\<open>Not modelled.\<close> What client libraries do beyond the calls that the code makes (Kafka, PostgreSQL and Redis are parameters); the lines that
  only write to the log or the terminal; the two RPC messages with floating point scores; the spans within the search handler
  (\<open>Tracing\<close> models spans on their own); in \<open>Platform\<close>, two requests that compute the same cache key at once and a handler goroutine that
  writes after its deadline, which \<open>Query_Cache\<close> and \<open>Health\<close> model, and the restart of a process; letters outside
  ASCII; the rounding of floating point arithmetic other than the ranker's own.
\<close>

section \<open>From ingestion to search\<close>

text \<open>The queue as the log of its messages: a publish appends the encoded event.\<close>

definition publishLog :: "(IngestEvent \<Rightarrow> 'b) \<Rightarrow> (string \<times> 'b) list \<Rightarrow> string \<Rightarrow> IngestEvent \<Rightarrow> bool \<times> (string \<times> 'b) list" where
  "publishLog encode msgs key ev = (True, msgs @ [(key, encode ev)])"

text \<open>
  The ingestion handler and the index consumer alone: when the ingest handler answers 202 and has published a message, the message is keyed
  by a shard \<open>0 \<dots> 7\<close>, consuming it on a router of eight shards marks the document's row, and from then
  on every query whose terms are stems occurring in the title or the body (and which excludes nothing) returns the
  document's ID over all shards, unless better documents exhaust the limit.
\<close>

theorem ingest_then_search:
  assumes "wf_router totalShards r"
    and "handleIngest decode findRow insertRow (publishLog encode) now body d msgs = ((202, Accepted resp), d', msgs')"
    and "msgs' \<noteq> msgs" and "decode body = Some req" and "\<forall>ev. decodeEv (encode ev) = Some ev"
    and "\<forall>e. shardEngine r (respShardID resp) = Some e \<longrightarrow>
      mem_fits (AddDocument (memIndex e) (respDocumentID resp) (reqTitle req) (reqBody req))"
    and "\<forall>i name. envOpen (sys i) name \<noteq> Some ErrPanic"
    and "planTerms plan \<noteq> []" and "ExcludeTerms plan = []"
    and "\<forall>t \<in> set (planTerms plan). t \<in> set (termsOf (reqTitle req) @ termsOf (reqBody req)) \<and> termsOf t = [t]"
  shows "\<exists>value err r' disks' rows'. 0 \<le> respShardID resp \<and> respShardID resp < totalShards \<and>
    msgs' = msgs @ [(show_int (respShardID resp), value)] \<and>
    HandleMessageSharded decodeEv setStatus sys value disks r rows = (err, r', disks', rows') \<and>
    wf_router totalShards r' \<and>
    rows' = updateDocStatus setStatus rows (respDocumentID resp) (if err = None then ''INDEXED'' else ''FAILED'') \<and>
    ((\<forall>t \<in> set (planTerms plan). int (length (allShardPostings (GetAllEngines r') t)) < maxInt) \<longrightarrow>
      (\<exists>res. shardedExecute (GetAllEngines r') plan limit = Inr res \<and> 0 < TotalHits res \<and>
        (limit \<le> 0 \<or> TotalHits res \<le> limit \<longrightarrow> respDocumentID resp \<in> sdDocID ` set (Results res))))"
proof -
  let ?ev = "\<lparr>evDocumentID = respDocumentID resp, evTitle = reqTitle req, evBody = reqBody req,
       evShardID = respShardID resp, IngestedAt = now\<rparr>"
  have "Ingest findRow insertRow (publishLog encode) now req d msgs = (Inr resp, d', msgs')"
    using assms(2,4) by (auto simp: handleIngest_def split: option.splits prod.splits sum.splits)
  note I = Ingest_published [OF this assms(3)]
  have msgs: "msgs' = msgs @ [(show_int (respShardID resp), encode ?ev)]" using I(1) by (simp add: publishLog_def)
  have range: "0 \<le> respShardID resp \<and> respShardID resp < totalShards" unfolding I(2) by (rule bodyShard_range)
  obtain err r' disks' rows' where h: "HandleMessageSharded decodeEv setStatus sys (encode ?ev) disks r rows = (err, r', disks', rows')"
    by (metis prod_cases4)
  have dec: "decodeEv (encode ?ev) = Some ?ev" using assms(5) by blast
  have "\<forall>e. shardEngine r (evShardID ?ev) = Some e \<longrightarrow>
      mem_fits (AddDocument (memIndex e) (evDocumentID ?ev) (evTitle ?ev) (evBody ?ev))" using assms(6) by simp
  note H = HandleMessageSharded_event [OF assms(1) h dec this assms(7)]
  then have w: "wf_router totalShards r'"
    and rows: "rows' = updateDocStatus setStatus rows (respDocumentID resp) (if err = None then ''INDEXED'' else ''FAILED'')"
    using range by auto
  obtain e' where e': "Route r' (respShardID resp) = Inr e'"
    "\<forall>t \<in> set (termsOf (reqTitle req) @ termsOf (reqBody req)). \<exists>ps. searchTerm e' t = Inr ps \<and> respDocumentID resp \<in> DocID ` set ps"
    using H range by auto
  have found: "(respDocumentID resp, t) \<in> foundPairs e' \<and> termsOf t = [t]" if "t \<in> set (planTerms plan)" for t
    using e'(2) assms(10) that by (auto simp: foundPairs_def)
  have search: "\<exists>res. shardedExecute (GetAllEngines r') plan limit = Inr res \<and> 0 < TotalHits res \<and>
      (limit \<le> 0 \<or> TotalHits res \<le> limit \<longrightarrow> respDocumentID resp \<in> sdDocID ` set (Results res))"
    if len: "\<forall>t \<in> set (planTerms plan). int (length (allShardPostings (GetAllEngines r') t)) < maxInt"
  proof (rule shardedExecute_finds [OF w _ _ assms(8,9) len])
    show "shardEngine r' (respShardID resp) = Some e'" using e'(1) by (simp add: Route_shardEngine split: option.splits)
  qed (use found in blast)
  show ?thesis
    by (rule exI [of _ "encode ?ev"], rule exI [of _ err], rule exI [of _ r'], rule exI [of _ disks'], rule exI [of _ rows'])
      (intro conjI impI range [THEN conjunct1] range [THEN conjunct2] msgs h w rows search)
qed

definition sampleRequest :: IngestRequest where
  "sampleRequest = \<lparr>reqTitle = ''Go'', reqBody = ''tour'', IdempotencyKey = []\<rparr>"

theorem ingest_then_search_witness:
  "\<exists>resp d' msgs' r value err r' disks' rows'.
     handleIngest Some tableFind tableInsert (publishLog id) 5 sampleRequest [] [] = ((202, Accepted resp), d', msgs') \<and>
     NewRouter calmSys 4096 totalShards (\<lambda>_. []) = (Inr r, \<lambda>_. []) \<and>
     msgs' = [(show_int (respShardID resp), value)] \<and>
     HandleMessageSharded Some (None :: (unit \<Rightarrow> string \<Rightarrow> string \<Rightarrow> unit) option) calmSys value (\<lambda>_. []) r () = (err, r', disks', rows') \<and>
     wf_router totalShards r'"
proof -
  obtain r where r: "NewRouter calmSys 4096 totalShards (\<lambda>_. []) = (Inr r, \<lambda>_. [])" "wf_router totalShards r"
    "\<forall>i e. shardEngine r i = Some e \<longrightarrow> e = freshEngine" using NewRouter_fresh by blast
  let ?resp = "\<lparr>respDocumentID = ''doc-0'', Status = ''PENDING'', respShardID = bodyShard ''tour''\<rparr>"
  have v: "ValidateIngestRequest sampleRequest = None"
    unfolding Validate_ok by (simp add: sampleRequest_def TrimSpace_def IsSpace_def maxTitleLength_def maxBodyLength_def)
  have "show_nat 0 = ''0''" by code_simp
  then have i: "Ingest tableFind tableInsert (publishLog id) 5 sampleRequest [] [] =
      (Inr ?resp, [\<lparr>rowTitle = ''Go'', contentHash = hexString (Sum256 ''tour''), contentSize = 4, rowShard = bodyShard ''tour'', rowKey = None\<rparr>],
       [(show_int (bodyShard ''tour''), \<lparr>evDocumentID = ''doc-0'', evTitle = ''Go'', evBody = ''tour'', evShardID = bodyShard ''tour'', IngestedAt = 5\<rparr>)])"
    unfolding Ingest_def Let_def sampleRequest_def IngestRequest.select_convs assignShard_body option.case
    by (simp add: tableInsert_def tableID_def publishLog_def nullableString_def del: show_nat.simps)
  then obtain d' msgs' where h: "handleIngest Some tableFind tableInsert (publishLog id) 5 sampleRequest [] [] =
      ((202, Accepted ?resp), d', msgs')" and l: "msgs' \<noteq> []"
    unfolding handleIngest_def option.case v by simp
  have "mem_fits (AddDocument (memIndex freshEngine) ''doc-0'' ''Go'' ''tour'')"
  proof -
    have "int64_entries (Snapshot (AddDocument (memIndex freshEngine) ''doc-0'' ''Go'' ''tour''))" by code_simp
    moreover have "length (postingsImage (Snapshot (AddDocument (memIndex freshEngine) ''doc-0'' ''Go'' ''tour''))) < 400"
      "length (dictImage (Snapshot (AddDocument (memIndex freshEngine) ''doc-0'' ''Go'' ''tour''))) < 400"
      by code_simp+
    ultimately show ?thesis by (simp add: mem_fits_def segment_fits_iff)
  qed
  then have m: "\<forall>e. shardEngine r (respShardID ?resp) = Some e \<longrightarrow>
      mem_fits (AddDocument (memIndex e) (respDocumentID ?resp) (reqTitle sampleRequest) (reqBody sampleRequest))"
    using r(3) by (auto simp: sampleRequest_def)
  have calm: "\<forall>i name. envOpen (calmSys i) name \<noteq> Some ErrPanic" by (simp add: calmSys_def)
  have p: "planTerms (Parse ''tour'') \<noteq> []" "ExcludeTerms (Parse ''tour'') = []"
    "\<forall>t \<in> set (planTerms (Parse ''tour'')). t \<in> set (termsOf (reqTitle sampleRequest) @ termsOf (reqBody sampleRequest)) \<and> termsOf t = [t]"
    by code_simp+
  show ?thesis
    using ingest_then_search [where decodeEv = Some and setStatus = "None :: (unit \<Rightarrow> string \<Rightarrow> string \<Rightarrow> unit) option"
        and rows = "()" and disks = "\<lambda>_. []", OF r(2) h l refl _ m calm p] r(1) h
    by (simp only: append.simps) (metis id_apply)
qed

end
